(* ===== verification/PokerPrelude.thy ===== *)
theory PokerPrelude
  imports
    Main
    "HOL-Library.AList"
    "HOL-Library.Signed_Division"
    "HOL-Library.Multiset"
    "HOL-Library.Product_Lexorder"
begin

text \<open>
  What every component of the development shares: the machine integers of the Go code,
  the maps and slices it is written with, and the collections of facts that the component
  proofs hand to the simplifier.
  Go's \<open>int64\<close> and \<open>int32\<close> are integers reduced to their two's complement range after
  every operation that can leave it, so that an overflow of the code is an overflow of
  the model. Go maps are association lists with distinct keys: the order of the list
  stands for the iteration order, which Go leaves open.
\<close>

named_theorems i64_simps "wrap-around arithmetic inside the range of the machine integers"

section \<open>Machine integers\<close>

definition wrap64 :: "int \<Rightarrow> int" where
  "wrap64 x = (x + 9223372036854775808) mod 18446744073709551616 - 9223372036854775808"

definition wrap32 :: "int \<Rightarrow> int" where
  "wrap32 x = (x + 2147483648) mod 4294967296 - 2147483648"

definition in64 :: "int \<Rightarrow> bool" where
  "in64 x \<longleftrightarrow> - 9223372036854775808 \<le> x \<and> x < 9223372036854775808"

definition add64 :: "int \<Rightarrow> int \<Rightarrow> int" where
  "add64 a b = wrap64 (a + b)"

definition sub64 :: "int \<Rightarrow> int \<Rightarrow> int" where
  "sub64 a b = wrap64 (a - b)"

definition mul64 :: "int \<Rightarrow> int \<Rightarrow> int" where
  "mul64 a b = wrap64 (a * b)"

definition add32 :: "int \<Rightarrow> int \<Rightarrow> int" where
  "add32 a b = wrap32 (a + b)"

lemma wrap64_id [i64_simps]: "in64 x \<Longrightarrow> wrap64 x = x"
  by (simp add: wrap64_def in64_def mod_pos_pos_trivial)

lemma wrap64_in64: "in64 (wrap64 x)"
proof -
  have "0 \<le> (x + 9223372036854775808) mod 18446744073709551616"
    and "(x + 9223372036854775808) mod 18446744073709551616 < 18446744073709551616"
    by simp_all
  then show ?thesis unfolding wrap64_def in64_def by linarith
qed

lemma wrap64_mod: "wrap64 x mod 18446744073709551616 = x mod 18446744073709551616"
  unfolding wrap64_def by (simp add: mod_diff_left_eq)

lemma add64_exact [i64_simps]: "in64 (a + b) \<Longrightarrow> add64 a b = a + b"
  by (simp add: add64_def wrap64_id)

lemma sub64_exact [i64_simps]: "in64 (a - b) \<Longrightarrow> sub64 a b = a - b"
  by (simp add: sub64_def wrap64_id)

lemma mul64_exact [i64_simps]: "in64 (a * b) \<Longrightarrow> mul64 a b = a * b"
  by (simp add: mul64_def wrap64_id)

lemma in64I: "- 9223372036854775808 \<le> x \<Longrightarrow> x < 9223372036854775808 \<Longrightarrow> in64 x"
  by (simp add: in64_def)

lemma in64_between: "in64 b \<Longrightarrow> 0 \<le> x \<Longrightarrow> x \<le> b \<Longrightarrow> in64 x"
  by (simp add: in64_def)

lemma in64_0 [simp]: "in64 0"
  by (simp add: in64_def)

text \<open>Go's \<open>/\<close> and \<open>%\<close> truncate towards zero; on the amounts of the program, which are
  not negative, they are the mathematical ones.\<close>

lemma sdiv_nonneg: "0 \<le> a \<Longrightarrow> 0 < b \<Longrightarrow> a sdiv b = a div (b :: int)"
  by (cases "a = 0") (simp_all add: signed_divide_int_def sgn_1_pos)

lemma smod_nonneg: "0 \<le> a \<Longrightarrow> 0 < b \<Longrightarrow> a smod b = a mod (b :: int)"
  by (cases "a = 0") (simp_all add: signed_modulo_int_def sgn_1_pos)

section \<open>Formatting\<close>

text \<open>The \<open>%d\<close> verb of \<open>fmt.Sprintf\<close>.\<close>

fun show_nat :: "nat \<Rightarrow> string" where
  "show_nat n =
     (if n < 10 then [char_of (48 + n)] else show_nat (n div 10) @ [char_of (48 + n mod 10)])"

declare show_nat.simps [simp del]

definition show_int :: "int \<Rightarrow> string" where
  "show_int i = (if i < 0 then ''-'' @ show_nat (nat (- i)) else show_nat (nat i))"

section \<open>Maps as association lists\<close>

text \<open>\<open>if p := m[k]; p != nil { mutate p }\<close> is \<^const>\<open>AList.map_entry\<close>: nothing happens
  for an absent key.\<close>

definition keys :: "('k \<times> 'v) list \<Rightarrow> 'k list" where
  "keys m = map fst m"

definition values_upd :: "('v \<Rightarrow> 'v) \<Rightarrow> ('k \<times> 'v) list \<Rightarrow> ('k \<times> 'v) list" where
  \<comment> \<open>\<open>for _, p := range m { mutate p }\<close>\<close>
  "values_upd f m = map (\<lambda>(k, v). (k, f v)) m"

definition asum :: "('v \<Rightarrow> int) \<Rightarrow> ('k \<times> 'v) list \<Rightarrow> int" where
  "asum f m = sum_list (map (\<lambda>(k, v). f v) m)"

lemma asum_Nil [simp]: "asum f [] = 0"
  and asum_Cons [simp]: "asum f (x # m) = f (snd x) + asum f m"
  by (simp_all add: asum_def case_prod_beta)

lemma keys_map_entry [simp]: "keys (AList.map_entry k f m) = keys m"
  by (induction m) (auto simp: keys_def)

lemma keys_values_upd [simp]: "keys (values_upd f m) = keys m"
  by (simp add: keys_def values_upd_def case_prod_beta)

lemma map_of_map_entry:
  "map_of (AList.map_entry k f m) k' =
     (if k' = k then map_option f (map_of m k) else map_of m k')"
  by (induction m) auto

lemma map_of_values_upd: "map_of (values_upd f m) k = map_option f (map_of m k)"
  by (induction m) (auto simp: values_upd_def)

lemma map_of_None_keys: "map_of m k = None \<longleftrightarrow> k \<notin> set (keys m)"
  by (simp add: keys_def map_of_eq_None_iff)

lemma asum_map_entry:
  "map_of m k = Some v \<Longrightarrow> asum f (AList.map_entry k g m) = asum f m - f v + f (g v)"
  by (induction m) (auto split: if_splits)

lemma asum_map_entry_None: "map_of m k = None \<Longrightarrow> AList.map_entry k g m = m"
  by (induction m) (auto split: if_splits)

lemma asum_map_entry_same:
  "(\<And>v. f (g v) = f v) \<Longrightarrow> asum f (AList.map_entry k g m) = asum f m"
  by (induction m) auto

lemma asum_values_upd: "asum f (values_upd g m) = asum (f \<circ> g) m"
  by (induction m) (auto simp: values_upd_def)

lemma asum_cong: "(\<And>k v. (k, v) \<in> set m \<Longrightarrow> f v = g v) \<Longrightarrow> asum f m = asum g m"
  by (induction m) fastforce+

lemma asum_nonneg: "(\<And>k v. (k, v) \<in> set m \<Longrightarrow> 0 \<le> f v) \<Longrightarrow> 0 \<le> asum f m"
  by (induction m) fastforce+

lemma asum_member_le:
  assumes "\<And>k v. (k, v) \<in> set m \<Longrightarrow> 0 \<le> f v" and "map_of m k = Some v"
  shows "f v \<le> asum f m"
  using assms
proof (induction m)
  case (Cons x m)
  have "0 \<le> asum f m" using Cons.prems(1) by (intro asum_nonneg) auto
  moreover have "0 \<le> f (snd x)" using Cons.prems(1) [of "fst x" "snd x"] by simp
  ultimately show ?case using Cons by (force split: if_splits)
qed simp

lemma asum_delete:
  assumes "map_of m k = Some v" and "distinct (keys m)"
  shows "asum f (AList.delete k m) = asum f m - f v"
  using assms
proof (induction m)
  case (Cons x m)
  show ?case
  proof (cases "fst x = k")
    case True
    then have "k \<notin> set (keys m)" using Cons.prems(2) by (auto simp: keys_def)
    then have "AList.delete k m = m"
      by (simp add: keys_def delete_id)
    then show ?thesis using Cons.prems True by (cases x) simp
  next
    case False
    then show ?thesis using Cons by (cases x) (simp add: keys_def)
  qed
qed simp

section \<open>Slices\<close>

text \<open>\<open>removeString\<close> and \<open>removeInt32\<close>: every element equal to the value goes.\<close>

definition remove_all :: "'a \<Rightarrow> 'a list \<Rightarrow> 'a list" where
  "remove_all v s = filter (\<lambda>x. x \<noteq> v) s"

lemma set_remove_all [simp]: "set (remove_all v s) = set s - {v}"
  by (auto simp: remove_all_def)

lemma distinct_remove_all [simp]: "distinct s \<Longrightarrow> distinct (remove_all v s)"
  by (simp add: remove_all_def)

lemma sum_list_filter_split:
  "sum_list (map f xs) =
     sum_list (map f (filter P xs)) + sum_list (map f (filter (\<lambda>x. \<not> P x) xs))"
  for f :: "'a \<Rightarrow> int"
  by (induction xs) auto

text \<open>The index of the first element equal to a value, as the loops with \<open>break\<close> find it.\<close>

fun index_of :: "'a \<Rightarrow> 'a list \<Rightarrow> nat option" where
  "index_of v [] = None"
| "index_of v (x # xs) = (if x = v then Some 0 else map_option Suc (index_of v xs))"

lemma index_of_None: "index_of v xs = None \<longleftrightarrow> v \<notin> set xs"
  by (induction xs) auto

lemma index_of_Some: "index_of v xs = Some i \<Longrightarrow> i < length xs \<and> xs ! i = v"
  by (induction xs arbitrary: i) (auto split: if_splits)

lemma sort_key_mset_cong:
  "mset xs = mset ys \<Longrightarrow> inj_on f (set xs) \<Longrightarrow> sort_key f xs = sort_key f ys"
  by (rule sort_key_inj_key_eq) simp_all

text \<open>Results of fallible code: \<open>Inl\<close> the error, \<open>Inr\<close> the value.\<close>

type_synonym go_error = string

end
