(* ===== verification/Proto.thy ===== *)
theory Proto
  imports PokerPrelude
begin

text \<open>
  The data model: the protobuf messages of \<open>src/proto/poker/v1\<close> as the Go code sees them
  (generated structs): enums as datatypes, messages as records with the Go field names, the
  \<open>oneof\<close>s of \<open>GameEvent\<close> and \<open>PlayerCommand\<close> as datatypes with one constructor per
  variant. An \<open>optional\<close> field or a message pointer is an \<open>option\<close>; a map is an
  association list. Times and durations are nanoseconds, times counted from Go's zero time.
\<close>

type_synonym timestamp = int
type_synonym duration = int
type_synonym card = nat

section \<open>common.proto\<close>

datatype BettingStructure =
    BETTING_STRUCTURE_UNSPECIFIED
  | BETTING_STRUCTURE_NO_LIMIT
  | BETTING_STRUCTURE_POT_LIMIT
  | BETTING_STRUCTURE_FIXED_LIMIT
  | BETTING_STRUCTURE_SPREAD_LIMIT

datatype GameVariant =
    GAME_VARIANT_UNSPECIFIED
  | GAME_VARIANT_TEXAS_HOLDEM
  | GAME_VARIANT_OMAHA
  | GAME_VARIANT_OMAHA_HI_LO
  | GAME_VARIANT_SEVEN_CARD_STUD

datatype GameStatus =
    GAME_STATUS_UNSPECIFIED
  | GAME_STATUS_WAITING
  | GAME_STATUS_ACTIVE
  | GAME_STATUS_PAUSED
  | GAME_STATUS_FINISHED
  | GAME_STATUS_CLOSED

datatype HandPhase =
    HAND_PHASE_UNSPECIFIED
  | HAND_PHASE_PREFLOP
  | HAND_PHASE_FLOP
  | HAND_PHASE_TURN
  | HAND_PHASE_RIVER
  | HAND_PHASE_SHOWDOWN
  | HAND_PHASE_HAND_OVER

datatype SeatStatus =
    SEAT_STATUS_UNSPECIFIED
  | SEAT_STATUS_EMPTY
  | SEAT_STATUS_RESERVED
  | SEAT_STATUS_OCCUPIED
  | SEAT_STATUS_SITTING_OUT
  | SEAT_STATUS_DISCONNECTED

section \<open>config.proto\<close>

record CashGameConfig =
  TableName :: string
  Variant :: GameVariant
  Structure :: BettingStructure
  Currency :: string
  MaxSeats :: int
  MinPlayersToStart :: int
  SmallBlind :: int
  BigBlind :: int
  Ante :: int
  BbAnte :: int
  StraddleAmount :: int
  SmallBet :: int
  BigBet :: int
  MaxRaisesPerStreet :: int
  UncapHeadsUp :: bool
  MinBuyIn :: int
  MaxBuyIn :: int
  AllowRebuy :: bool
  AllowTopUp :: bool
  AutoRebuyThreshold :: int
  AutoRebuyAmount :: int
  RakeBps :: int
  RakeCap :: int
  NoFlopNoDrop :: bool
  ActionTimeout :: "duration option"
  TimeBankInitial :: "duration option"
  TimeBankIncrement :: "duration option"
  HandStartDelay :: "duration option"
  SeatReservationTimeout :: "duration option"
  AutoMuckLosingHands :: bool
  AllowRunItTwice :: bool
  AllowChat :: bool
  ShowFoldedCards :: bool
  AllowStraddle :: bool
  AllowSeatChange :: bool
  RequirePostForNewPlayer :: bool
  IsPrivate :: bool
  Password :: string

text \<open>A protobuf getter on a nil message returns the field's zero value.\<close>

definition get_cfg :: "(CashGameConfig \<Rightarrow> 'a) \<Rightarrow> 'a \<Rightarrow> CashGameConfig option \<Rightarrow> 'a" where
  "get_cfg f zero cfg = (case cfg of None \<Rightarrow> zero | Some c \<Rightarrow> f c)"

section \<open>state.proto\<close>

record PlayerState =
  PlayerId :: string
  Seat :: int
  SeatStatus :: SeatStatus
  Stack :: int
  CurrentBet :: int
  TotalCommittedThisHand :: int
  IsFolded :: bool
  IsAllIn :: bool
  IsSittingOut :: bool
  TimeBankRemaining :: "duration option"
  MustPostBlind :: bool
  DisconnectedAt :: "timestamp option"
  HoleCard_1 :: "card option"
  HoleCard_2 :: "card option"

record SidePot =
  sp_Amount :: int
  sp_EligiblePlayerIds :: "string list"

record HandState =
  HandId :: string
  DealerPlayerId :: string
  SmallBlindPlayerId :: string
  BigBlindPlayerId :: string
  Pot :: int
  RakeTaken :: int
  Phase :: HandPhase
  CurrentHighestBet :: int
  LastRaiseAmount :: int
  MinRaiseAmount :: int
  RaisesThisStreet :: int
  ActingPlayerId :: "string option"
  ActionDeadline :: "timestamp option"
  FlopCard_1 :: "card option"
  FlopCard_2 :: "card option"
  FlopCard_3 :: "card option"
  TurnCard :: "card option"
  RiverCard :: "card option"
  SecondBoard :: "card list"
  SidePots :: "SidePot list"
  PendingActions :: "string list"
  ActionOrder :: "string list"
  StartedAt :: "timestamp option"
  LastFullRaiseTo :: int
  ActionClosedFor :: "string list"

record GameState =
  GameId :: string
  Status :: GameStatus
  Version :: int
  Config :: "CashGameConfig option"
  DealerSeat :: int
  HandNumber :: int
  CurrentHand :: "HandState option"
  Players :: "(string \<times> PlayerState) list"
  PlayerUserIds :: "(string \<times> string) list"
  ReservedSeats :: "int list"
  WaitingList :: "string list"

section \<open>events.proto\<close>

text \<open>The constructor arguments are the message fields in their declared order. The map
  \<open>net_change_by_player\<close> of \<open>HandEnded\<close> is never set by the code and left out.\<close>

datatype (plugins only: code size) EventPayload =
    EvTableCreated "CashGameConfig option"
  | EvTableClosed string
  | EvTablePaused string
  | EvTableResumed
  | EvSeatReserved string int "timestamp option"
  | EvSeatReservationCancelled string int string
  | EvPlayerJoined string string int int
  | EvPlayerLeft string int string
  | EvPlayerSatOut string
  | EvPlayerSatIn string
  | EvPlayerDisconnected string
  | EvPlayerReconnected string
  | EvPlayerKicked string string
  | EvWaitingListJoined string int
  | EvWaitingListLeft string
  | EvSeatChanged string int int
  | EvStackToppedUp string int int
  | EvAutoRebuyTriggered string int int
  | EvHandStarted string int string string string int int
  | EvBlindPosted string int bool bool bool
  | EvAntePosted string int
  | EvStraddlePosted string int
  | EvHoleCardsDealt string
  | EvHoleCardsRevealed string card card
  | EvFlopDealt card card card
  | EvTurnDealt card
  | EvRiverDealt card
  | EvRunItTwiceAgreed "string list"
  | EvSecondBoardDealt card card
  | EvPlayerFolded string
  | EvPlayerChecked string
  | EvPlayerCalled string int
  | EvPlayerBet string int
  | EvPlayerRaised string int int
  | EvPlayerAllIn string int
  | EvPlayerShowedCards string card card
  | EvPlayerMuckedCards string
  | EvActionStarted string "duration option" "timestamp option"
  | EvTimeBankUsed string "duration option" "duration option"
  | EvPlayerTimedOut string string
  | EvBettingRoundEnded HandPhase int
  | EvSidePotCreated int "string list"
  | EvShowdown "string list"
  | EvPotAwarded int "string list" "nat list" string
  | EvRakeTaken int
  | EvHandEnded int
  | EvBuyInRequested string int
  | EvBuyInCompleted string int
  | EvBuyInFailed string string
  | EvCashOutRequested string
  | EvCashOutCompleted string int
  | EvChatMessageSent string string
  | EvPlayerChatMuted string "duration option" string
  | EvPlayerEmoteSent string string
  | EvCommandRejected string string string
  | EvCommandAccepted string

record GameEvent =
  evt_GameId :: string
  evt_Sequence :: nat
  evt_OccurredAt :: "timestamp option"
  evt_CausedByCommandId :: string
  evt_StateVersion :: int
  evt_Event :: "EventPayload option"

text \<open>\<open>&pb.GameEvent{Event: e}\<close>: the envelope is zero until the session stamps it.\<close>

definition mk_event :: "EventPayload \<Rightarrow> GameEvent" where
  "mk_event e = \<lparr>evt_GameId = [], evt_Sequence = 0, evt_OccurredAt = None,
     evt_CausedByCommandId = [], evt_StateVersion = 0, evt_Event = Some e\<rparr>"

lemma mk_event_sel [simp]:
  "evt_Event (mk_event e) = Some e" "evt_StateVersion (mk_event e) = 0"
  "evt_OccurredAt (mk_event e) = None" "evt_CausedByCommandId (mk_event e) = []"
  by (simp_all add: mk_event_def)

section \<open>commands.proto\<close>

datatype (plugins only: code size) CommandPayload =
    CmdFold
  | CmdCheck
  | CmdCall int
  | CmdBet int
  | CmdRaise int
  | CmdAllIn
  | CmdSitOut
  | CmdSitIn
  | CmdShowCards
  | CmdMuckCards
  | CmdUseTimeBank
  | CmdChatMessage string
  | CmdEmote string
  | CmdRunItTwice bool
  | CmdResume nat

record PlayerCommand =
  cmd_CommandId :: string
  cmd_GameId :: string
  cmd_ClientStateVersion :: int
  cmd_Payload :: "CommandPayload option"

section \<open>Views of the game state\<close>

definition player :: "GameState \<Rightarrow> string \<Rightarrow> PlayerState option" where
  \<comment> \<open>\<open>state.Players[id]\<close>\<close>
  "player st pid = map_of (Players st) pid"

definition upd_player :: "string \<Rightarrow> (PlayerState \<Rightarrow> PlayerState) \<Rightarrow> GameState \<Rightarrow> GameState" where
  \<comment> \<open>\<open>if p := next.Players[id]; p != nil { mutate p }\<close>\<close>
  "upd_player pid f st = st\<lparr>Players := AList.map_entry pid f (Players st)\<rparr>"

definition upd_all_players :: "(PlayerState \<Rightarrow> PlayerState) \<Rightarrow> GameState \<Rightarrow> GameState" where
  \<comment> \<open>\<open>for _, p := range next.Players { mutate p }\<close>\<close>
  "upd_all_players f st = st\<lparr>Players := values_upd f (Players st)\<rparr>"

definition upd_hand :: "(HandState \<Rightarrow> HandState) \<Rightarrow> GameState \<Rightarrow> GameState" where
  \<comment> \<open>\<open>if next.CurrentHand != nil { mutate it }\<close>\<close>
  "upd_hand f st = st\<lparr>CurrentHand := map_option f (CurrentHand st)\<rparr>"

lemma player_upd_player:
  "player (upd_player pid f st) pid' =
     (if pid' = pid then map_option f (player st pid) else player st pid')"
  by (simp add: player_def upd_player_def map_of_map_entry)

lemma player_upd_all: "player (upd_all_players f st) pid = map_option f (player st pid)"
  by (simp add: player_def upd_all_players_def map_of_values_upd)

lemma player_upd_hand [simp]: "player (upd_hand f st) pid = player st pid"
  by (simp add: player_def upd_hand_def)

lemma upd_sel [simp]:
  "CurrentHand (upd_player pid f st) = CurrentHand st"
  "Status (upd_player pid f st) = Status st"
  "Config (upd_player pid f st) = Config st"
  "HandNumber (upd_player pid f st) = HandNumber st"
  "DealerSeat (upd_player pid f st) = DealerSeat st"
  "Players (upd_player pid f st) = AList.map_entry pid f (Players st)"
  "CurrentHand (upd_all_players g st) = CurrentHand st"
  "Status (upd_all_players g st) = Status st"
  "Config (upd_all_players g st) = Config st"
  "HandNumber (upd_all_players g st) = HandNumber st"
  "DealerSeat (upd_all_players g st) = DealerSeat st"
  "Players (upd_all_players g st) = values_upd g (Players st)"
  "CurrentHand (upd_hand h st) = map_option h (CurrentHand st)"
  "Status (upd_hand h st) = Status st"
  "Config (upd_hand h st) = Config st"
  "HandNumber (upd_hand h st) = HandNumber st"
  "DealerSeat (upd_hand h st) = DealerSeat st"
  "Players (upd_hand h st) = Players st"
  by (simp_all add: upd_player_def upd_all_players_def upd_hand_def)

end
