(* ===== verification/Store.thy ===== *)
theory Store
  imports Proto
begin

text \<open>
  \<open>src/internal/store/store.go\<close>: the repository the engine and the lobby use. The Go interface
  \<open>Store\<close> is a record of its methods over the type \<open>'s\<close> of what they read and change; \<open>pgStore\<close>
  is the implementation, over the tables of \<open>src/db/migrations\<close> and the statements of
  \<open>src/db/queries\<close>, which are written out here as operations on lists of rows. What Postgres
  and protobuf do themselves is taken as documented: a statement changes the rows its text
  names or nothing, a marshalled message unmarshals to itself. A statement can also fail for
  a reason outside the program (a lost connection): the field \<open>faults\<close> names those that do.
  \<open>uuid.Parse\<close> of the third-party package is the argument \<open>parse\<close>; a \<open>uuid.UUID\<close> is its
  canonical text.
\<close>

section \<open>Errors\<close>

datatype go_err =
    ErrConcurrentWrite
  | ErrNotFound
  | ErrInsufficientBalance
  | ErrDuplicateExternalID
  | ErrInsufficientFunds
  | ErrSeatTaken
  | ErrBuyInOutOfRange
  | ErrGameClosed
  | ErrAlreadySeated
  | ErrTableFull
  | ErrUserNotAtTable
  | ErrGameNotFound
  | NewError string
  | Wrap string go_err

text \<open>\<open>errors.Is\<close> for a sentinel: it looks through \<open>fmt.Errorf(\<dots>%w\<dots>, err)\<close>.\<close>

primrec unwrap :: "go_err \<Rightarrow> go_err" where
  "unwrap ErrConcurrentWrite = ErrConcurrentWrite"
| "unwrap ErrNotFound = ErrNotFound"
| "unwrap ErrInsufficientBalance = ErrInsufficientBalance"
| "unwrap ErrDuplicateExternalID = ErrDuplicateExternalID"
| "unwrap ErrInsufficientFunds = ErrInsufficientFunds"
| "unwrap ErrSeatTaken = ErrSeatTaken"
| "unwrap ErrBuyInOutOfRange = ErrBuyInOutOfRange"
| "unwrap ErrGameClosed = ErrGameClosed"
| "unwrap ErrAlreadySeated = ErrAlreadySeated"
| "unwrap ErrTableFull = ErrTableFull"
| "unwrap ErrUserNotAtTable = ErrUserNotAtTable"
| "unwrap ErrGameNotFound = ErrGameNotFound"
| "unwrap (NewError s) = NewError s"
| "unwrap (Wrap s e) = unwrap e"

definition errors_Is :: "go_err \<Rightarrow> go_err \<Rightarrow> bool" where
  "errors_Is e target \<longleftrightarrow> unwrap e = target"

type_synonym uuid = string

definition uuid_Nil :: uuid where
  "uuid_Nil = ''00000000-0000-0000-0000-000000000000''"

section \<open>The interface\<close>

record UserSnapshot =
  us_UserID :: uuid
  us_ChipBalance :: int
  us_TotalDeposited :: int
  us_TotalReports :: int
  us_LastDepositAt :: "timestamp option"
  us_LastActivityAt :: timestamp

text \<open>\<open>WithTx(fn)\<close> is \<open>Begin\<close>, then \<open>fn\<close>, then \<open>Commit\<close> or \<open>Rollback\<close>.\<close>

record 's Store =
  Begin :: "'s \<Rightarrow> go_err option \<times> 's"
  Commit :: "'s \<Rightarrow> go_err option \<times> 's"
  Rollback :: "'s \<Rightarrow> 's"
  CreateGameConfig :: "uuid \<Rightarrow> CashGameConfig option \<Rightarrow> 's \<Rightarrow> (go_err + uuid) \<times> 's"
  AppendEvent :: "GameEvent \<Rightarrow> 's \<Rightarrow> go_err option \<times> 's"
  AppendEvents :: "GameEvent list \<Rightarrow> 's \<Rightarrow> go_err option \<times> 's"
  GetEventsForGame :: "uuid \<Rightarrow> nat \<Rightarrow> nat \<Rightarrow> 's \<Rightarrow> go_err + GameEvent list"
  GetLatestSequence :: "uuid \<Rightarrow> 's \<Rightarrow> go_err + nat"
  FindEventByCommandID :: "uuid \<Rightarrow> uuid \<Rightarrow> 's \<Rightarrow> go_err + GameEvent"
  FindEventByCommandIDGlobal :: "uuid \<Rightarrow> 's \<Rightarrow> go_err + GameEvent"
  CreateSnapshot :: "GameState \<Rightarrow> int \<Rightarrow> 's \<Rightarrow> go_err option \<times> 's"
  GetLatestSnapshot :: "uuid \<Rightarrow> 's \<Rightarrow> go_err + (GameState \<times> nat)"
  DebitUserBalance :: "uuid \<Rightarrow> int \<Rightarrow> 's \<Rightarrow> (go_err + UserSnapshot) \<times> 's"
  CreditUserBalance :: "uuid \<Rightarrow> int \<Rightarrow> 's \<Rightarrow> (go_err + UserSnapshot) \<times> 's"
  GetUserSnapshot :: "uuid \<Rightarrow> 's \<Rightarrow> go_err + UserSnapshot"

text \<open>\<^const>\<open>None\<close> is a function that does not return.\<close>

definition WithTx ::
  "'s Store \<Rightarrow> ('s \<Rightarrow> ((go_err + 'a) \<times> 's) option) \<Rightarrow> 's \<Rightarrow> ((go_err + 'a) \<times> 's) option" where
  "WithTx S fn s =
     (case Begin S s of
        (Some e, s1) \<Rightarrow> Some (Inl (Wrap ''begin tx: '' e), s1)
      | (None, s1) \<Rightarrow>
          map_option (\<lambda>out. case out of
              (Inl e, s2) \<Rightarrow> (Inl e, Rollback S s2)
            | (Inr r, s2) \<Rightarrow>
                (case Commit S s2 of
                   (Some e, s3) \<Rightarrow> (Inl e, Rollback S s3)
                 | (None, s3) \<Rightarrow> (Inr r, s3))) (fn s1))"

section \<open>The tables\<close>

text \<open>The columns beside \<open>config_proto\<close> repeat fields of the configuration for the search; an enum is a
  \<open>SMALLINT\<close> with the number of its value. In all tables the surrogate keys and the times that no
  statement of the program reads (\<open>id\<close>, \<open>updated_at\<close>, \<open>inserted_at\<close>, \<open>published_at\<close>, \<open>taken_at\<close>) are
  left out; \<open>deleted_at\<close> is whether it is set.\<close>

record config_row =
  cr_game_id :: uuid
  cr_table_name :: string
  cr_variant :: GameVariant
  cr_structure :: BettingStructure
  cr_currency :: string
  cr_small_blind :: int
  cr_big_blind :: int
  cr_min_buy_in :: int
  cr_max_buy_in :: int
  cr_max_seats :: int
  cr_is_private :: bool
  cr_config :: "CashGameConfig option"
  cr_created_at :: timestamp
  cr_deleted :: bool

text \<open>The columns \<open>event_type\<close> and \<open>payload\<close> of \<open>game_events\<close> repeat a part of the envelope in
  another encoding and are never read back; they are left out.\<close>

record event_row =
  er_game_id :: uuid
  er_sequence :: int
  er_command_id :: "uuid option"
  er_hand_id :: "uuid option"
  er_state_version_after :: int
  er_occurred_at :: "timestamp option"
  er_envelope :: GameEvent

record snapshot_row =
  sr_game_id :: uuid
  sr_sequence :: int
  sr_hand_number :: int
  sr_state :: GameState

record user_row =
  ur_id :: uuid
  ur_display_name :: string
  ur_external_id :: "string option"
  ur_timezone :: string
  ur_max_daily_deposit :: int
  ur_created_at :: timestamp
  ur_deleted :: bool

type_synonym date = "int \<times> int \<times> int"

record daily_row =
  dr_user_id :: uuid
  dr_local_date :: date
  dr_max_steps :: int
  dr_last_reported_at :: timestamp

record report_row =
  rr_user_id :: uuid
  rr_report_id :: uuid
  rr_reported_steps :: int
  rr_credited_chips :: int
  rr_local_date :: date
  rr_reported_at :: timestamp
  rr_reason :: string

record Tables =
  game_configs :: "config_row list"
  game_events :: "event_row list"
  game_snapshots :: "snapshot_row list"
  users :: "user_row list"
  user_snapshots :: "(uuid \<times> UserSnapshot) list"
  user_daily_steps :: "daily_row list"
  step_deposit_reports :: "report_row list"

text \<open>What a store works on: the committed tables of the pool, the tables as the open transaction
  sees them, \<open>NOW()\<close>, and the statements that fail.\<close>

record Db =
  committed :: Tables
  open_tx :: "Tables option"
  db_now :: timestamp
  faults :: "string list"

definition tables :: "Db \<Rightarrow> Tables" where
  "tables s = (case open_tx s of None \<Rightarrow> committed s | Some t \<Rightarrow> t)"

definition upd_tables :: "(Tables \<Rightarrow> Tables) \<Rightarrow> Db \<Rightarrow> Db" where
  "upd_tables f s =
     (case open_tx s of
        None \<Rightarrow> s\<lparr>committed := f (committed s)\<rparr>
      | Some t \<Rightarrow> s\<lparr>open_tx := Some (f t)\<rparr>)"

definition db_error :: go_err where
  "db_error = NewError ''database error''"

definition down :: "string \<Rightarrow> Db \<Rightarrow> bool" where
  "down q s \<longleftrightarrow> q \<in> set (faults s)"

text \<open>What a statement of \<open>store/pgstore\<close> can fail with, as far as the store tells it apart. A statement is
  a definition \<open>q_\<dots>\<close>, the method of the store that runs it \<open>pg_\<dots>\<close>.\<close>

datatype pg_err = ErrNoRows | UniqueViolation | DbError

definition q_find :: "string \<Rightarrow> ('a \<Rightarrow> bool) \<Rightarrow> 'a list \<Rightarrow> Db \<Rightarrow> pg_err + 'a" where
  \<comment> \<open>\<open>QueryRow(\<dots>).Scan(\<dots>)\<close> of a \<open>SELECT\<close> by key\<close>
  "q_find q P rows s =
     (if down q s then Inl DbError
      else case find P rows of None \<Rightarrow> Inl ErrNoRows | Some r \<Rightarrow> Inr r)"

definition read_error :: "string \<Rightarrow> pg_err \<Rightarrow> go_err" where
  \<comment> \<open>\<open>if errors.Is(err, pgx.ErrNoRows) { return ErrNotFound }\<close>, else the error is wrapped\<close>
  "read_error what e = (if e = ErrNoRows then ErrNotFound else Wrap what db_error)"

definition append_error :: "string \<Rightarrow> pg_err \<Rightarrow> go_err" where
  \<comment> \<open>\<open>if isUniqueViolation(err) { return ErrConcurrentWrite }\<close>, else the error is wrapped\<close>
  "append_error what e = (if e = UniqueViolation then ErrConcurrentWrite else Wrap what db_error)"

section \<open>Events\<close>

definition extractHandID :: "(string \<Rightarrow> uuid option) \<Rightarrow> GameEvent \<Rightarrow> uuid option" where
  "extractHandID parse evt =
     (case evt_Event evt of
        Some (EvHandStarted hid n d sb bb s b) \<Rightarrow> parse hid
      | _ \<Rightarrow> None)"

definition eventToParams :: "(string \<Rightarrow> uuid option) \<Rightarrow> GameEvent \<Rightarrow> go_err + event_row" where
  "eventToParams parse evt =
     (case parse (evt_GameId evt) of
        None \<Rightarrow> Inl (NewError (''parse game_id '' @ evt_GameId evt))
      | Some gameID \<Rightarrow>
          if evt_Event evt = None then Inl (NewError ''GameEvent: 'event' oneof is not set'')
          else
            let cmd = evt_CausedByCommandId evt
            in if cmd \<noteq> [] \<and> parse cmd = None then Inl (NewError (''parse command_id '' @ cmd))
               else Inr \<lparr>er_game_id = gameID, er_sequence = wrap64 (int (evt_Sequence evt)),
                 er_command_id = (if cmd = [] then None else parse cmd),
                 er_hand_id = extractHandID parse evt,
                 er_state_version_after = evt_StateVersion evt,
                 er_occurred_at = evt_OccurredAt evt, er_envelope = evt\<rparr>)"

text \<open>\<open>INSERT INTO game_events\<close> with its two constraints, \<open>UNIQUE (game_id, sequence)\<close> and
  \<open>CHECK (sequence > 0)\<close>.\<close>

definition insert_event :: "event_row \<Rightarrow> Tables \<Rightarrow> pg_err + Tables" where
  "insert_event r t =
     (if \<exists>q \<in> set (game_events t). er_game_id q = er_game_id r \<and> er_sequence q = er_sequence r
      then Inl UniqueViolation
      else if er_sequence r \<le> 0 then Inl DbError
      else Inr (t\<lparr>game_events := game_events t @ [r]\<rparr>))"

definition q_AppendGameEvent :: "event_row \<Rightarrow> Db \<Rightarrow> (pg_err + event_row) \<times> Db" where
  "q_AppendGameEvent r s =
     (if down ''AppendGameEvent'' s then (Inl DbError, s)
      else case insert_event r (tables s) of
             Inl e \<Rightarrow> (Inl e, s)
           | Inr t \<Rightarrow> (Inr r, upd_tables (\<lambda>_. t) s))"

fun copy_events :: "event_row list \<Rightarrow> Tables \<Rightarrow> pg_err + Tables" where
  "copy_events [] t = Inr t"
| "copy_events (r # rs) t =
     (case insert_event r t of Inl e \<Rightarrow> Inl e | Inr t' \<Rightarrow> copy_events rs t')"

fun params_of :: "(string \<Rightarrow> uuid option) \<Rightarrow> GameEvent list \<Rightarrow> go_err + event_row list" where
  "params_of parse [] = Inr []"
| "params_of parse (evt # evts) =
     (case eventToParams parse evt of
        Inl e \<Rightarrow> Inl e
      | Inr r \<Rightarrow> (case params_of parse evts of Inl e \<Rightarrow> Inl e | Inr rs \<Rightarrow> Inr (r # rs)))"

definition pg_AppendEvent ::
  "(string \<Rightarrow> uuid option) \<Rightarrow> GameEvent \<Rightarrow> Db \<Rightarrow> go_err option \<times> Db" where
  pg_AppendEvent_code: "pg_AppendEvent parse evt s =
     (case eventToParams parse evt of
        Inl e \<Rightarrow> (Some e, s)
      | Inr r \<Rightarrow>
          (case q_AppendGameEvent r s of
             (Inl e, s1) \<Rightarrow> (Some (append_error ''insert game_event: '' e), s1)
           | (Inr row, s1) \<Rightarrow> (None, s1)))"

lemma pg_AppendEvent_def: "pg_AppendEvent parse evt s =
     (case eventToParams parse evt of
        Inl e \<Rightarrow> (Some e, s)
      | Inr r \<Rightarrow>
          if down ''AppendGameEvent'' s then (Some (Wrap ''insert game_event: '' db_error), s)
          else (case insert_event r (tables s) of
                  Inl e \<Rightarrow> (Some (append_error ''insert game_event: '' e), s)
                | Inr t \<Rightarrow> (None, upd_tables (\<lambda>_. t) s)))"
  by (simp add: pg_AppendEvent_code q_AppendGameEvent_def append_error_def split: sum.split)

text \<open>\<open>AppendEvents\<close> opens a transaction of its own on the pool and commits it, also when it is
  called inside \<open>WithTx\<close>: the rows are committed at once, and the open transaction, at the
  isolation level READ COMMITTED, sees them from then on.\<close>

definition pg_AppendEvents ::
  "(string \<Rightarrow> uuid option) \<Rightarrow> GameEvent list \<Rightarrow> Db \<Rightarrow> go_err option \<times> Db" where
  "pg_AppendEvents parse evts s =
     (if down ''Begin'' s then (Some (Wrap ''begin tx: '' db_error), s)
      else case params_of parse evts of
        Inl e \<Rightarrow> (Some e, s)
      | Inr rs \<Rightarrow>
          if down ''AppendGameEvents'' s
          then (Some (Wrap ''bulk insert game_events: '' db_error), s)
          else (case copy_events rs (committed s) of
                  Inl e \<Rightarrow> (Some (append_error ''bulk insert game_events: '' e), s)
                | Inr t \<Rightarrow>
                    if down ''Commit'' s then (Some db_error, s)
                    else (None, s\<lparr>committed := t,
                      open_tx := map_option (\<lambda>v. v\<lparr>game_events := game_events v @ rs\<rparr>)
                        (open_tx s)\<rparr>)))"

text \<open>\<open>WHERE game_id = $1 AND sequence >= $2 ORDER BY sequence ASC LIMIT $3\<close>\<close>

definition rows_of_game :: "uuid \<Rightarrow> Db \<Rightarrow> event_row list" where
  "rows_of_game g s =
     sort_key er_sequence (filter (\<lambda>r. er_game_id r = g) (game_events (tables s)))"

definition q_GetEventsForGame :: "uuid \<Rightarrow> int \<Rightarrow> nat \<Rightarrow> Db \<Rightarrow> pg_err + event_row list" where
  "q_GetEventsForGame g fromSequence lim s =
     (if down ''GetEventsForGame'' s then Inl DbError
      else Inr (take lim (filter (\<lambda>r. er_sequence r \<ge> fromSequence) (rows_of_game g s))))"

text \<open>\<open>unmarshalEventRows\<close> is the \<open>map\<close> over the envelopes.\<close>

definition pg_GetEventsForGame ::
  "uuid \<Rightarrow> nat \<Rightarrow> nat \<Rightarrow> Db \<Rightarrow> go_err + GameEvent list" where
  pg_GetEventsForGame_code: "pg_GetEventsForGame g fromSequence lim s =
     (case q_GetEventsForGame g (wrap64 (int fromSequence)) lim s of
        Inl e \<Rightarrow> Inl (Wrap ''get events: '' db_error)
      | Inr rows \<Rightarrow> Inr (map er_envelope rows))"

lemma pg_GetEventsForGame_def: "pg_GetEventsForGame g fromSequence lim s =
     (if down ''GetEventsForGame'' s then Inl (Wrap ''get events: '' db_error)
      else Inr (map er_envelope (take lim
        (filter (\<lambda>r. er_sequence r \<ge> wrap64 (int fromSequence)) (rows_of_game g s)))))"
  by (simp add: pg_GetEventsForGame_code q_GetEventsForGame_def)

text \<open>\<open>WHERE hand_id = $1 ORDER BY sequence ASC\<close>\<close>

definition q_GetEventsForHand :: "uuid \<Rightarrow> Db \<Rightarrow> pg_err + event_row list" where
  "q_GetEventsForHand hid s =
     (if down ''GetEventsForHand'' s then Inl DbError
      else Inr (sort_key er_sequence (filter (\<lambda>r. er_hand_id r = Some hid) (game_events (tables s)))))"

text \<open>The conversion \<open>uint64(x)\<close> of an \<open>int64\<close>.\<close>

definition to_uint64 :: "int \<Rightarrow> nat" where
  "to_uint64 x = nat (x mod 18446744073709551616)"

text \<open>\<open>SELECT COALESCE(MAX(sequence), 0)\<close>\<close>

definition q_GetLatestSequence :: "uuid \<Rightarrow> Db \<Rightarrow> pg_err + int" where
  "q_GetLatestSequence g s =
     (if down ''GetLatestSequence'' s then Inl DbError
      else Inr (fold max (map er_sequence (filter (\<lambda>r. er_game_id r = g) (game_events (tables s)))) 0))"

definition pg_GetLatestSequence :: "uuid \<Rightarrow> Db \<Rightarrow> go_err + nat" where
  pg_GetLatestSequence_code: "pg_GetLatestSequence g s =
     (case q_GetLatestSequence g s of
        Inl e \<Rightarrow> Inl (Wrap ''get latest sequence: '' db_error)
      | Inr sq \<Rightarrow> Inr (to_uint64 sq))"

lemma pg_GetLatestSequence_def: "pg_GetLatestSequence g s =
     (if down ''GetLatestSequence'' s then Inl (Wrap ''get latest sequence: '' db_error)
      else Inr (to_uint64 (fold max (map er_sequence
        (filter (\<lambda>r. er_game_id r = g) (game_events (tables s)))) 0)))"
  by (simp add: pg_GetLatestSequence_code q_GetLatestSequence_def)

definition first_row :: "string \<Rightarrow> 'a list \<Rightarrow> Db \<Rightarrow> pg_err + 'a" where
  \<comment> \<open>\<open>QueryRow(\<dots>).Scan(\<dots>)\<close> of a \<open>SELECT \<dots> LIMIT 1\<close>\<close>
  "first_row q rows s =
     (if down q s then Inl DbError else case rows of [] \<Rightarrow> Inl ErrNoRows | r # _ \<Rightarrow> Inr r)"

definition q_FindEventByCommandID :: "uuid \<Rightarrow> uuid \<Rightarrow> Db \<Rightarrow> pg_err + event_row" where
  "q_FindEventByCommandID cmd g s =
     first_row ''FindEventByCommandID'' (filter (\<lambda>r. er_command_id r = Some cmd) (rows_of_game g s)) s"

definition pg_FindEventByCommandID :: "uuid \<Rightarrow> uuid \<Rightarrow> Db \<Rightarrow> go_err + GameEvent" where
  pg_FindEventByCommandID_code: "pg_FindEventByCommandID cmd g s =
     (case q_FindEventByCommandID cmd g s of
        Inl e \<Rightarrow> Inl (read_error ''find event by command: '' e)
      | Inr r \<Rightarrow> Inr (er_envelope r))"

lemma pg_FindEventByCommandID_def: "pg_FindEventByCommandID cmd g s =
     (if down ''FindEventByCommandID'' s then Inl (Wrap ''find event by command: '' db_error)
      else case filter (\<lambda>r. er_command_id r = Some cmd) (rows_of_game g s) of
             [] \<Rightarrow> Inl ErrNotFound
           | r # _ \<Rightarrow> Inr (er_envelope r))"
  by (simp add: pg_FindEventByCommandID_code q_FindEventByCommandID_def first_row_def read_error_def
      split: list.split)

text \<open>\<open>WHERE caused_by_command_id = $1 ORDER BY sequence ASC LIMIT 1\<close>, over all games.\<close>

definition q_FindEventByCommandIDGlobal :: "uuid \<Rightarrow> Db \<Rightarrow> pg_err + event_row" where
  "q_FindEventByCommandIDGlobal cmd s =
     first_row ''FindEventByCommandIDGlobal''
       (sort_key er_sequence (filter (\<lambda>r. er_command_id r = Some cmd) (game_events (tables s)))) s"

definition pg_FindEventByCommandIDGlobal :: "uuid \<Rightarrow> Db \<Rightarrow> go_err + GameEvent" where
  "pg_FindEventByCommandIDGlobal cmd s =
     (case q_FindEventByCommandIDGlobal cmd s of
        Inl e \<Rightarrow> Inl (read_error ''find event by command (global): '' e)
      | Inr r \<Rightarrow> Inr (er_envelope r))"

section \<open>Snapshots\<close>

definition q_CreateSnapshot :: "snapshot_row \<Rightarrow> Db \<Rightarrow> (pg_err + snapshot_row) \<times> Db" where
  "q_CreateSnapshot r s =
     (if down ''CreateSnapshot'' s then (Inl DbError, s)
      else if \<exists>q \<in> set (game_snapshots (tables s)). sr_game_id q = sr_game_id r \<and> sr_sequence q = sr_sequence r
      then (Inl UniqueViolation, s)
      else (Inr r, upd_tables (\<lambda>t. t\<lparr>game_snapshots := game_snapshots t @ [r]\<rparr>) s))"

definition pg_CreateSnapshot ::
  "(string \<Rightarrow> uuid option) \<Rightarrow> GameState \<Rightarrow> int \<Rightarrow> Db \<Rightarrow> go_err option \<times> Db" where
  "pg_CreateSnapshot parse st handNumber s =
     (case parse (GameId st) of
        None \<Rightarrow> (Some (NewError ''parse game_id''), s)
      | Some g \<Rightarrow>
          (case q_CreateSnapshot \<lparr>sr_game_id = g, sr_sequence = Version st, sr_hand_number = handNumber,
                  sr_state = st\<rparr> s of
             (Inl e, s1) \<Rightarrow> (Some (Wrap ''insert snapshot: '' db_error), s1)
           | (Inr row, s1) \<Rightarrow> (None, s1)))"

text \<open>\<open>ORDER BY sequence DESC LIMIT 1\<close>\<close>

definition q_GetLatestSnapshot :: "uuid \<Rightarrow> Db \<Rightarrow> pg_err + snapshot_row" where
  "q_GetLatestSnapshot g s =
     first_row ''GetLatestSnapshot''
       (rev (sort_key sr_sequence (filter (\<lambda>r. sr_game_id r = g) (game_snapshots (tables s))))) s"

definition q_GetSnapshotAtOrBefore :: "uuid \<Rightarrow> int \<Rightarrow> Db \<Rightarrow> pg_err + snapshot_row" where
  "q_GetSnapshotAtOrBefore g sq s =
     first_row ''GetSnapshotAtOrBefore''
       (rev (sort_key sr_sequence (filter (\<lambda>r. sr_game_id r = g \<and> sr_sequence r \<le> sq)
          (game_snapshots (tables s))))) s"

definition unmarshalSnapshot :: "snapshot_row \<Rightarrow> GameState \<times> nat" where
  "unmarshalSnapshot r = (sr_state r, to_uint64 (sr_sequence r))"

definition pg_GetLatestSnapshot :: "uuid \<Rightarrow> Db \<Rightarrow> go_err + (GameState \<times> nat)" where
  pg_GetLatestSnapshot_code: "pg_GetLatestSnapshot g s =
     (case q_GetLatestSnapshot g s of
        Inl e \<Rightarrow> Inl (read_error ''get latest snapshot: '' e)
      | Inr r \<Rightarrow> Inr (unmarshalSnapshot r))"

lemma pg_GetLatestSnapshot_def: "pg_GetLatestSnapshot g s =
     (if down ''GetLatestSnapshot'' s then Inl (Wrap ''get latest snapshot: '' db_error)
      else case rev (sort_key sr_sequence
             (filter (\<lambda>r. sr_game_id r = g) (game_snapshots (tables s)))) of
             [] \<Rightarrow> Inl ErrNotFound
           | r # _ \<Rightarrow> Inr (sr_state r, to_uint64 (sr_sequence r)))"
  by (simp add: pg_GetLatestSnapshot_code q_GetLatestSnapshot_def first_row_def read_error_def
      unmarshalSnapshot_def split: list.split)

definition pg_GetSnapshotAtOrBefore :: "uuid \<Rightarrow> nat \<Rightarrow> Db \<Rightarrow> go_err + (GameState \<times> nat)" where
  "pg_GetSnapshotAtOrBefore g sq s =
     (case q_GetSnapshotAtOrBefore g (wrap64 (int sq)) s of
        Inl e \<Rightarrow> Inl (read_error ''get snapshot at/before: '' e)
      | Inr r \<Rightarrow> Inr (unmarshalSnapshot r))"

text \<open>\<open>DELETE \<dots> WHERE game_id = $1 AND sequence < $2\<close>, for pruning.\<close>

definition q_DeleteSnapshotsBefore :: "uuid \<Rightarrow> int \<Rightarrow> Db \<Rightarrow> pg_err option \<times> Db" where
  "q_DeleteSnapshotsBefore g sq s =
     (if down ''DeleteSnapshotsBefore'' s then (Some DbError, s)
      else (None, upd_tables (\<lambda>t. t\<lparr>game_snapshots :=
        filter (\<lambda>r. \<not> (sr_game_id r = g \<and> sr_sequence r < sq)) (game_snapshots t)\<rparr>) s))"

section \<open>Balances\<close>

text \<open>An \<open>UPDATE \<dots> RETURNING *\<close> of one row of \<open>user_snapshots\<close>: Postgres refuses a result that
  does not fit a \<open>BIGINT\<close> or violates \<open>CHECK (chip_balance >= 0)\<close>.\<close>

definition set_balance ::
  "uuid \<Rightarrow> UserSnapshot \<Rightarrow> int \<Rightarrow> Db \<Rightarrow> (go_err + UserSnapshot) \<times> Db" where
  "set_balance u snap b s =
     (let snap' = snap\<lparr>us_ChipBalance := b, us_LastActivityAt := db_now s\<rparr>
      in (Inr snap', upd_tables (\<lambda>t. t\<lparr>user_snapshots := AList.update u snap' (user_snapshots t)\<rparr>) s))"

definition pg_DebitUserBalance :: "uuid \<Rightarrow> int \<Rightarrow> Db \<Rightarrow> (go_err + UserSnapshot) \<times> Db" where
  "pg_DebitUserBalance u amount s =
     (if down ''DebitUserBalance'' s then (Inl (Wrap ''debit user balance: '' db_error), s)
      else case map_of (user_snapshots (tables s)) u of
             None \<Rightarrow> (Inl ErrInsufficientBalance, s)
           | Some snap \<Rightarrow>
               if us_ChipBalance snap < amount then (Inl ErrInsufficientBalance, s)
               else
                 let b = us_ChipBalance snap - amount
                 in if b < 0 \<or> \<not> in64 b then (Inl (Wrap ''debit user balance: '' db_error), s)
                    else set_balance u snap b s)"

definition pg_CreditUserBalance :: "uuid \<Rightarrow> int \<Rightarrow> Db \<Rightarrow> (go_err + UserSnapshot) \<times> Db" where
  "pg_CreditUserBalance u amount s =
     (if down ''CreditUserBalance'' s then (Inl (Wrap ''credit user balance: '' db_error), s)
      else case map_of (user_snapshots (tables s)) u of
             None \<Rightarrow> (Inl ErrNotFound, s)
           | Some snap \<Rightarrow>
               let b = us_ChipBalance snap + amount
               in if b < 0 \<or> \<not> in64 b then (Inl (Wrap ''credit user balance: '' db_error), s)
                  else set_balance u snap b s)"

definition pg_GetUserSnapshot :: "uuid \<Rightarrow> Db \<Rightarrow> go_err + UserSnapshot" where
  "pg_GetUserSnapshot u s =
     (if down ''GetUserSnapshot'' s then Inl (Wrap ''get user snapshot: '' db_error)
      else case map_of (user_snapshots (tables s)) u of
             None \<Rightarrow> Inl ErrNotFound
           | Some snap \<Rightarrow> Inr snap)"

section \<open>Configurations, transactions, tables\<close>

text \<open>The identifier that \<open>DEFAULT gen_random_uuid()\<close> gives the new row is part of the row here; \<open>int16(x)\<close>
  of an \<open>int32\<close> keeps the low 16 bits.\<close>

definition to_int16 :: "int \<Rightarrow> int" where
  "to_int16 x = (x + 32768) mod 65536 - 32768"

definition q_CreateGameConfig :: "config_row \<Rightarrow> Db \<Rightarrow> (pg_err + config_row) \<times> Db" where
  "q_CreateGameConfig r s =
     (if down ''CreateGameConfig'' s then (Inl DbError, s)
      else if \<exists>q \<in> set (game_configs (tables s)). cr_game_id q = cr_game_id r then (Inl UniqueViolation, s)
      else (Inr r, upd_tables (\<lambda>t. t\<lparr>game_configs := game_configs t @ [r]\<rparr>) s))"

definition config_columns :: "uuid \<Rightarrow> timestamp \<Rightarrow> CashGameConfig option \<Rightarrow> config_row" where
  "config_columns gid now cfg =
     \<lparr>cr_game_id = gid, cr_table_name = get_cfg TableName [] cfg,
      cr_variant = get_cfg Variant GAME_VARIANT_UNSPECIFIED cfg,
      cr_structure = get_cfg Structure BETTING_STRUCTURE_UNSPECIFIED cfg,
      cr_currency = get_cfg Currency [] cfg, cr_small_blind = get_cfg SmallBlind 0 cfg,
      cr_big_blind = get_cfg BigBlind 0 cfg, cr_min_buy_in = get_cfg MinBuyIn 0 cfg,
      cr_max_buy_in = get_cfg MaxBuyIn 0 cfg, cr_max_seats = to_int16 (get_cfg MaxSeats 0 cfg),
      cr_is_private = get_cfg IsPrivate False cfg, cr_config = cfg, cr_created_at = now,
      cr_deleted = False\<rparr>"

definition pg_CreateGameConfig ::
  "uuid \<Rightarrow> CashGameConfig option \<Rightarrow> Db \<Rightarrow> (go_err + uuid) \<times> Db" where
  "pg_CreateGameConfig gid cfg s =
     (case q_CreateGameConfig (config_columns gid (db_now s) cfg) s of
        (Inl e, s1) \<Rightarrow> (Inl (Wrap ''insert game_config: '' db_error), s1)
      | (Inr row, s1) \<Rightarrow> (Inr (cr_game_id row), s1))"

definition q_GetGameConfig :: "uuid \<Rightarrow> Db \<Rightarrow> pg_err + config_row" where
  "q_GetGameConfig gid s =
     q_find ''GetGameConfig'' (\<lambda>r. cr_game_id r = gid \<and> \<not> cr_deleted r) (game_configs (tables s)) s"

definition pg_GetGameConfig :: "uuid \<Rightarrow> Db \<Rightarrow> go_err + CashGameConfig option" where
  "pg_GetGameConfig gid s =
     (case q_GetGameConfig gid s of
        Inl e \<Rightarrow> Inl (read_error ''get game_config: '' e)
      | Inr r \<Rightarrow> Inr (cr_config r))"

definition q_SoftDeleteGameConfig :: "uuid \<Rightarrow> Db \<Rightarrow> pg_err option \<times> Db" where
  "q_SoftDeleteGameConfig gid s =
     (if down ''SoftDeleteGameConfig'' s then (Some DbError, s)
      else (None, upd_tables (\<lambda>t. t\<lparr>game_configs := map (\<lambda>r.
             if cr_game_id r = gid then r\<lparr>cr_deleted := True\<rparr> else r) (game_configs t)\<rparr>) s))"

definition pg_SoftDeleteGameConfig :: "uuid \<Rightarrow> Db \<Rightarrow> go_err option \<times> Db" where
  "pg_SoftDeleteGameConfig gid s =
     (case q_SoftDeleteGameConfig gid s of
        (Some e, s1) \<Rightarrow> (Some (Wrap ''soft-delete game_config: '' db_error), s1)
      | (None, s1) \<Rightarrow> (None, s1))"

definition pg_Begin :: "Db \<Rightarrow> go_err option \<times> Db" where
  "pg_Begin s =
     (if down ''Begin'' s then (Some db_error, s)
      else (None, s\<lparr>open_tx := Some (committed s)\<rparr>))"

definition pg_Commit :: "Db \<Rightarrow> go_err option \<times> Db" where
  "pg_Commit s =
     (if down ''Commit'' s then (Some db_error, s)
      else (None, s\<lparr>committed := tables s, open_tx := None\<rparr>))"

definition pg_Rollback :: "Db \<Rightarrow> Db" where
  "pg_Rollback s = s\<lparr>open_tx := None\<rparr>"

definition pgStore :: "(string \<Rightarrow> uuid option) \<Rightarrow> Db Store" where
  "pgStore parse =
     \<lparr>Begin = pg_Begin, Commit = pg_Commit, Rollback = pg_Rollback,
      CreateGameConfig = pg_CreateGameConfig,
      AppendEvent = pg_AppendEvent parse, AppendEvents = pg_AppendEvents parse,
      GetEventsForGame = pg_GetEventsForGame, GetLatestSequence = pg_GetLatestSequence,
      FindEventByCommandID = pg_FindEventByCommandID,
      FindEventByCommandIDGlobal = pg_FindEventByCommandIDGlobal,
      CreateSnapshot = pg_CreateSnapshot parse, GetLatestSnapshot = pg_GetLatestSnapshot,
      DebitUserBalance = pg_DebitUserBalance, CreditUserBalance = pg_CreditUserBalance,
      GetUserSnapshot = pg_GetUserSnapshot\<rparr>"

text \<open>\<open>CreateTable\<close>: configuration, first event and first snapshot in one transaction.\<close>

definition initial_state :: "uuid \<Rightarrow> CashGameConfig option \<Rightarrow> GameState" where
  "initial_state gid cfg =
     \<lparr>GameId = gid, Status = GAME_STATUS_WAITING, Version = 1, Config = cfg, DealerSeat = -1,
      HandNumber = 0, CurrentHand = None, Players = [], PlayerUserIds = [], ReservedSeats = [],
      WaitingList = []\<rparr>"

definition CreateTable ::
  "'s Store \<Rightarrow> uuid \<Rightarrow> timestamp \<Rightarrow> CashGameConfig option \<Rightarrow> uuid \<Rightarrow> 's
     \<Rightarrow> ((go_err + GameState) \<times> 's) option" where
  "CreateTable S fresh now cfg commandID s =
     WithTx S (\<lambda>s1. Some (
       case CreateGameConfig S fresh cfg s1 of
         (Inl e, s2) \<Rightarrow> (Inl e, s2)
       | (Inr gid, s2) \<Rightarrow>
           let state = initial_state gid cfg;
               evt = \<lparr>evt_GameId = gid, evt_Sequence = 1, evt_OccurredAt = Some now,
                      evt_CausedByCommandId = (if commandID \<noteq> uuid_Nil then commandID else []),
                      evt_StateVersion = 1, evt_Event = Some (EvTableCreated cfg)\<rparr>
           in case AppendEvent S evt s2 of
                (Some e, s3) \<Rightarrow> (Inl e, s3)
              | (None, s3) \<Rightarrow>
                  (case CreateSnapshot S state 0 s3 of
                     (Some e, s4) \<Rightarrow> (Inl e, s4)
                   | (None, s4) \<Rightarrow> (Inr state, s4)))) s"

section \<open>Views of the tables\<close>

definition pg_balance :: "Db \<Rightarrow> uuid \<Rightarrow> int option" where
  "pg_balance s u = map_option us_ChipBalance (map_of (user_snapshots (tables s)) u)"

definition pg_idle :: "Db \<Rightarrow> bool" where
  "pg_idle s \<longleftrightarrow> open_tx s = None"

definition tx_view :: "Db \<Rightarrow> Db" where
  \<comment> \<open>the state in which the function given to \<open>WithTx\<close> starts\<close>
  "tx_view s = s\<lparr>open_tx := Some (committed s)\<rparr>"

lemma tables_upd [simp]: "tables (upd_tables f s) = f (tables s)"
  by (simp add: tables_def upd_tables_def split: option.splits)

section \<open>Statements that nothing calls yet\<close>

text \<open>Pruning up to the latest snapshot does not lose it.\<close>

lemma prune_keeps_latest:
  assumes "pg_GetLatestSnapshot g s = Inr (st, n)" and "q_DeleteSnapshotsBefore g sq s = (None, s')"
    and "\<exists>r \<in> set (game_snapshots (tables s)). sr_game_id r = g \<and> sq \<le> sr_sequence r"
  shows "pg_GetLatestSnapshot g s' = Inr (st, n)"
proof -
  let ?rows = "sort_key sr_sequence (filter (\<lambda>r. sr_game_id r = g) (game_snapshots (tables s)))"
  let ?P = "\<lambda>r. sq \<le> sr_sequence r"
  have s': "s' = upd_tables (\<lambda>t. t\<lparr>game_snapshots :=
        filter (\<lambda>r. \<not> (sr_game_id r = g \<and> sr_sequence r < sq)) (game_snapshots t)\<rparr>) s"
    using assms(2) by (auto simp: q_DeleteSnapshotsBefore_def split: if_splits)
  obtain r where r: "r \<in> set ?rows" "?P r" using assms(3) by auto
  then obtain zs z where z: "?rows = zs @ [z]" by (cases ?rows rule: rev_cases) auto
  have "sorted (map sr_sequence ?rows)" by simp
  then have "sr_sequence r \<le> sr_sequence z" using r(1) unfolding z by (auto simp: sorted_append)
  then have "filter ?P ?rows = filter ?P zs @ [z]" using r(2) by (simp add: z)
  moreover have "sort_key sr_sequence (filter (\<lambda>r. sr_game_id r = g) (game_snapshots (tables s'))) = filter ?P ?rows"
    by (simp add: s' filter_sort conj_commute cong: conj_cong) (metis (mono_tags, lifting) filter_cong not_less)
  moreover have "down q s' = down q s" for q
    by (simp add: s' down_def upd_tables_def split: option.split)
  ultimately show ?thesis using assms(1) z by (simp add: pg_GetLatestSnapshot_def split: if_splits)
qed

text \<open>The query for a hand finds only its start: \<^const>\<open>extractHandID\<close> gives no other event a hand.\<close>

lemma hand_query_finds_start_only:
  assumes "\<forall>r \<in> set (game_events (tables s)). er_hand_id r = extractHandID parse (er_envelope r)"
    and "q_GetEventsForHand hid s = Inr rows" and "r \<in> set rows"
  shows "\<exists>h n d sb bb s b. evt_Event (er_envelope r) = Some (EvHandStarted h n d sb bb s b) \<and> parse h = Some hid"
proof -
  have "er_hand_id r = Some hid" "er_hand_id r = extractHandID parse (er_envelope r)"
    using assms by (auto simp: q_GetEventsForHand_def split: if_splits)
  then show ?thesis by (auto simp: extractHandID_def split: option.splits EventPayload.splits)
qed

end
