(* ===== verification/Utf8.thy ===== *)
theory Utf8
  imports PokerPrelude
begin

text \<open>
  What the validators use of Go's \<open>unicode/utf8\<close> and \<open>strings\<close>. A Go string is a sequence
  of bytes, a \<^typ>\<open>string\<close> here, of which a \<^typ>\<open>char\<close> is one byte. Decoding follows the
  standard library: a byte that starts no well-formed sequence (overlong forms, surrogates
  and values above U+10FFFF included) is the replacement rune with a width of one.
\<close>

definition RuneError :: nat where "RuneError = 65533"

definition cont_byte :: "nat \<Rightarrow> bool" where
  "cont_byte b \<longleftrightarrow> 128 \<le> b \<and> b < 192"

text \<open>The bounds of the second byte that rule out the ill-formed three and four byte forms.\<close>

definition second_ok :: "nat \<Rightarrow> nat \<Rightarrow> bool" where
  "second_ok b0 b1 \<longleftrightarrow>
     (if b0 = 224 then 160 else if b0 = 240 then 144 else 128) \<le> b1
     \<and> b1 < (if b0 = 237 then 160 else if b0 = 244 then 144 else 192)"

definition decode_rune :: "nat list \<Rightarrow> nat \<times> nat" where
  "decode_rune bs =
     (case bs of
        [] \<Rightarrow> (RuneError, 0)
      | b0 # r \<Rightarrow>
          if b0 < 128 then (b0, 1)
          else if 194 \<le> b0 \<and> b0 < 224 then
            (case r of
               b1 # _ \<Rightarrow> if cont_byte b1 then ((b0 - 192) * 64 + (b1 - 128), 2) else (RuneError, 1)
             | _ \<Rightarrow> (RuneError, 1))
          else if 224 \<le> b0 \<and> b0 < 240 then
            (case r of
               b1 # b2 # _ \<Rightarrow>
                 if second_ok b0 b1 \<and> cont_byte b2
                 then ((b0 - 224) * 4096 + (b1 - 128) * 64 + (b2 - 128), 3) else (RuneError, 1)
             | _ \<Rightarrow> (RuneError, 1))
          else if 240 \<le> b0 \<and> b0 < 245 then
            (case r of
               b1 # b2 # b3 # _ \<Rightarrow>
                 if second_ok b0 b1 \<and> cont_byte b2 \<and> cont_byte b3
                 then ((b0 - 240) * 262144 + (b1 - 128) * 4096 + (b2 - 128) * 64 + (b3 - 128), 4)
                 else (RuneError, 1)
             | _ \<Rightarrow> (RuneError, 1))
          else (RuneError, 1))"

text \<open>\<open>for _, r := range s\<close>: the runes with the bytes they come from.\<close>

function runes :: "string \<Rightarrow> (nat \<times> string) list" where
  "runes [] = []"
| "runes (c # cs) =
     (case decode_rune (map of_char (take 4 (c # cs))) of
        (r, n) \<Rightarrow> (r, take n (c # cs)) # runes (drop (n - 1) cs))"
  by pat_completeness auto
termination by (relation "measure length") auto

definition RuneCountInString :: "string \<Rightarrow> nat" where
  "RuneCountInString s = length (runes s)"

text \<open>\<open>unicode.IsSpace\<close>.\<close>

definition IsSpace :: "nat \<Rightarrow> bool" where
  "IsSpace r \<longleftrightarrow> (9 \<le> r \<and> r \<le> 13) \<or> r = 32 \<or> r = 133 \<or> r = 160 \<or> r = 5760
     \<or> (8192 \<le> r \<and> r \<le> 8202) \<or> r = 8232 \<or> r = 8233 \<or> r = 8239 \<or> r = 8287 \<or> r = 12288"

definition TrimSpace :: "string \<Rightarrow> string" where
  "TrimSpace s =
     concat (map snd (rev (dropWhile (\<lambda>x. IsSpace (fst x))
       (rev (dropWhile (\<lambda>x. IsSpace (fst x)) (runes s))))))"

section \<open>Facts\<close>

lemma decode_width: "bs \<noteq> [] \<Longrightarrow> decode_rune bs = (r, n) \<Longrightarrow> 1 \<le> n \<and> n \<le> 4 \<and> n \<le> length bs"
  by (auto simp: decode_rune_def split: list.splits if_splits)

text \<open>Decoding loses no byte.\<close>

lemma concat_runes: "concat (map snd (runes s)) = s"
proof (induction s rule: runes.induct)
  case (2 c cs)
  obtain r n where rn: "decode_rune (map of_char (take 4 (c # cs))) = (r, n)" by fastforce
  then have "1 \<le> n" using decode_width by fastforce
  then have "take n (c # cs) @ drop (n - 1) cs = c # cs" by (cases n) simp_all
  with 2 [OF rn [symmetric]] show ?case by (simp only: runes.simps rn) simp
qed simp

lemma runes_nonempty: "x \<in> set (runes s) \<Longrightarrow> snd x \<noteq> []"
proof (induction s rule: runes.induct)
  case (2 c cs)
  obtain r n where rn: "decode_rune (map of_char (take 4 (c # cs))) = (r, n)" by fastforce
  then have n: "1 \<le> n" using decode_width by fastforce
  have "x = (r, take n (c # cs)) \<or> x \<in> set (runes (drop (n - 1) cs))"
    using 2(2) by (simp only: runes.simps rn) simp
  then show ?case using 2(1) [OF rn [symmetric]] n by (cases n) auto
qed simp

lemma TrimSpace_empty_iff: "TrimSpace s = [] \<longleftrightarrow> (\<forall>x \<in> set (runes s). IsSpace (fst x))"
proof
  assume *: "TrimSpace s = []"
  let ?d = "dropWhile (\<lambda>x. IsSpace (fst x)) (runes s)"
  have "\<forall>x \<in> set ?d. IsSpace (fst x)"
  proof (rule ccontr)
    assume "\<not> (\<forall>x \<in> set ?d. IsSpace (fst x))"
    then have "dropWhile (\<lambda>x. IsSpace (fst x)) (rev ?d) \<noteq> []" by (auto simp: dropWhile_eq_Nil_conv)
    then obtain y where y: "y \<in> set (dropWhile (\<lambda>x. IsSpace (fst x)) (rev ?d))"
      by (meson list.set_sel(1))
    then have "y \<in> set (runes s)" by (metis set_dropWhileD set_rev)
    then have "snd y \<noteq> []" by (rule runes_nonempty)
    with * y show False by (auto simp: TrimSpace_def)
  qed
  then show "\<forall>x \<in> set (runes s). IsSpace (fst x)"
    by (metis (no_types, lifting) set_takeWhileD takeWhile_dropWhile_id Un_iff set_append)
next
  assume "\<forall>x \<in> set (runes s). IsSpace (fst x)"
  then have "dropWhile (\<lambda>x. IsSpace (fst x)) (runes s) = []" by (simp only: dropWhile_eq_Nil_conv)
  then show "TrimSpace s = []" unfolding TrimSpace_def by (simp only: rev.simps dropWhile.simps list.map concat.simps)
qed

lemma RuneCount_le: "RuneCountInString s \<le> length s"
proof -
  have *: "(\<And>x. x \<in> set rs \<Longrightarrow> snd x \<noteq> []) \<Longrightarrow> length rs \<le> length (concat (map snd rs))"
    for rs :: "(nat \<times> string) list"
  proof (induction rs)
    case (Cons x rs)
    then have "snd x \<noteq> []" "length rs \<le> length (concat (map snd rs))" by simp_all
    then show ?case by (cases "snd x") simp_all
  qed simp
  show ?thesis using * [of "runes s"] runes_nonempty [of _ s] by (simp add: RuneCountInString_def concat_runes)
qed

end
