(* ===== verification/Users.thy ===== *)
theory Users
  imports Store Utf8
begin

text \<open>
  \<open>src/internal/store/users.go\<close>: users, their balances and the chips they earn by walking. The
  statements are those of \<open>src/db/queries\<close> as \<open>src/internal/store/pgstore\<close> runs them, one
  definition \<open>q_\<dots>\<close> for each, on the tables of the store; a method of the store is a sequence of
  them. \<open>uuid.NewV7\<close> of the third-party package is the argument \<open>newID\<close>.
\<close>

section \<open>Statements\<close>

definition q_GetUser :: "uuid \<Rightarrow> Db \<Rightarrow> pg_err + user_row" where
  "q_GetUser u s = q_find ''GetUser'' (\<lambda>r. ur_id r = u \<and> \<not> ur_deleted r) (users (tables s)) s"

definition q_GetUserByExternalID :: "string \<Rightarrow> Db \<Rightarrow> pg_err + user_row" where
  "q_GetUserByExternalID x s =
     q_find ''GetUserByExternalID'' (\<lambda>r. ur_external_id r = Some x \<and> \<not> ur_deleted r) (users (tables s)) s"

definition q_GetUserSnapshot :: "uuid \<Rightarrow> Db \<Rightarrow> pg_err + UserSnapshot" where
  "q_GetUserSnapshot u s =
     (if down ''GetUserSnapshot'' s then Inl DbError
      else case map_of (user_snapshots (tables s)) u of None \<Rightarrow> Inl ErrNoRows | Some r \<Rightarrow> Inr r)"

text \<open>The constraints of \<open>users\<close>: the length of the name in characters, a cap that is not negative.\<close>

definition user_check :: "string \<Rightarrow> int \<Rightarrow> bool" where
  "user_check name cap \<longleftrightarrow> 1 \<le> RuneCountInString name \<and> RuneCountInString name \<le> 50 \<and> 0 \<le> cap"

definition nullif_empty :: "string \<Rightarrow> string option" where
  "nullif_empty x = (if x = [] then None else Some x)"

definition q_CreateUser ::
  "uuid \<Rightarrow> string \<Rightarrow> string \<Rightarrow> string \<Rightarrow> int \<Rightarrow> Db \<Rightarrow> (pg_err + user_row) \<times> Db" where
  "q_CreateUser u name ext tz cap s =
     (let r = \<lparr>ur_id = u, ur_display_name = name, ur_external_id = nullif_empty ext,
               ur_timezone = (if tz = [] then ''UTC'' else tz), ur_max_daily_deposit = cap,
               ur_created_at = db_now s, ur_deleted = False\<rparr>
      in if down ''CreateUser'' s \<or> \<not> user_check name cap then (Inl DbError, s)
         else if \<exists>q \<in> set (users (tables s)). ur_id q = u \<or> ext \<noteq> [] \<and> ur_external_id q = Some ext
         then (Inl UniqueViolation, s)
         else (Inr r, upd_tables (\<lambda>t. t\<lparr>users := users t @ [r]\<rparr>) s))"

definition q_CreateUserSnapshot :: "uuid \<Rightarrow> Db \<Rightarrow> (pg_err + UserSnapshot) \<times> Db" where
  "q_CreateUserSnapshot u s =
     (let r = \<lparr>us_UserID = u, us_ChipBalance = 0, us_TotalDeposited = 0, us_TotalReports = 0,
               us_LastDepositAt = None, us_LastActivityAt = db_now s\<rparr>
      in if down ''CreateUserSnapshot'' s then (Inl DbError, s)
         else if map_of (user_snapshots (tables s)) u \<noteq> None then (Inl UniqueViolation, s)
         else (Inr r, upd_tables (\<lambda>t. t\<lparr>user_snapshots := user_snapshots t @ [(u, r)]\<rparr>) s))"

definition q_UpdateUserSettings ::
  "uuid \<Rightarrow> string \<Rightarrow> string \<Rightarrow> int \<Rightarrow> Db \<Rightarrow> (pg_err + user_row) \<times> Db" where
  "q_UpdateUserSettings u name tz cap s =
     (case q_find ''UpdateUserSettings'' (\<lambda>r. ur_id r = u \<and> \<not> ur_deleted r) (users (tables s)) s of
        Inl e \<Rightarrow> (Inl e, s)
      | Inr r \<Rightarrow>
          let r' = r\<lparr>ur_display_name := (if name = [] then ur_display_name r else name),
                     ur_timezone := (if tz = [] then ur_timezone r else tz),
                     ur_max_daily_deposit := (if cap < 0 then ur_max_daily_deposit r else cap)\<rparr>
          in if \<not> user_check (ur_display_name r') (ur_max_daily_deposit r') then (Inl DbError, s)
             else (Inr r', upd_tables (\<lambda>t. t\<lparr>users := map (\<lambda>q. if ur_id q = u then r' else q) (users t)\<rparr>) s))"

definition q_FindDepositReportByReportID :: "uuid \<Rightarrow> uuid \<Rightarrow> Db \<Rightarrow> pg_err + report_row" where
  "q_FindDepositReportByReportID u rid s =
     q_find ''FindDepositReportByReportID'' (\<lambda>r. rr_user_id r = u \<and> rr_report_id r = rid)
       (step_deposit_reports (tables s)) s"

definition q_GetDailyStepsForUpdate :: "uuid \<Rightarrow> date \<Rightarrow> Db \<Rightarrow> pg_err + daily_row" where
  "q_GetDailyStepsForUpdate u d s =
     q_find ''GetDailyStepsForUpdate'' (\<lambda>r. dr_user_id r = u \<and> dr_local_date r = d)
       (user_daily_steps (tables s)) s"

definition known_user :: "uuid \<Rightarrow> Db \<Rightarrow> bool" where
  \<comment> \<open>\<open>REFERENCES users(id)\<close>\<close>
  "known_user u s \<longleftrightarrow> (\<exists>r \<in> set (users (tables s)). ur_id r = u)"

text \<open>\<open>INSERT \<dots> ON CONFLICT DO UPDATE SET max_steps = GREATEST(\<dots>)\<close>.\<close>

definition q_UpsertDailyStepsHighWaterMark ::
  "uuid \<Rightarrow> date \<Rightarrow> int \<Rightarrow> Db \<Rightarrow> (pg_err + daily_row) \<times> Db" where
  "q_UpsertDailyStepsHighWaterMark u d steps s =
     (let mine = (\<lambda>r. dr_user_id r = u \<and> dr_local_date r = d); rows = user_daily_steps (tables s)
      in if down ''UpsertDailyStepsHighWaterMark'' s \<or> steps < 0 then (Inl DbError, s)
         else case find mine rows of
           None \<Rightarrow>
             if \<not> known_user u s then (Inl DbError, s)
             else let r = \<lparr>dr_user_id = u, dr_local_date = d, dr_max_steps = steps,
                           dr_last_reported_at = db_now s\<rparr>
                  in (Inr r, upd_tables (\<lambda>t. t\<lparr>user_daily_steps := user_daily_steps t @ [r]\<rparr>) s)
         | Some r \<Rightarrow>
             let r' = r\<lparr>dr_max_steps := max (dr_max_steps r) steps,
                        dr_last_reported_at := (if steps > dr_max_steps r then db_now s
                                                else dr_last_reported_at r)\<rparr>
             in (Inr r', upd_tables (\<lambda>t. t\<lparr>user_daily_steps :=
                    map (\<lambda>q. if mine q then r' else q) (user_daily_steps t)\<rparr>) s))"

text \<open>\<open>INSERT \<dots> ON CONFLICT (user_id, report_id) DO NOTHING RETURNING *\<close>.\<close>

definition q_InsertDepositReport ::
  "uuid \<Rightarrow> uuid \<Rightarrow> int \<Rightarrow> int \<Rightarrow> date \<Rightarrow> string \<Rightarrow> Db \<Rightarrow> (pg_err + report_row) \<times> Db" where
  "q_InsertDepositReport u rid steps chips d reason s =
     (if down ''InsertDepositReport'' s \<or> chips < 0 \<or> \<not> known_user u s then (Inl DbError, s)
      else if \<exists>r \<in> set (step_deposit_reports (tables s)). rr_user_id r = u \<and> rr_report_id r = rid
      then (Inl ErrNoRows, s)
      else let r = \<lparr>rr_user_id = u, rr_report_id = rid, rr_reported_steps = steps, rr_credited_chips = chips,
                    rr_local_date = d, rr_reported_at = db_now s, rr_reason = reason\<rparr>
           in (Inr r, upd_tables (\<lambda>t. t\<lparr>step_deposit_reports := step_deposit_reports t @ [r]\<rparr>) s))"

definition day_credited :: "uuid \<Rightarrow> date \<Rightarrow> Tables \<Rightarrow> int" where
  "day_credited u d t = sum_list (map rr_credited_chips
     (filter (\<lambda>r. rr_user_id r = u \<and> rr_local_date r = d) (step_deposit_reports t)))"

definition q_SumCreditedToday :: "uuid \<Rightarrow> date \<Rightarrow> Db \<Rightarrow> pg_err + int" where
  "q_SumCreditedToday u d s =
     (let n = day_credited u d (tables s)
      in if down ''SumCreditedToday'' s \<or> \<not> in64 n then Inl DbError else Inr n)"

definition q_ApplyDepositToSnapshot :: "uuid \<Rightarrow> int \<Rightarrow> Db \<Rightarrow> (pg_err + UserSnapshot) \<times> Db" where
  "q_ApplyDepositToSnapshot u chips s =
     (if down ''ApplyDepositToSnapshot'' s then (Inl DbError, s)
      else case map_of (user_snapshots (tables s)) u of
             None \<Rightarrow> (Inl ErrNoRows, s)
           | Some r \<Rightarrow>
               let b = us_ChipBalance r + chips; tot = us_TotalDeposited r + chips;
                   r' = r\<lparr>us_ChipBalance := b, us_TotalDeposited := tot,
                          us_TotalReports := us_TotalReports r + 1,
                          us_LastDepositAt := (if chips > 0 then Some (db_now s) else us_LastDepositAt r),
                          us_LastActivityAt := db_now s\<rparr>
               in if b < 0 \<or> \<not> in64 b \<or> tot < 0 \<or> \<not> in64 tot \<or> \<not> in64 (us_TotalReports r + 1)
                  then (Inl DbError, s)
                  else (Inr r', upd_tables (\<lambda>t. t\<lparr>user_snapshots := AList.update u r' (user_snapshots t)\<rparr>) s))"

text \<open>\<open>ORDER BY reported_at DESC LIMIT $2 OFFSET $3\<close>\<close>

definition q_ListDepositReports :: "uuid \<Rightarrow> int \<Rightarrow> int \<Rightarrow> Db \<Rightarrow> pg_err + report_row list" where
  "q_ListDepositReports u lim off s =
     (if down ''ListDepositReports'' s \<or> lim < 0 \<or> off < 0 then Inl DbError
      else Inr (take (nat lim) (drop (nat off) (rev (sort_key rr_reported_at
             (filter (\<lambda>r. rr_user_id r = u) (step_deposit_reports (tables s))))))))"

definition q_CountDepositReports :: "uuid \<Rightarrow> Db \<Rightarrow> pg_err + int" where
  "q_CountDepositReports u s =
     (if down ''CountDepositReports'' s then Inl DbError
      else Inr (int (length (filter (\<lambda>r. rr_user_id r = u) (step_deposit_reports (tables s))))))"

section \<open>Methods of the store\<close>

definition StepsPerChip :: int where "StepsPerChip = 1"

record User =
  u_ID :: uuid
  u_DisplayName :: string
  u_ExternalID :: string
  u_Timezone :: string
  u_MaxDailyDeposit :: int
  u_CreatedAt :: timestamp

definition rowToUser :: "user_row \<Rightarrow> User" where
  "rowToUser r = \<lparr>u_ID = ur_id r, u_DisplayName = ur_display_name r,
     u_ExternalID = (case ur_external_id r of None \<Rightarrow> [] | Some x \<Rightarrow> x), u_Timezone = ur_timezone r,
     u_MaxDailyDeposit = ur_max_daily_deposit r, u_CreatedAt = ur_created_at r\<rparr>"

record UserInput =
  ui_ID :: uuid
  ui_DisplayName :: string
  ui_ExternalID :: string
  ui_Timezone :: string
  ui_MaxDailyDeposit :: int

text \<open>\<open>WithTx\<close> of \<open>pgStore\<close> with a function that always returns.\<close>

definition tx :: "(Db \<Rightarrow> (go_err + 'a) \<times> Db) \<Rightarrow> Db \<Rightarrow> (go_err + 'a) \<times> Db" where
  "tx fn s = the (WithTx (pgStore (\<lambda>_. None)) (\<lambda>s1. Some (fn s1)) s)"

definition CreateUser :: "uuid \<Rightarrow> UserInput \<Rightarrow> Db \<Rightarrow> (go_err + User \<times> UserSnapshot) \<times> Db" where
  "CreateUser newID input s =
     (let u = (if ui_ID input = uuid_Nil then newID else ui_ID input);
          tz = (if ui_Timezone input = [] then ''UTC'' else ui_Timezone input)
      in tx (\<lambda>s1.
           case q_CreateUser u (ui_DisplayName input) (ui_ExternalID input) tz (ui_MaxDailyDeposit input) s1 of
             (Inl e, s2) \<Rightarrow>
               (Inl (if e = UniqueViolation then ErrDuplicateExternalID
                     else Wrap ''insert user: '' db_error), s2)
           | (Inr row, s2) \<Rightarrow>
               (case q_CreateUserSnapshot u s2 of
                  (Inl e, s3) \<Rightarrow> (Inl (Wrap ''create user snapshot: '' db_error), s3)
                | (Inr snap, s3) \<Rightarrow> (Inr (rowToUser row, snap), s3))) s)"

definition snapshot_of :: "user_row \<Rightarrow> Db \<Rightarrow> go_err + User \<times> UserSnapshot" where
  \<comment> \<open>the second half of \<open>GetUser\<close> and \<open>GetUserByExternalID\<close>\<close>
  "snapshot_of row s =
     (case q_GetUserSnapshot (ur_id row) s of
        Inl e \<Rightarrow> Inl (if e = ErrNoRows then ErrNotFound else Wrap ''get user snapshot: '' db_error)
      | Inr snap \<Rightarrow> Inr (rowToUser row, snap))"

definition GetUser :: "uuid \<Rightarrow> Db \<Rightarrow> go_err + User \<times> UserSnapshot" where
  "GetUser u s =
     (case q_GetUser u s of
        Inl e \<Rightarrow> Inl (if e = ErrNoRows then ErrNotFound else Wrap ''get user: '' db_error)
      | Inr row \<Rightarrow> snapshot_of row s)"

definition GetUserByExternalID :: "string \<Rightarrow> Db \<Rightarrow> go_err + User \<times> UserSnapshot" where
  "GetUserByExternalID x s =
     (case q_GetUserByExternalID x s of
        Inl e \<Rightarrow> Inl (if e = ErrNoRows then ErrNotFound else Wrap ''get user by external_id: '' db_error)
      | Inr row \<Rightarrow> snapshot_of row s)"

definition UpdateUserSettings ::
  "uuid \<Rightarrow> string \<Rightarrow> string \<Rightarrow> int \<Rightarrow> Db \<Rightarrow> (go_err + User) \<times> Db" where
  "UpdateUserSettings u name tz cap s =
     (case q_UpdateUserSettings u name tz cap s of
        (Inl e, s1) \<Rightarrow>
          (Inl (if e = ErrNoRows then ErrNotFound else Wrap ''update user settings: '' db_error), s1)
      | (Inr row, s1) \<Rightarrow> (Inr (rowToUser row), s1))"

section \<open>Steps\<close>

record ReportStepsInput =
  rs_UserID :: uuid
  rs_ReportID :: uuid
  rs_CumulativeStepsToday :: int
  rs_ClientReportedAt :: timestamp
  rs_LocalDate :: date

record ReportStepsResult =
  rs_CreditedChips :: int
  rs_NewBalance :: int
  rs_DailyHighWater :: int
  rs_Reason :: string
  rs_ProcessedAt :: timestamp

text \<open>A report that was processed before: the result is rebuilt from its row.\<close>

definition report_replay :: "ReportStepsInput \<Rightarrow> report_row \<Rightarrow> Db \<Rightarrow> go_err + ReportStepsResult" where
  "report_replay input existing s =
     (case q_GetUserSnapshot (rs_UserID input) s of
        Inl e \<Rightarrow> Inl (Wrap ''snapshot for idempotency replay: '' db_error)
      | Inr snap \<Rightarrow>
          let hwm = (case q_GetDailyStepsForUpdate (rs_UserID input) (rs_LocalDate input) s of
                       Inl e \<Rightarrow> rr_reported_steps existing
                     | Inr daily \<Rightarrow> dr_max_steps daily)
          in Inr \<lparr>rs_CreditedChips = rr_credited_chips existing, rs_NewBalance = us_ChipBalance snap,
                rs_DailyHighWater = hwm, rs_Reason = rr_reason existing,
                rs_ProcessedAt = rr_reported_at existing\<rparr>)"

text \<open>Steps 3 and 4: how many steps count, and why.\<close>

definition classify :: "int \<Rightarrow> int \<Rightarrow> int \<times> string" where
  "classify steps prevHWM =
     (if steps < prevHWM then (0, ''NO_OP_LOWER'')
      else if steps = prevHWM \<and> prevHWM > 0 then (0, ''NO_OP_DUPLICATE_VALUE'')
      else if prevHWM = 0 then (steps, ''NEW_DAY'')
      else (sub64 steps prevHWM, ''INCREMENT''))"

definition daily_cap :: "int \<Rightarrow> int \<Rightarrow> int \<times> string \<Rightarrow> int \<times> string" where
  "daily_cap maxDaily credited c =
     (let remaining = sub64 maxDaily credited
      in if remaining \<le> 0 then (0, ''CAP_EXCEEDED'')
         else if fst c > remaining then (remaining, ''CAP_PARTIAL'')
         else c)"

definition steps_delta :: "ReportStepsInput \<Rightarrow> Db \<Rightarrow> go_err + (int \<times> string)" where
  "steps_delta input s =
     (case q_GetDailyStepsForUpdate (rs_UserID input) (rs_LocalDate input) s of
        Inl DbError \<Rightarrow> Inl (Wrap ''lock daily steps: '' db_error)
      | daily \<Rightarrow>
          let prevHWM = (case daily of Inl e \<Rightarrow> 0 | Inr r \<Rightarrow> dr_max_steps r);
              c = classify (rs_CumulativeStepsToday input) prevHWM
          in if fst c > 0 then
               (case q_GetUser (rs_UserID input) s of
                  Inl e \<Rightarrow> Inl (Wrap ''get user for cap check: '' db_error)
                | Inr u \<Rightarrow>
                    if ur_max_daily_deposit u > 0 then
                      (case q_SumCreditedToday (rs_UserID input) (rs_LocalDate input) s of
                         Inl e \<Rightarrow> Inl (Wrap ''sum credited today: '' db_error)
                       | Inr credited \<Rightarrow> Inr (daily_cap (ur_max_daily_deposit u) credited c))
                    else Inr c)
             else Inr c)"

text \<open>Steps 5 to 7: the high-water mark, the audit row and the balance.\<close>

definition steps_write ::
  "ReportStepsInput \<Rightarrow> int \<times> string \<Rightarrow> Db \<Rightarrow> (go_err + ReportStepsResult) \<times> Db" where
  "steps_write input c s =
     (let u = rs_UserID input; chips = mul64 (fst c) StepsPerChip
      in case q_UpsertDailyStepsHighWaterMark u (rs_LocalDate input) (rs_CumulativeStepsToday input) s of
           (Inl e, s1) \<Rightarrow> (Inl (Wrap ''upsert daily steps: '' db_error), s1)
         | (Inr updatedDaily, s1) \<Rightarrow>
             (case q_InsertDepositReport u (rs_ReportID input) (rs_CumulativeStepsToday input) chips
                     (rs_LocalDate input) (snd c) s1 of
                (inserted, s2) \<Rightarrow>
                  (case (if inserted = Inl ErrNoRows
                         then q_FindDepositReportByReportID u (rs_ReportID input) s2 else inserted) of
                     Inl e \<Rightarrow> (Inl (Wrap ''insert deposit report: '' db_error), s2)
                   | Inr report \<Rightarrow>
                       (case q_ApplyDepositToSnapshot u chips s2 of
                          (Inl e, s3) \<Rightarrow> (Inl (Wrap ''apply deposit to snapshot: '' db_error), s3)
                        | (Inr snap, s3) \<Rightarrow>
                            (Inr \<lparr>rs_CreditedChips = chips, rs_NewBalance = us_ChipBalance snap,
                               rs_DailyHighWater = dr_max_steps updatedDaily, rs_Reason = snd c,
                               rs_ProcessedAt = rr_reported_at report\<rparr>, s3)))))"

definition ReportSteps :: "ReportStepsInput \<Rightarrow> Db \<Rightarrow> (go_err + ReportStepsResult) \<times> Db" where
  "ReportSteps input = tx (\<lambda>s.
     case q_FindDepositReportByReportID (rs_UserID input) (rs_ReportID input) s of
       Inl DbError \<Rightarrow> (Inl (Wrap ''idempotency check: '' db_error), s)
     | Inr existing \<Rightarrow> (report_replay input existing s, s)
     | Inl _ \<Rightarrow>
         (case steps_delta input s of
            Inl e \<Rightarrow> (Inl e, s)
          | Inr c \<Rightarrow> steps_write input c s))"

record DepositReport =
  dp_ReportID :: uuid
  dp_UserID :: uuid
  dp_ReportedSteps :: int
  dp_CreditedChips :: int
  dp_LocalDate :: date
  dp_ReportedAt :: timestamp
  dp_Reason :: string

definition rowToDepositReport :: "report_row \<Rightarrow> DepositReport" where
  "rowToDepositReport r = \<lparr>dp_ReportID = rr_report_id r, dp_UserID = rr_user_id r,
     dp_ReportedSteps = rr_reported_steps r, dp_CreditedChips = rr_credited_chips r,
     dp_LocalDate = rr_local_date r, dp_ReportedAt = rr_reported_at r, dp_Reason = rr_reason r\<rparr>"

definition clamp_limit :: "int \<Rightarrow> int" where
  "clamp_limit lim = (if lim \<le> 0 then 50 else if lim > 200 then 200 else lim)"

definition ListDepositReports :: "uuid \<Rightarrow> int \<Rightarrow> int \<Rightarrow> Db \<Rightarrow> go_err + DepositReport list \<times> int" where
  "ListDepositReports u lim off s =
     (case q_ListDepositReports u (clamp_limit lim) off s of
        Inl e \<Rightarrow> Inl (Wrap ''list deposit reports: '' db_error)
      | Inr rows \<Rightarrow>
          (case q_CountDepositReports u s of
             Inl e \<Rightarrow> Inl (Wrap ''count deposit reports: '' db_error)
           | Inr tot \<Rightarrow> Inr (map rowToDepositReport rows, tot)))"

definition FindDepositReport :: "uuid \<Rightarrow> uuid \<Rightarrow> Db \<Rightarrow> go_err + DepositReport option" where
  "FindDepositReport u rid s =
     (case q_FindDepositReportByReportID u rid s of
        Inl e \<Rightarrow> if e = ErrNoRows then Inr None else Inl (Wrap ''find deposit report: '' db_error)
      | Inr row \<Rightarrow> Inr (Some (rowToDepositReport row)))"

section \<open>What the statements do to the views\<close>

declare split_paired_All [simp del] and split_paired_Ex [simp del]
  \<comment> \<open>a date is a triple; statements about all days stay as they are\<close>

definition hwm :: "uuid \<Rightarrow> date \<Rightarrow> Tables \<Rightarrow> int" where
  \<comment> \<open>the high-water mark of a user and a day\<close>
  "hwm u d t = (case find (\<lambda>r. dr_user_id r = u \<and> dr_local_date r = d) (user_daily_steps t) of
                  None \<Rightarrow> 0 | Some r \<Rightarrow> dr_max_steps r)"

definition has_report :: "uuid \<Rightarrow> uuid \<Rightarrow> Tables \<Rightarrow> bool" where
  "has_report u rid t \<longleftrightarrow> (\<exists>r \<in> set (step_deposit_reports t). rr_user_id r = u \<and> rr_report_id r = rid)"

lemma find_map_upd:
  "find P xs = Some r \<Longrightarrow> P r' \<Longrightarrow> find P (map (\<lambda>q. if P q then r' else q) xs) = Some r'"
  by (induction xs) (auto split: if_splits)

lemma find_map_other:
  "(\<And>q. P q \<Longrightarrow> \<not> Q q) \<Longrightarrow> P r' \<Longrightarrow> find Q (map (\<lambda>q. if P q then r' else q) xs) = find Q xs"
  by (induction xs) auto

lemma find_append: "find P (xs @ ys) = (case find P xs of None \<Rightarrow> find P ys | Some x \<Rightarrow> Some x)"
  by (induction xs) auto

lemma upd_tables_frame [simp]:
  "faults (upd_tables f s) = faults s" "db_now (upd_tables f s) = db_now s"
  "open_tx (upd_tables f s) = None \<longleftrightarrow> open_tx s = None"
  "open_tx s \<noteq> None \<Longrightarrow> committed (upd_tables f s) = committed s"
  by (auto simp: upd_tables_def split: option.splits)

lemma upsert_cases:
  assumes "q_UpsertDailyStepsHighWaterMark u d n s = (Inr r, s')"
  shows "\<exists>rows. s' = upd_tables (\<lambda>t. t\<lparr>user_daily_steps := rows\<rparr>) s \<and> 0 \<le> n
    \<and> hwm u d ((tables s)\<lparr>user_daily_steps := rows\<rparr>) = dr_max_steps r
    \<and> (0 \<le> hwm u d (tables s) \<longrightarrow> dr_max_steps r = max (hwm u d (tables s)) n)
    \<and> (\<forall>u' d'. (u', d') \<noteq> (u, d) \<longrightarrow> hwm u' d' ((tables s)\<lparr>user_daily_steps := rows\<rparr>) = hwm u' d' (tables s))
    \<and> find (\<lambda>r. dr_user_id r = u \<and> dr_local_date r = d) rows = Some r"
proof (cases "find (\<lambda>r. dr_user_id r = u \<and> dr_local_date r = d) (user_daily_steps (tables s))")
  case None
  let ?row = "\<lparr>dr_user_id = u, dr_local_date = d, dr_max_steps = n, dr_last_reported_at = db_now s\<rparr>"
  have s': "s' = upd_tables (\<lambda>t. t\<lparr>user_daily_steps := user_daily_steps t @ [?row]\<rparr>) s" and n: "0 \<le> n"
    and r: "r = ?row"
    using assms None by (auto simp: q_UpsertDailyStepsHighWaterMark_def Let_def split: if_splits)
  have "s' = upd_tables (\<lambda>t. t\<lparr>user_daily_steps := user_daily_steps (tables s) @ [?row]\<rparr>) s"
    unfolding s' by (simp add: upd_tables_def tables_def split: option.splits)
  moreover have "find (\<lambda>r. dr_user_id r = u' \<and> dr_local_date r = d') (user_daily_steps (tables s) @ [?row])
      = (if (u', d') = (u, d) then Some ?row
         else find (\<lambda>r. dr_user_id r = u' \<and> dr_local_date r = d') (user_daily_steps (tables s)))" for u' d'
    using None by (auto simp: find_append split: option.splits)
  ultimately show ?thesis using n r None
    by (intro exI [of _ "user_daily_steps (tables s) @ [?row]"]) (auto simp: hwm_def)
next
  case (Some q)
  let ?row = "q\<lparr>dr_max_steps := max (dr_max_steps q) n,
      dr_last_reported_at := (if n > dr_max_steps q then db_now s else dr_last_reported_at q)\<rparr>"
  let ?f = "map (\<lambda>x. if dr_user_id x = u \<and> dr_local_date x = d then ?row else x)"
  have q: "dr_user_id q = u" "dr_local_date q = d" using Some by (auto simp: find_Some_iff)
  have s': "s' = upd_tables (\<lambda>t. t\<lparr>user_daily_steps := ?f (user_daily_steps t)\<rparr>) s" and n: "0 \<le> n"
    and r: "r = ?row"
    using assms Some by (auto simp: q_UpsertDailyStepsHighWaterMark_def Let_def split: if_splits)
  have "s' = upd_tables (\<lambda>t. t\<lparr>user_daily_steps := ?f (user_daily_steps (tables s))\<rparr>) s"
    unfolding s' by (simp add: upd_tables_def tables_def split: option.splits)
  moreover have "find (\<lambda>r. dr_user_id r = u \<and> dr_local_date r = d) (?f (user_daily_steps (tables s))) = Some ?row"
    by (rule find_map_upd [OF Some]) (simp add: q)
  moreover have "find (\<lambda>r. dr_user_id r = u' \<and> dr_local_date r = d') (?f (user_daily_steps (tables s)))
      = find (\<lambda>r. dr_user_id r = u' \<and> dr_local_date r = d') (user_daily_steps (tables s))"
    if "(u', d') \<noteq> (u, d)" for u' d'
    by (rule find_map_other) (use that q in auto)
  ultimately show ?thesis using n r Some
    by (intro exI [of _ "?f (user_daily_steps (tables s))"]) (auto simp: hwm_def)
qed

lemma insert_report_effect:
  assumes "q_InsertDepositReport u rid n c d reason s = (r, s')" and "r \<noteq> Inl DbError"
  shows "if has_report u rid (tables s) then r = Inl ErrNoRows \<and> s' = s
    else \<exists>row. r = Inr row \<and> rr_user_id row = u \<and> rr_report_id row = rid \<and> rr_credited_chips row = c
      \<and> rr_local_date row = d \<and> rr_reason row = reason \<and> rr_reported_at row = db_now s
      \<and> rr_reported_steps row = n \<and> 0 \<le> c
      \<and> s' = upd_tables (\<lambda>t. t\<lparr>step_deposit_reports := step_deposit_reports t @ [row]\<rparr>) s"
  using assms by (auto simp: q_InsertDepositReport_def has_report_def Let_def split: if_splits)

lemma deposit_effect:
  assumes "q_ApplyDepositToSnapshot u c s = (Inr snap, s')"
  shows "\<exists>rows. s' = upd_tables (\<lambda>t. t\<lparr>user_snapshots := rows\<rparr>) s
    \<and> (\<exists>b. pg_balance s u = Some b \<and> us_ChipBalance snap = b + c \<and> pg_balance s' = (pg_balance s)(u \<mapsto> b + c))"
proof -
  obtain r where r: "map_of (user_snapshots (tables s)) u = Some r"
    "s' = upd_tables (\<lambda>t. t\<lparr>user_snapshots := AList.update u snap (user_snapshots t)\<rparr>) s"
    "us_ChipBalance snap = us_ChipBalance r + c"
    using assms by (auto simp: q_ApplyDepositToSnapshot_def Let_def split: if_splits option.splits)
  have "s' = upd_tables (\<lambda>t. t\<lparr>user_snapshots := AList.update u snap (user_snapshots (tables s))\<rparr>) s"
    unfolding r(2) by (simp add: upd_tables_def tables_def split: option.splits)
  moreover have "pg_balance s' = (pg_balance s)(u \<mapsto> us_ChipBalance r + c)"
    unfolding r(2) by (auto simp: pg_balance_def fun_eq_iff update_conv' r(3))
  ultimately show ?thesis using r(1,3) by (auto simp: pg_balance_def)
qed

lemma upd_tables_open:
  "open_tx s \<noteq> None \<Longrightarrow> committed (upd_tables f s) = committed s \<and> open_tx (upd_tables f s) \<noteq> None"
  by (auto simp: upd_tables_def split: option.splits)

lemma q_frame:
  assumes "open_tx s \<noteq> None"
  shows "q_UpsertDailyStepsHighWaterMark u d n s = (r, s') \<Longrightarrow> committed s' = committed s \<and> open_tx s' \<noteq> None"
    and "q_InsertDepositReport u rid n c d reason s = (q, s') \<Longrightarrow> committed s' = committed s \<and> open_tx s' \<noteq> None"
    and "q_ApplyDepositToSnapshot u c s = (a, s') \<Longrightarrow> committed s' = committed s \<and> open_tx s' \<noteq> None"
  using assms upd_tables_open [OF assms]
  by (auto simp: q_UpsertDailyStepsHighWaterMark_def q_InsertDepositReport_def q_ApplyDepositToSnapshot_def Let_def
      iff del: not_None_eq split: if_splits option.splits)

lemma steps_write_frame:
  "open_tx s \<noteq> None \<Longrightarrow> steps_write i c s = (r, s') \<Longrightarrow> committed s' = committed s"
  unfolding steps_write_def Let_def
  by (auto split: prod.splits sum.splits if_splits dest!: q_frame [rotated])

section \<open>Crediting steps\<close>

text \<open>The abstract rule: what a report of \<open>n\<close> steps earns when \<open>h\<close> steps are on record for the day,
  the cap is \<open>cap\<close> (\<open>0\<close> is none) and \<open>done\<close> chips were credited on that day.\<close>

definition earned :: "int \<Rightarrow> int \<Rightarrow> int \<Rightarrow> int \<Rightarrow> int" where
  "earned n h cap paid = (let new = max 0 (n - h) in if cap > 0 then min new (max 0 (cap - paid)) else new)"

definition cap_of :: "uuid \<Rightarrow> Tables \<Rightarrow> int" where
  "cap_of u t = (case find (\<lambda>r. ur_id r = u \<and> \<not> ur_deleted r) (users t) of
                   None \<Rightarrow> 0 | Some r \<Rightarrow> ur_max_daily_deposit r)"

text \<open>No day was credited more than its high-water mark, and the caps are those of a \<open>BIGINT\<close>.\<close>

definition steps_ok :: "Tables \<Rightarrow> bool" where
  "steps_ok t \<longleftrightarrow> (\<forall>u d. 0 \<le> day_credited u d t \<and> day_credited u d t \<le> hwm u d t)
     \<and> (\<forall>r \<in> set (users t). in64 (ur_max_daily_deposit r))"

lemma steps_okD:
  "steps_ok t \<Longrightarrow> 0 \<le> day_credited u d t" "steps_ok t \<Longrightarrow> day_credited u d t \<le> hwm u d t"
  "steps_ok t \<Longrightarrow> 0 \<le> hwm u d t"
  unfolding steps_ok_def by (blast intro: order_trans)+

lemma in64_cap_of: "steps_ok t \<Longrightarrow> find (\<lambda>r. ur_id r = u \<and> \<not> ur_deleted r) (users t) = Some r
   \<Longrightarrow> in64 (ur_max_daily_deposit r)"
  by (auto simp: steps_ok_def find_Some_iff)

lemma earned_bounds: "0 \<le> earned n h cap paid" "earned n h cap paid \<le> max 0 (n - h)"
  by (auto simp: earned_def Let_def)

lemma sub64_nonneg: "in64 a \<Longrightarrow> 0 \<le> b \<Longrightarrow> 0 \<le> a \<Longrightarrow> b \<le> a \<or> in64 b \<Longrightarrow> sub64 a b = a - b"
  by (auto simp: sub64_def in64_def intro!: wrap64_id)

lemma classify_steps:
  assumes "0 \<le> h" and "in64 n"
  shows "fst (classify n h) = max 0 (n - h)"
  using assms sub64_nonneg [of n h] by (auto simp: classify_def)

lemma daily_cap_steps:
  assumes "0 \<le> paid" "in64 paid" "0 < cap" "in64 cap" "0 < fst c"
  shows "fst (daily_cap cap paid c) = min (fst c) (max 0 (cap - paid))"
  using assms sub64_nonneg [of cap paid] by (auto simp: daily_cap_def Let_def)

lemma steps_delta_earned:
  assumes "steps_delta i s = Inr c" and ok: "steps_ok (tables s)" and "in64 (rs_CumulativeStepsToday i)"
  shows "fst c = earned (rs_CumulativeStepsToday i) (hwm (rs_UserID i) (rs_LocalDate i) (tables s))
    (cap_of (rs_UserID i) (tables s)) (day_credited (rs_UserID i) (rs_LocalDate i) (tables s))"
proof -
  let ?n = "rs_CumulativeStepsToday i" and ?h = "hwm (rs_UserID i) (rs_LocalDate i) (tables s)"
    and ?p = "day_credited (rs_UserID i) (rs_LocalDate i) (tables s)"
  have h: "(case q_GetDailyStepsForUpdate (rs_UserID i) (rs_LocalDate i) s of Inl e \<Rightarrow> 0 | Inr r \<Rightarrow> dr_max_steps r) = ?h"
    and nd: "q_GetDailyStepsForUpdate (rs_UserID i) (rs_LocalDate i) s \<noteq> Inl DbError"
    using assms(1) by (auto simp: steps_delta_def q_GetDailyStepsForUpdate_def q_find_def hwm_def split: option.splits if_splits)
  have cl: "fst (classify ?n ?h) = max 0 (?n - ?h)" by (rule classify_steps) (use assms steps_okD in auto)
  have eq: "steps_delta i s = (let c = classify ?n ?h in if fst c > 0 then
               (case q_GetUser (rs_UserID i) s of
                  Inl e \<Rightarrow> Inl (Wrap ''get user for cap check: '' db_error)
                | Inr u \<Rightarrow>
                    if ur_max_daily_deposit u > 0 then
                      (case q_SumCreditedToday (rs_UserID i) (rs_LocalDate i) s of
                         Inl e \<Rightarrow> Inl (Wrap ''sum credited today: '' db_error)
                       | Inr credited \<Rightarrow> Inr (daily_cap (ur_max_daily_deposit u) credited c))
                    else Inr c)
             else Inr c)"
    using nd unfolding steps_delta_def h [symmetric] Let_def
    by (auto split: sum.splits pg_err.splits)
  show ?thesis
  proof (cases "0 < fst (classify ?n ?h)")
    case False
    then show ?thesis using assms(1) cl unfolding eq by (auto simp: earned_def Let_def)
  next
    case True
    obtain r where r: "find (\<lambda>r. ur_id r = rs_UserID i \<and> \<not> ur_deleted r) (users (tables s)) = Some r"
      "q_GetUser (rs_UserID i) s = Inr r"
      using assms(1) True unfolding eq
      by (auto simp: q_GetUser_def q_find_def split: option.splits if_splits)
    show ?thesis
      using assms(1) True r cl in64_cap_of [OF ok r(1)] steps_okD(1) [OF ok, of "rs_UserID i" "rs_LocalDate i"]
      unfolding eq
      by (auto simp: earned_def Let_def cap_of_def q_SumCreditedToday_def daily_cap_steps
          split: if_splits)
  qed
qed

section \<open>Transactions of the store\<close>

lemma tx_Inr:
  assumes "tx fn s = (Inr r, s')"
  shows "\<exists>s2. fn (tx_view s) = (Inr r, s2) \<and> s' = s2\<lparr>committed := tables s2, open_tx := None\<rparr>"
  using assms
  by (auto simp: tx_def WithTx_def pgStore_def pg_Begin_def pg_Commit_def tx_view_def
      split: if_splits prod.splits sum.splits)

lemma tx_Inl:
  assumes "tx fn s = (Inl e, s')" and "pg_idle s"
    and "\<And>r s2. fn (tx_view s) = (r, s2) \<Longrightarrow> committed s2 = committed s"
  shows "committed s' = committed s"
  using assms
  by (auto simp: tx_def WithTx_def pgStore_def pg_Begin_def pg_Commit_def pg_Rollback_def tx_view_def
      split: if_splits prod.splits sum.splits)

lemma tx_run:
  assumes "faults s = []" and "fn (tx_view s) = (Inr r, s2)" and "faults s2 = []"
  shows "tx fn s = (Inr r, s2\<lparr>committed := tables s2, open_tx := None\<rparr>)"
  using assms
  by (auto simp: tx_def WithTx_def pgStore_def pg_Begin_def pg_Commit_def tx_view_def down_def)

lemma tables_tx_view [simp]: "tables (tx_view s) = committed s" "committed (tx_view s) = committed s"
  by (simp_all add: tables_def tx_view_def)

lemma faults_tx_view [simp]: "faults (tx_view s) = faults s"
  by (simp add: tx_view_def)

lemma open_tx_view: "open_tx (tx_view s) \<noteq> None"
  by (simp add: tx_view_def)

section \<open>The writes of a report\<close>

lemma steps_write_effect:
  assumes w: "steps_write i c s = (Inr r, s')"
    and c: "in64 (fst c)"
    and h: "0 \<le> hwm (rs_UserID i) (rs_LocalDate i) (tables s)"
  shows "\<exists>days reps bals. tables s' = (tables s)\<lparr>user_daily_steps := days, step_deposit_reports := reps,
        user_snapshots := bals\<rparr>
    \<and> faults s' = faults s \<and> (open_tx s \<noteq> None \<longrightarrow> committed s' = committed s)
    \<and> (\<forall>u d. hwm u d (tables s') = (if (u, d) = (rs_UserID i, rs_LocalDate i)
          then max (hwm u d (tables s)) (rs_CumulativeStepsToday i) else hwm u d (tables s)))
    \<and> rs_DailyHighWater r = max (hwm (rs_UserID i) (rs_LocalDate i) (tables s)) (rs_CumulativeStepsToday i)
    \<and> rs_CreditedChips r = fst c \<and> rs_Reason r = snd c
    \<and> find (\<lambda>q. dr_user_id q = rs_UserID i \<and> dr_local_date q = rs_LocalDate i) days \<noteq> None
    \<and> (if has_report (rs_UserID i) (rs_ReportID i) (tables s) then reps = step_deposit_reports (tables s)
       else \<exists>row. reps = step_deposit_reports (tables s) @ [row] \<and> rr_user_id row = rs_UserID i
         \<and> rr_report_id row = rs_ReportID i \<and> rr_credited_chips row = fst c \<and> rr_local_date row = rs_LocalDate i
         \<and> rr_reason row = snd c \<and> rr_reported_at row = rs_ProcessedAt r)
    \<and> (\<exists>b. pg_balance s (rs_UserID i) = Some b \<and> rs_NewBalance r = b + fst c
         \<and> pg_balance s' = (pg_balance s)(rs_UserID i \<mapsto> b + fst c))"
proof -
  let ?u = "rs_UserID i" and ?d = "rs_LocalDate i" and ?n = "rs_CumulativeStepsToday i"
  have chips: "mul64 (fst c) StepsPerChip = fst c" using c by (simp add: StepsPerChip_def mul64_exact)
  obtain row s1 ins s2 rep snap where
    up: "q_UpsertDailyStepsHighWaterMark ?u ?d ?n s = (Inr row, s1)"
    and ins: "q_InsertDepositReport ?u (rs_ReportID i) ?n (fst c) ?d (snd c) s1 = (ins, s2)"
    and rep: "(if ins = Inl ErrNoRows then q_FindDepositReportByReportID ?u (rs_ReportID i) s2 else ins) = Inr rep"
    and dep: "q_ApplyDepositToSnapshot ?u (fst c) s2 = (Inr snap, s')"
    and r: "r = \<lparr>rs_CreditedChips = fst c, rs_NewBalance = us_ChipBalance snap,
       rs_DailyHighWater = dr_max_steps row, rs_Reason = snd c, rs_ProcessedAt = rr_reported_at rep\<rparr>"
    using w unfolding steps_write_def Let_def chips
    by (auto split: prod.splits sum.splits if_splits)
  obtain days where s1: "s1 = upd_tables (\<lambda>t. t\<lparr>user_daily_steps := days\<rparr>) s"
    and hw: "hwm ?u ?d ((tables s)\<lparr>user_daily_steps := days\<rparr>) = dr_max_steps row"
      "dr_max_steps row = max (hwm ?u ?d (tables s)) ?n"
      "\<forall>u' d'. (u', d') \<noteq> (?u, ?d) \<longrightarrow> hwm u' d' ((tables s)\<lparr>user_daily_steps := days\<rparr>) = hwm u' d' (tables s)"
      "find (\<lambda>q. dr_user_id q = ?u \<and> dr_local_date q = ?d) days = Some row"
    using upsert_cases [OF up] h by auto
  obtain bals b where s': "s' = upd_tables (\<lambda>t. t\<lparr>user_snapshots := bals\<rparr>) s2"
    and b: "pg_balance s2 ?u = Some b" "us_ChipBalance snap = b + fst c"
      "pg_balance s' = (pg_balance s2)(?u \<mapsto> b + fst c)"
    using deposit_effect [OF dep] by blast
  have same: "has_report ?u (rs_ReportID i) (tables s1) = has_report ?u (rs_ReportID i) (tables s)"
    by (simp add: s1 has_report_def)
  have "ins \<noteq> Inl DbError" using rep by auto
  note eff = insert_report_effect [OF ins this]
  obtain reps where s2: "s2 = upd_tables (\<lambda>t. t\<lparr>step_deposit_reports := reps\<rparr>) s1"
    and reps: "if has_report ?u (rs_ReportID i) (tables s) then reps = step_deposit_reports (tables s)
      else \<exists>row. reps = step_deposit_reports (tables s) @ [row] \<and> rr_user_id row = ?u
         \<and> rr_report_id row = rs_ReportID i \<and> rr_credited_chips row = fst c \<and> rr_local_date row = ?d
         \<and> rr_reason row = snd c \<and> rr_reported_at row = rr_reported_at rep"
  proof (cases "has_report ?u (rs_ReportID i) (tables s)")
    case True
    then have "s2 = s1" using eff same by simp
    then have "s2 = upd_tables (\<lambda>t. t\<lparr>step_deposit_reports := step_deposit_reports (tables s)\<rparr>) s1"
      by (simp add: s1 upd_tables_def tables_def split: option.splits)
    then show ?thesis using that True by simp
  next
    case False
    then obtain q where q: "ins = Inr q" "rr_user_id q = ?u" "rr_report_id q = rs_ReportID i"
      "rr_credited_chips q = fst c" "rr_local_date q = ?d" "rr_reason q = snd c"
      "s2 = upd_tables (\<lambda>t. t\<lparr>step_deposit_reports := step_deposit_reports t @ [q]\<rparr>) s1"
      using eff same by auto
    have "s2 = upd_tables (\<lambda>t. t\<lparr>step_deposit_reports := step_deposit_reports (tables s) @ [q]\<rparr>) s1"
      unfolding q(7) by (simp add: s1 upd_tables_def tables_def split: option.splits)
    then show ?thesis using that False q rep by auto
  qed
  have t: "tables s' = (tables s)\<lparr>user_daily_steps := days, step_deposit_reports := reps, user_snapshots := bals\<rparr>"
    by (simp add: s' s2 s1)
  have bal: "pg_balance s2 = pg_balance s" by (simp add: pg_balance_def s2 s1 fun_eq_iff)
  have hwt: "hwm u d (tables s') = hwm u d ((tables s)\<lparr>user_daily_steps := days\<rparr>)" for u d
    by (simp add: t hwm_def)
  have fr: "faults s' = faults s" "open_tx s \<noteq> None \<longrightarrow> committed s' = committed s"
    by (auto simp: s' s2 s1 upd_tables_def split: option.splits)
  show ?thesis
    using t fr hw reps b bal hwt r
    by (intro exI [of _ days] exI [of _ reps] exI [of _ bals]) auto
qed

lemma day_credited_snoc:
  "step_deposit_reports t' = step_deposit_reports t @ [row] \<Longrightarrow>
   day_credited u d t' = day_credited u d t
     + (if rr_user_id row = u \<and> rr_local_date row = d then rr_credited_chips row else 0)"
  by (auto simp: day_credited_def)

lemma day_credited_same:
  "step_deposit_reports t' = step_deposit_reports t \<Longrightarrow> day_credited u d t' = day_credited u d t"
  by (simp add: day_credited_def)

lemma idle_tables: "pg_idle s \<Longrightarrow> tables s = committed s"
  by (simp add: pg_idle_def tables_def)

lemma pg_balance_cong: "tables s = tables s' \<Longrightarrow> pg_balance s = pg_balance s'"
  by (simp add: pg_balance_def fun_eq_iff)

lemma find_report_none:
  "q_FindDepositReportByReportID u rid s = Inl ErrNoRows \<longleftrightarrow>
     \<not> down ''FindDepositReportByReportID'' s \<and> \<not> has_report u rid (tables s)"
  by (auto simp: q_FindDepositReportByReportID_def q_find_def has_report_def find_None_iff
      find_Some_iff nth_mem split: option.splits intro!: bexI)

lemma ReportSteps_new:
  assumes "ReportSteps i s = (Inr r, s')" and "\<not> has_report (rs_UserID i) (rs_ReportID i) (committed s)"
  obtains c s2 where "steps_delta i (tx_view s) = Inr c" "steps_write i c (tx_view s) = (Inr r, s2)"
    "s' = s2\<lparr>committed := tables s2, open_tx := None\<rparr>"
proof -
  obtain s2 where s2: "s' = s2\<lparr>committed := tables s2, open_tx := None\<rparr>"
    and f: "(case q_FindDepositReportByReportID (rs_UserID i) (rs_ReportID i) (tx_view s) of
       Inl DbError \<Rightarrow> (Inl (Wrap ''idempotency check: '' db_error), tx_view s)
     | Inr existing \<Rightarrow> (report_replay i existing (tx_view s), tx_view s)
     | Inl _ \<Rightarrow>
         (case steps_delta i (tx_view s) of
            Inl e \<Rightarrow> (Inl e, tx_view s)
          | Inr c \<Rightarrow> steps_write i c (tx_view s))) = (Inr r, s2)"
    using tx_Inr [OF assms(1) [unfolded ReportSteps_def]] by blast
  have "q_FindDepositReportByReportID (rs_UserID i) (rs_ReportID i) (tx_view s) \<noteq> Inr e" for e
    using assms(2)
    by (auto simp: q_FindDepositReportByReportID_def q_find_def has_report_def find_Some_iff split: option.splits)
  then show ?thesis using f that s2
    by (auto split: sum.splits pg_err.splits)
qed

lemma ReportSteps_replay:
  assumes "ReportSteps i s = (Inr r, s')" and "has_report (rs_UserID i) (rs_ReportID i) (committed s)"
  shows "s' = s\<lparr>open_tx := None\<rparr> \<and> (\<exists>e. q_FindDepositReportByReportID (rs_UserID i) (rs_ReportID i) (tx_view s) = Inr e
    \<and> report_replay i e (tx_view s) = Inr r)"
proof -
  obtain s2 where s2: "s' = s2\<lparr>committed := tables s2, open_tx := None\<rparr>"
    and f: "(case q_FindDepositReportByReportID (rs_UserID i) (rs_ReportID i) (tx_view s) of
       Inl DbError \<Rightarrow> (Inl (Wrap ''idempotency check: '' db_error), tx_view s)
     | Inr existing \<Rightarrow> (report_replay i existing (tx_view s), tx_view s)
     | Inl _ \<Rightarrow>
         (case steps_delta i (tx_view s) of
            Inl e \<Rightarrow> (Inl e, tx_view s)
          | Inr c \<Rightarrow> steps_write i c (tx_view s))) = (Inr r, s2)"
    using tx_Inr [OF assms(1) [unfolded ReportSteps_def]] by blast
  have "q_FindDepositReportByReportID (rs_UserID i) (rs_ReportID i) (tx_view s) \<noteq> Inl ErrNoRows"
    "q_FindDepositReportByReportID (rs_UserID i) (rs_ReportID i) (tx_view s) \<noteq> Inl UniqueViolation"
    using assms(2)
    by (auto simp: find_report_none) (auto simp: q_FindDepositReportByReportID_def q_find_def split: option.splits if_splits)
  then show ?thesis using f s2
    by (auto simp: tx_view_def tables_def split: sum.splits pg_err.splits)
qed

lemma ReportSteps_Inl:
  assumes "ReportSteps i s = (Inl e, s')" and "pg_idle s"
  shows "committed s' = committed s"
proof (rule tx_Inl [OF assms(1) [unfolded ReportSteps_def] assms(2)])
  show "committed s2 = committed s"
    if "(case q_FindDepositReportByReportID (rs_UserID i) (rs_ReportID i) (tx_view s) of
       Inl DbError \<Rightarrow> (Inl (Wrap ''idempotency check: '' db_error), tx_view s)
     | Inr existing \<Rightarrow> (report_replay i existing (tx_view s), tx_view s)
     | Inl _ \<Rightarrow>
         (case steps_delta i (tx_view s) of
            Inl e \<Rightarrow> (Inl e, tx_view s)
          | Inr c \<Rightarrow> steps_write i c (tx_view s))) = (r, s2)" for r s2
    using that steps_write_frame [OF open_tx_view, of i _ s r s2]
    by (auto split: sum.splits pg_err.splits)
qed

text \<open>What one new report does to the day of its user.\<close>

lemma new_report_effect:
  assumes rep: "ReportSteps i s = (Inr r, s')" and idle: "pg_idle s" and ok: "steps_ok (committed s)"
    and n: "in64 (rs_CumulativeStepsToday i)"
    and new: "\<not> has_report (rs_UserID i) (rs_ReportID i) (committed s)"
  shows "rs_CreditedChips r = earned (rs_CumulativeStepsToday i) (hwm (rs_UserID i) (rs_LocalDate i) (committed s))
      (cap_of (rs_UserID i) (committed s)) (day_credited (rs_UserID i) (rs_LocalDate i) (committed s))"
    and "pg_balance s' = (pg_balance s)(rs_UserID i \<mapsto> rs_NewBalance r)"
    and "pg_balance s (rs_UserID i) = Some (rs_NewBalance r - rs_CreditedChips r)"
    and "hwm u d (committed s') = (if (u, d) = (rs_UserID i, rs_LocalDate i)
      then max (hwm u d (committed s)) (rs_CumulativeStepsToday i) else hwm u d (committed s))"
    and "day_credited u d (committed s') = day_credited u d (committed s)
      + (if (u, d) = (rs_UserID i, rs_LocalDate i) then rs_CreditedChips r else 0)"
    and "users (committed s') = users (committed s)"
    and "rs_DailyHighWater r = hwm (rs_UserID i) (rs_LocalDate i) (committed s')"
    and "pg_idle s'" "faults s' = faults s"
    and "find (\<lambda>q. dr_user_id q = rs_UserID i \<and> dr_local_date q = rs_LocalDate i)
      (user_daily_steps (committed s')) \<noteq> None"
    and "\<exists>row. step_deposit_reports (committed s') = step_deposit_reports (committed s) @ [row]
      \<and> rr_user_id row = rs_UserID i \<and> rr_report_id row = rs_ReportID i \<and> rr_credited_chips row = rs_CreditedChips r
      \<and> rr_reason row = rs_Reason r \<and> rr_reported_at row = rs_ProcessedAt r"
proof -
  obtain c s2 where c: "steps_delta i (tx_view s) = Inr c" "steps_write i c (tx_view s) = (Inr r, s2)"
    and s': "s' = s2\<lparr>committed := tables s2, open_tx := None\<rparr>"
    by (rule ReportSteps_new [OF rep new])
  have e: "fst c = earned (rs_CumulativeStepsToday i) (hwm (rs_UserID i) (rs_LocalDate i) (committed s))
      (cap_of (rs_UserID i) (committed s)) (day_credited (rs_UserID i) (rs_LocalDate i) (committed s))"
    using steps_delta_earned [OF c(1)] ok n by simp
  have h: "0 \<le> hwm (rs_UserID i) (rs_LocalDate i) (committed s)" using steps_okD(3) [OF ok] .
  then have "in64 (fst c)" using e n earned_bounds [of "rs_CumulativeStepsToday i"
      "hwm (rs_UserID i) (rs_LocalDate i) (committed s)" "cap_of (rs_UserID i) (committed s)"
      "day_credited (rs_UserID i) (rs_LocalDate i) (committed s)"]
    by (auto simp: in64_def)
  note eff = steps_write_effect [OF c(2) this, simplified, OF h]
  have t: "committed s' = tables s2" "tables s' = tables s2" by (simp_all add: s' tables_def)
  have b: "pg_balance s' = pg_balance s2" "pg_balance (tx_view s) = pg_balance s"
    using idle by (auto intro!: pg_balance_cong simp: t idle_tables)
  obtain row where row: "step_deposit_reports (tables s2) = step_deposit_reports (committed s) @ [row]"
    "rr_user_id row = rs_UserID i" "rr_report_id row = rs_ReportID i" "rr_credited_chips row = fst c"
    "rr_local_date row = rs_LocalDate i" "rr_reason row = rs_Reason r" "rr_reported_at row = rs_ProcessedAt r"
    using eff new by auto
  show "rs_CreditedChips r = earned (rs_CumulativeStepsToday i) (hwm (rs_UserID i) (rs_LocalDate i) (committed s))
      (cap_of (rs_UserID i) (committed s)) (day_credited (rs_UserID i) (rs_LocalDate i) (committed s))"
    using eff e by auto
  show "pg_balance s' = (pg_balance s)(rs_UserID i \<mapsto> rs_NewBalance r)"
    and "pg_balance s (rs_UserID i) = Some (rs_NewBalance r - rs_CreditedChips r)"
    using eff b by auto
  show "hwm u d (committed s') = (if (u, d) = (rs_UserID i, rs_LocalDate i)
      then max (hwm u d (committed s)) (rs_CumulativeStepsToday i) else hwm u d (committed s))"
    using eff unfolding t by auto
  show "day_credited u d (committed s') = day_credited u d (committed s)
      + (if (u, d) = (rs_UserID i, rs_LocalDate i) then rs_CreditedChips r else 0)"
    unfolding t using day_credited_snoc [OF row(1)] row eff by auto
  show "users (committed s') = users (committed s)" using eff unfolding t by auto
  show "rs_DailyHighWater r = hwm (rs_UserID i) (rs_LocalDate i) (committed s')" using eff unfolding t by auto
  show "pg_idle s'" "faults s' = faults s" using eff by (auto simp: s' pg_idle_def tx_view_def)
  show "find (\<lambda>q. dr_user_id q = rs_UserID i \<and> dr_local_date q = rs_LocalDate i)
      (user_daily_steps (committed s')) \<noteq> None"
    unfolding t using eff by auto
  show "\<exists>row. step_deposit_reports (committed s') = step_deposit_reports (committed s) @ [row]
      \<and> rr_user_id row = rs_UserID i \<and> rr_report_id row = rs_ReportID i \<and> rr_credited_chips row = rs_CreditedChips r
      \<and> rr_reason row = rs_Reason r \<and> rr_reported_at row = rs_ProcessedAt r"
    unfolding t using row eff by auto
qed

text \<open>C13. A new report that succeeds credits exactly what the rule \<^const>\<open>earned\<close> gives for the day:
  the steps above the high-water mark, cut to what the cap leaves. The balance and the total of
  the day grow by it, and the mark becomes the larger of the two numbers of steps.\<close>

theorem report_credits_new_steps:
  assumes "ReportSteps i s = (Inr r, s')" and "pg_idle s" and "steps_ok (committed s)"
    and "in64 (rs_CumulativeStepsToday i)" and "\<not> has_report (rs_UserID i) (rs_ReportID i) (committed s)"
  shows "rs_CreditedChips r = earned (rs_CumulativeStepsToday i) (hwm (rs_UserID i) (rs_LocalDate i) (committed s))
      (cap_of (rs_UserID i) (committed s)) (day_credited (rs_UserID i) (rs_LocalDate i) (committed s))
    \<and> pg_balance s' = (pg_balance s)(rs_UserID i \<mapsto> the (pg_balance s (rs_UserID i)) + rs_CreditedChips r)
    \<and> day_credited (rs_UserID i) (rs_LocalDate i) (committed s')
      = day_credited (rs_UserID i) (rs_LocalDate i) (committed s) + rs_CreditedChips r
    \<and> hwm (rs_UserID i) (rs_LocalDate i) (committed s')
      = max (hwm (rs_UserID i) (rs_LocalDate i) (committed s)) (rs_CumulativeStepsToday i)
    \<and> rs_NewBalance r = the (pg_balance s' (rs_UserID i))
    \<and> rs_DailyHighWater r = hwm (rs_UserID i) (rs_LocalDate i) (committed s')"
  using new_report_effect [OF assms] by auto

lemma report_keeps:
  assumes "pg_idle s" and ok: "steps_ok (committed s)" and n: "in64 (rs_CumulativeStepsToday i)"
    and s': "s' = snd (ReportSteps i s)"
  shows "pg_idle s' \<and> steps_ok (committed s')
    \<and> (\<forall>u d. hwm u d (committed s') \<le> max (hwm u d (committed s))
         (if (u, d) = (rs_UserID i, rs_LocalDate i) then rs_CumulativeStepsToday i else 0))"
proof (cases "ReportSteps i s")
  case (Pair out s1)
  have s1: "s1 = s'" using Pair s' by simp
  have keep: ?thesis if "pg_idle s'" "committed s' = committed s" using that ok by simp
  show ?thesis
  proof (cases out)
    case (Inl e)
    have "pg_idle s'" using Pair Inl s1 assms(1)
      by (auto simp: ReportSteps_def tx_def WithTx_def pgStore_def pg_Begin_def pg_Commit_def pg_Rollback_def pg_idle_def
          split: if_splits prod.splits sum.splits)
    then show ?thesis using ReportSteps_Inl [OF Pair [unfolded Inl] assms(1)] keep s1 by simp
  next
    case (Inr r)
    show ?thesis
    proof (cases "has_report (rs_UserID i) (rs_ReportID i) (committed s)")
      case True
      then show ?thesis using ReportSteps_replay [OF Pair [unfolded Inr]] s1 keep by (simp add: pg_idle_def)
    next
      case False
      note eff = new_report_effect [OF Pair [unfolded Inr s1] assms(1) ok n False]
      have "0 \<le> day_credited u d (committed s') \<and> day_credited u d (committed s') \<le> hwm u d (committed s')" for u d
        using eff(1) eff(4,5) [of u d] steps_okD(1,2) [OF ok, of u d] steps_okD(1,2) [OF ok, of "rs_UserID i" "rs_LocalDate i"]
          earned_bounds [of "rs_CumulativeStepsToday i" "hwm (rs_UserID i) (rs_LocalDate i) (committed s)"
            "cap_of (rs_UserID i) (committed s)" "day_credited (rs_UserID i) (rs_LocalDate i) (committed s)"]
        by (auto split: if_splits)
      then have "steps_ok (committed s')" using ok eff(6) unfolding steps_ok_def by auto
      then show ?thesis using eff(4,8) by auto
    qed
  qed
qed

text \<open>The reports of a day, one after the other.\<close>

definition report_all :: "ReportStepsInput list \<Rightarrow> Db \<Rightarrow> Db" where
  "report_all = fold (\<lambda>i s. snd (ReportSteps i s))"

definition most_steps :: "uuid \<Rightarrow> date \<Rightarrow> ReportStepsInput list \<Rightarrow> int" where
  "most_steps u d is = fold max (map rs_CumulativeStepsToday
     (filter (\<lambda>i. rs_UserID i = u \<and> rs_LocalDate i = d) is)) 0"

lemma fold_max_mono: "(m::int) \<le> m' \<Longrightarrow> fold max xs m \<le> fold max xs m'"
  by (induction xs arbitrary: m m') auto

lemma fold_max_init: "fold max xs (max m m') = max (fold max xs (m::int)) m'"
  proof (induction xs arbitrary: m)
  case (Cons a xs)
  have "max a (max m m') = max (max a m) m'" by simp
  then show ?case using Cons.IH [of "max a m"] by (simp only: fold.simps o_apply)
qed simp

lemma most_steps_Cons:
  "most_steps u d (i # is) = max (most_steps u d is)
     (if rs_UserID i = u \<and> rs_LocalDate i = d then rs_CumulativeStepsToday i else 0)"
  using fold_max_init [of "map rs_CumulativeStepsToday (filter (\<lambda>i. rs_UserID i = u \<and> rs_LocalDate i = d) is)"
      0 "rs_CumulativeStepsToday i"]
    fold_max_init [of "map rs_CumulativeStepsToday (filter (\<lambda>i. rs_UserID i = u \<and> rs_LocalDate i = d) is)" 0 0]
  by (simp add: most_steps_def max.commute)

lemma report_all_keeps:
  assumes "pg_idle s" and "steps_ok (committed s)" and "\<forall>i \<in> set is. in64 (rs_CumulativeStepsToday i)"
  shows "pg_idle (report_all is s) \<and> steps_ok (committed (report_all is s))
    \<and> hwm u d (committed (report_all is s)) \<le> max (hwm u d (committed s)) (most_steps u d is)"
  using assms
proof (induction "is" arbitrary: s)
  case Nil
  then show ?case by (simp add: report_all_def most_steps_def)
next
  case (Cons i "is")
  let ?s = "snd (ReportSteps i s)"
  have k: "pg_idle ?s \<and> steps_ok (committed ?s)" "hwm u d (committed ?s) \<le> max (hwm u d (committed s))
      (if (u, d) = (rs_UserID i, rs_LocalDate i) then rs_CumulativeStepsToday i else 0)"
    using report_keeps [OF Cons.prems(1,2) _ refl, of i] Cons.prems(3) by auto
  have "report_all (i # is) s = report_all is ?s" by (simp add: report_all_def)
  then show ?case using Cons.IH [of ?s] k Cons.prems(3) by (auto simp: most_steps_Cons split: if_splits)
qed

text \<open>One report, processed, replayed or failed: what the balance gains is what the day gains in the audit
  table, and at most what its mark gains.\<close>

lemma report_gain:
  assumes "pg_idle s" and ok: "steps_ok (committed s)" and n: "in64 (rs_CumulativeStepsToday i)"
    and s': "s' = snd (ReportSteps i s)"
  shows "\<exists>g. 0 \<le> g \<and> (\<forall>u. the (pg_balance s' u) = the (pg_balance s u) + (if u = rs_UserID i then g else 0))
    \<and> (\<forall>u d. day_credited u d (committed s') = day_credited u d (committed s)
          + (if (u, d) = (rs_UserID i, rs_LocalDate i) then g else 0)
        \<and> hwm u d (committed s) + (if (u, d) = (rs_UserID i, rs_LocalDate i) then g else 0) \<le> hwm u d (committed s'))"
proof (cases "ReportSteps i s")
  case (Pair out s1)
  have s1: "s1 = s'" using Pair s' by simp
  have "pg_idle s'" using report_keeps [OF assms] by blast
  then have same: ?thesis if "committed s' = committed s"
    using that pg_balance_cong [of s s'] idle_tables [OF assms(1)] idle_tables [of s'] by (intro exI [of _ 0]) simp
  show ?thesis
  proof (cases out)
    case (Inl e)
    then show ?thesis using ReportSteps_Inl [OF Pair [unfolded Inl] assms(1)] s1 same by simp
  next
    case (Inr r)
    show ?thesis
    proof (cases "has_report (rs_UserID i) (rs_ReportID i) (committed s)")
      case True
      then show ?thesis using ReportSteps_replay [OF Pair [unfolded Inr]] s1 same by simp
    next
      case False
      note eff = new_report_effect [OF Pair [unfolded Inr s1] assms(1) ok n False]
      show ?thesis
        using eff(1-3) eff(4,5) earned_bounds [of "rs_CumulativeStepsToday i"
            "hwm (rs_UserID i) (rs_LocalDate i) (committed s)" "cap_of (rs_UserID i) (committed s)"
            "day_credited (rs_UserID i) (rs_LocalDate i) (committed s)"]
        by (intro exI [of _ "rs_CreditedChips r"]) auto
    qed
  qed
qed

lemma report_all_gain:
  assumes "pg_idle s" and "steps_ok (committed s)" and "\<forall>i \<in> set is. in64 (rs_CumulativeStepsToday i)"
    and D: "finite D" "\<forall>i \<in> set is. rs_UserID i = u \<longrightarrow> rs_LocalDate i \<in> D"
  shows "the (pg_balance (report_all is s) u) = the (pg_balance s u)
      + (\<Sum>d \<in> D. day_credited u d (committed (report_all is s)) - day_credited u d (committed s))
    \<and> (\<forall>d. 0 \<le> day_credited u d (committed (report_all is s)) - day_credited u d (committed s)
        \<and> day_credited u d (committed (report_all is s)) - day_credited u d (committed s)
          \<le> hwm u d (committed (report_all is s)) - hwm u d (committed s))"
  using assms(1-3) D(2)
proof (induction "is" arbitrary: s)
  case Nil
  then show ?case by (simp add: report_all_def)
next
  case (Cons i "is")
  let ?s = "snd (ReportSteps i s)"
  obtain g where g: "0 \<le> g" "the (pg_balance ?s u) = the (pg_balance s u) + (if u = rs_UserID i then g else 0)"
    and dc: "\<And>d. day_credited u d (committed ?s) = day_credited u d (committed s)
      + (if (u, d) = (rs_UserID i, rs_LocalDate i) then g else 0)"
    and hw: "\<And>d. hwm u d (committed s) + (if (u, d) = (rs_UserID i, rs_LocalDate i) then g else 0) \<le> hwm u d (committed ?s)"
    using report_gain [OF Cons.prems(1,2) _ refl, of i] Cons.prems(3) by auto
  have k: "pg_idle ?s" "steps_ok (committed ?s)" using report_keeps [OF Cons.prems(1,2) _ refl, of i] Cons.prems(3) by auto
  have e: "report_all (i # is) s = report_all is ?s" by (simp add: report_all_def)
  note ih = Cons.IH [OF k]
  let ?t = "report_all is ?s"
  have "(\<Sum>d \<in> D. day_credited u d (committed ?s) - day_credited u d (committed s)) = (if u = rs_UserID i then g else 0)"
    using D(1) Cons.prems(4) by (simp add: dc sum.delta)
  moreover have "(\<Sum>d \<in> D. day_credited u d (committed ?t) - day_credited u d (committed s))
      = (\<Sum>d \<in> D. day_credited u d (committed ?t) - day_credited u d (committed ?s))
        + (\<Sum>d \<in> D. day_credited u d (committed ?s) - day_credited u d (committed s))"
    by (simp add: sum.distrib [symmetric])
  ultimately show ?case using ih Cons.prems(3,4) g dc hw unfolding e by (smt (verit) list.set_intros(2))
qed

definition report_days :: "uuid \<Rightarrow> ReportStepsInput list \<Rightarrow> date set" where
  "report_days u is = set (map rs_LocalDate (filter (\<lambda>i. rs_UserID i = u) is))"

text \<open>C40. Reports that are processed one after the other, however often and in whatever order a client
  sends them, replays and failures included: the balance of a user grows by exactly what the audit table
  gains over the days of the reports, and a day gains at most what the largest number of steps
  reported for it is above its mark. (Reports that overlap are another matter, see \<open>racing_reports\<close>.)\<close>

theorem reports_never_over_credit:
  assumes "pg_idle s" and "steps_ok (committed s)" and "\<forall>i \<in> set is. in64 (rs_CumulativeStepsToday i)"
    and "s' = report_all is s"
  shows "the (pg_balance s' u) = the (pg_balance s u)
      + (\<Sum>d \<in> report_days u is. day_credited u d (committed s') - day_credited u d (committed s))
    \<and> (\<forall>d. 0 \<le> day_credited u d (committed s') - day_credited u d (committed s)
        \<and> day_credited u d (committed s') - day_credited u d (committed s)
          \<le> max 0 (most_steps u d is - hwm u d (committed s)))
    \<and> the (pg_balance s' u)
      \<le> the (pg_balance s u) + (\<Sum>d \<in> report_days u is. max 0 (most_steps u d is - hwm u d (committed s)))"
proof -
  have "finite (report_days u is)" "\<forall>i \<in> set is. rs_UserID i = u \<longrightarrow> rs_LocalDate i \<in> report_days u is"
    by (auto simp: report_days_def)
  note g = report_all_gain [OF assms(1-3) this, folded assms(4)]
  have b: "0 \<le> day_credited u d (committed s') - day_credited u d (committed s)
    \<and> day_credited u d (committed s') - day_credited u d (committed s)
      \<le> max 0 (most_steps u d is - hwm u d (committed s))" for d
  proof -
    have "hwm u d (committed s') \<le> max (hwm u d (committed s)) (most_steps u d is)"
      using report_all_keeps [OF assms(1-3), of u d] assms(4) by blast
    then show ?thesis using g by (smt (verit))
  qed
  have "(\<Sum>d \<in> report_days u is. day_credited u d (committed s') - day_credited u d (committed s))
      \<le> (\<Sum>d \<in> report_days u is. max 0 (most_steps u d is - hwm u d (committed s)))"
    by (rule sum_mono) (use b in blast)
  then show ?thesis using g b by simp
qed

text \<open>A client that never got the answer to a report can send the same report again: it gets the
  same result and nothing in the database changes.\<close>

theorem resent_report_credits_once:
  assumes "ReportSteps i s = (Inr r, s')" and "pg_idle s" and "steps_ok (committed s)"
    and "in64 (rs_CumulativeStepsToday i)" and "faults s = []"
  shows "ReportSteps i s' = (Inr r, s')"
proof (cases "has_report (rs_UserID i) (rs_ReportID i) (committed s)")
  case True
  then have "s' = s" using ReportSteps_replay [OF assms(1)] assms(2) by (simp add: pg_idle_def)
  then show ?thesis using assms(1) by simp
next
  case False
  note eff = new_report_effect [OF assms(1-4) False]
  obtain row where row: "step_deposit_reports (committed s') = step_deposit_reports (committed s) @ [row]"
    "rr_user_id row = rs_UserID i" "rr_report_id row = rs_ReportID i" "rr_credited_chips row = rs_CreditedChips r"
    "rr_reason row = rs_Reason r" "rr_reported_at row = rs_ProcessedAt r"
    using eff(11) by blast
  let ?v = "tx_view s'"
  have up: "\<not> down q ?v" for q using assms(5) eff(9) by (simp add: down_def tx_view_def)
  have "find (\<lambda>r. rr_user_id r = rs_UserID i \<and> rr_report_id r = rs_ReportID i) (step_deposit_reports (committed s)) = None"
    using False by (auto simp: has_report_def find_None_iff)
  then have f: "q_FindDepositReportByReportID (rs_UserID i) (rs_ReportID i) ?v = Inr row"
    using row by (simp add: q_FindDepositReportByReportID_def q_find_def up find_append)
  obtain day where day: "q_GetDailyStepsForUpdate (rs_UserID i) (rs_LocalDate i) ?v = Inr day"
    "dr_max_steps day = rs_DailyHighWater r"
    using eff(7,10) by (auto simp: q_GetDailyStepsForUpdate_def q_find_def up hwm_def)
  have "pg_balance s' (rs_UserID i) = Some (rs_NewBalance r)" using eff(2) by simp
  then obtain snap where snap: "q_GetUserSnapshot (rs_UserID i) ?v = Inr snap" "us_ChipBalance snap = rs_NewBalance r"
    using idle_tables [OF eff(8)] by (auto simp: pg_balance_def q_GetUserSnapshot_def up)
  have "report_replay i row ?v = Inr r"
    by (simp add: report_replay_def snap day row)
  then have "ReportSteps i s' = (Inr r, ?v\<lparr>committed := tables ?v, open_tx := None\<rparr>)"
    unfolding ReportSteps_def using assms(5) eff(9)
    by (intro tx_run) (simp_all add: f)
  moreover have "?v\<lparr>committed := tables ?v, open_tx := None\<rparr> = s'"
    using eff(8) by (simp add: tx_view_def pg_idle_def tables_def)
  ultimately show ?thesis by simp
qed

section \<open>Two reports at a time\<close>

text \<open>Two transactions of which both have run the steps 1 to 4 before one of them comes to step 5.
  Where the day has a row, \<open>SELECT \<dots> FOR UPDATE\<close> makes the second wait; where it has none there is
  nothing to lock. From step 5 on the upsert of the row puts them one after the other.\<close>

definition racing_reports ::
  "ReportStepsInput \<Rightarrow> ReportStepsInput \<Rightarrow> Db
     \<Rightarrow> (go_err + ReportStepsResult) \<times> (go_err + ReportStepsResult) \<times> Db" where
  "racing_reports i1 i2 s =
     (case (steps_delta i1 (tx_view s), steps_delta i2 (tx_view s)) of
        (Inr c1, Inr c2) \<Rightarrow>
          (let (r1, s1) = tx (steps_write i1 c1) s; (r2, s2) = tx (steps_write i2 c2) s1 in (r1, r2, s2))
      | (Inl e, _) \<Rightarrow> (Inl e, Inl e, s)
      | (_, Inl e) \<Rightarrow> (Inl e, Inl e, s))"

lemma tx_steps_write:
  assumes "tx (steps_write i c) s = (Inr r, s')" and "in64 (fst c)" and "pg_idle s"
    and h: "0 \<le> hwm (rs_UserID i) (rs_LocalDate i) (committed s)"
  shows "rs_CreditedChips r = fst c" and "pg_idle s'"
    and "pg_balance s' = (pg_balance s)(rs_UserID i \<mapsto> the (pg_balance s (rs_UserID i)) + fst c)"
    and "hwm (rs_UserID i) (rs_LocalDate i) (committed s')
      = max (hwm (rs_UserID i) (rs_LocalDate i) (committed s)) (rs_CumulativeStepsToday i)"
    and "day_credited (rs_UserID i) (rs_LocalDate i) (committed s')
      = day_credited (rs_UserID i) (rs_LocalDate i) (committed s)
        + (if has_report (rs_UserID i) (rs_ReportID i) (committed s) then 0 else fst c)"
    and "has_report (rs_UserID i) (rs_ReportID i) (committed s')"
proof -
  obtain s2 where w: "steps_write i c (tx_view s) = (Inr r, s2)"
    and s': "s' = s2\<lparr>committed := tables s2, open_tx := None\<rparr>"
    using tx_Inr [OF assms(1)] by blast
  note eff = steps_write_effect [OF w assms(2), simplified, OF h]
  have t: "committed s' = tables s2" "tables s' = tables s2" by (simp_all add: s' tables_def)
  have b: "pg_balance s' = pg_balance s2" "pg_balance (tx_view s) = pg_balance s"
    using assms(3) by (auto intro!: pg_balance_cong simp: t idle_tables)
  show "rs_CreditedChips r = fst c" using eff by auto
  show "pg_idle s'" by (simp add: s' pg_idle_def)
  show "pg_balance s' = (pg_balance s)(rs_UserID i \<mapsto> the (pg_balance s (rs_UserID i)) + fst c)"
    using eff b by auto
  show "hwm (rs_UserID i) (rs_LocalDate i) (committed s')
      = max (hwm (rs_UserID i) (rs_LocalDate i) (committed s)) (rs_CumulativeStepsToday i)"
    using eff unfolding t by auto
  show "day_credited (rs_UserID i) (rs_LocalDate i) (committed s')
      = day_credited (rs_UserID i) (rs_LocalDate i) (committed s)
        + (if has_report (rs_UserID i) (rs_ReportID i) (committed s) then 0 else fst c)"
  proof (cases "has_report (rs_UserID i) (rs_ReportID i) (committed s)")
    case True
    then have "step_deposit_reports (tables s2) = step_deposit_reports (committed s)" using eff by auto
    then show ?thesis using True day_credited_same [of "tables s2" "committed s"] unfolding t by simp
  next
    case False
    then obtain row where row: "step_deposit_reports (tables s2) = step_deposit_reports (committed s) @ [row]"
      "rr_user_id row = rs_UserID i" "rr_credited_chips row = fst c" "rr_local_date row = rs_LocalDate i"
      using eff by auto
    show ?thesis using day_credited_snoc [OF row(1)] row False unfolding t by simp
  qed
  show "has_report (rs_UserID i) (rs_ReportID i) (committed s')"
  proof (cases "has_report (rs_UserID i) (rs_ReportID i) (committed s)")
    case True
    then have "step_deposit_reports (tables s2) = step_deposit_reports (committed s)" using eff by auto
    then show ?thesis using True by (simp add: t has_report_def)
  next
    case False
    then obtain row where "step_deposit_reports (tables s2) = step_deposit_reports (committed s) @ [row]"
      "rr_user_id row = rs_UserID i" "rr_report_id row = rs_ReportID i"
      using eff by auto
    then show ?thesis by (simp add: t has_report_def)
  qed
qed

text \<open>C31. Two copies of the first report of a day that race credit the steps twice: both find no
  high-water mark, the second insert into \<open>step_deposit_reports\<close> does nothing, and its delta is
  added to the balance all the same. The audit shows the chips once.\<close>

theorem first_reports_race:
  assumes "racing_reports i i s = (Inr r1, Inr r2, s')" and "pg_idle s" and "steps_ok (committed s)"
    and "in64 (rs_CumulativeStepsToday i)" and "0 < rs_CumulativeStepsToday i"
    and "hwm (rs_UserID i) (rs_LocalDate i) (committed s) = 0"
    and "cap_of (rs_UserID i) (committed s) = 0"
    and "\<not> has_report (rs_UserID i) (rs_ReportID i) (committed s)"
  shows "pg_balance s' (rs_UserID i)
      = Some (the (pg_balance s (rs_UserID i)) + 2 * rs_CumulativeStepsToday i)
    \<and> day_credited (rs_UserID i) (rs_LocalDate i) (committed s') = rs_CumulativeStepsToday i
    \<and> hwm (rs_UserID i) (rs_LocalDate i) (committed s') = rs_CumulativeStepsToday i"
proof -
  obtain c s1 where c: "steps_delta i (tx_view s) = Inr c" and w1: "tx (steps_write i c) s = (Inr r1, s1)"
    and w2: "tx (steps_write i c) s1 = (Inr r2, s')"
    using assms(1) by (auto simp: racing_reports_def split: sum.splits prod.splits)
  have e: "fst c = rs_CumulativeStepsToday i"
    using steps_delta_earned [OF c] assms by (simp add: earned_def Let_def)
  have in64: "in64 (fst c)" using e assms(4) by simp
  note one = tx_steps_write [OF w1 in64 assms(2)]
  note two = tx_steps_write [OF w2 in64 one(2)]
  have "day_credited (rs_UserID i) (rs_LocalDate i) (committed s) = 0"
    using steps_okD(1,2) [OF assms(3), of "rs_UserID i" "rs_LocalDate i"] assms(6) by simp
  then show ?thesis using one two e assms(5-8) by simp
qed

section \<open>A user and a walk\<close>

definition walker_tables :: Tables where
  "walker_tables = \<lparr>game_configs = [], game_events = [], game_snapshots = [],
     users = [\<lparr>ur_id = ''u'', ur_display_name = ''Ann'', ur_external_id = None, ur_timezone = ''UTC'',
               ur_max_daily_deposit = 0, ur_created_at = 0, ur_deleted = False\<rparr>],
     user_snapshots = [(''u'', \<lparr>us_UserID = ''u'', us_ChipBalance = 100, us_TotalDeposited = 100,
               us_TotalReports = 1, us_LastDepositAt = None, us_LastActivityAt = 0\<rparr>)],
     user_daily_steps = [], step_deposit_reports = []\<rparr>"

definition walker_db :: Db where
  "walker_db = \<lparr>committed = walker_tables, open_tx = None, db_now = 7, faults = []\<rparr>"

definition walk :: ReportStepsInput where
  "walk = \<lparr>rs_UserID = ''u'', rs_ReportID = ''r'', rs_CumulativeStepsToday = 3000,
     rs_ClientReportedAt = 6, rs_LocalDate = (2026, 5, 1)\<rparr>"

lemma walker_db_facts:
  "pg_idle walker_db" "faults walker_db = []" "steps_ok (committed walker_db)"
  "in64 (rs_CumulativeStepsToday walk)" "0 < rs_CumulativeStepsToday walk"
  "hwm u d (committed walker_db) = 0" "cap_of (rs_UserID walk) (committed walker_db) = 0"
  "\<not> has_report (rs_UserID walk) (rs_ReportID walk) (committed walker_db)"
  "pg_balance walker_db (rs_UserID walk) = Some 100" "day_credited u d (committed walker_db) = 0"
  by (simp_all add: walker_db_def walker_tables_def walk_def pg_idle_def steps_ok_def day_credited_def hwm_def
      in64_def cap_of_def has_report_def pg_balance_def tables_def)

lemma walk_reported: "\<exists>r s'. ReportSteps walk walker_db = (Inr r, s')"
proof -
  have "(case fst (ReportSteps walk walker_db) of Inl _ \<Rightarrow> False | Inr _ \<Rightarrow> True)" by code_simp
  then show ?thesis by (cases "ReportSteps walk walker_db") (auto split: sum.splits)
qed

lemma earned_walk: "earned (rs_CumulativeStepsToday walk) 0 0 0 = 3000"
  by (simp add: earned_def walk_def)

theorem report_credits_new_steps_witness:
  "\<exists>r s'. ReportSteps walk walker_db = (Inr r, s') \<and> rs_CreditedChips r = 3000
     \<and> pg_balance s' ''u'' = Some 3100"
proof -
  obtain r s' where rep: "ReportSteps walk walker_db = (Inr r, s')" using walk_reported by blast
  have "rs_UserID walk = ''u''" by (simp add: walk_def)
  then show ?thesis
    using report_credits_new_steps [OF rep walker_db_facts(1,3,4,8)] rep earned_walk walker_db_facts
    by (intro exI [of _ r] exI [of _ s']) auto
qed

theorem reports_never_over_credit_witness:
  "the (pg_balance (report_all [walk, walk, walk\<lparr>rs_ReportID := ''q''\<rparr>] walker_db) ''u'') \<le> 100 + 3000"
proof -
  let ?is = "[walk, walk, walk\<lparr>rs_ReportID := ''q''\<rparr>]"
  have "most_steps ''u'' (2026, 5, 1) ?is = 3000" by (simp add: most_steps_def walk_def)
  moreover have "report_days ''u'' ?is = {(2026, 5, 1)}" by (simp add: report_days_def walk_def)
  moreover have "the (pg_balance walker_db ''u'') = 100" using walker_db_facts(9) by (simp add: walk_def)
  ultimately show ?thesis
    using reports_never_over_credit [OF walker_db_facts(1,3), of ?is _ "''u''"] walker_db_facts(4,6) by simp
qed

theorem resent_report_credits_once_witness:
  "\<exists>r s'. ReportSteps walk walker_db = (Inr r, s') \<and> ReportSteps walk s' = (Inr r, s')"
proof -
  obtain r s' where rep: "ReportSteps walk walker_db = (Inr r, s')" using walk_reported by blast
  then show ?thesis using resent_report_credits_once [OF rep walker_db_facts(1,3,4,2)] by blast
qed

theorem first_reports_race_witness:
  "\<exists>r1 r2 s'. racing_reports walk walk walker_db = (Inr r1, Inr r2, s') \<and> pg_balance s' ''u'' = Some 6100
     \<and> hwm ''u'' (2026, 5, 1) (committed s') = 3000"
proof -
  have "(case racing_reports walk walk walker_db of (Inr _, Inr _, _) \<Rightarrow> True | _ \<Rightarrow> False)" by code_simp
  then obtain r1 r2 s' where rep: "racing_reports walk walk walker_db = (Inr r1, Inr r2, s')"
    by (cases "racing_reports walk walk walker_db"; cases "fst (racing_reports walk walk walker_db)";
        cases "fst (snd (racing_reports walk walk walker_db))") auto
  have "rs_UserID walk = ''u''" "rs_LocalDate walk = (2026, 5, 1)" "rs_CumulativeStepsToday walk = 3000"
    by (simp_all add: walk_def)
  then show ?thesis
    using first_reports_race [OF rep walker_db_facts(1,3,4,5,6,7,8)] rep walker_db_facts(9) by auto
qed

end
