(* ===== verification/Auth.thy ===== *)
theory Auth
  imports Users "HOL-Library.Word"
begin

unbundle bit_operations_syntax

text \<open>
  \<open>src/internal/auth\<close>: who sends a request. A token is checked by a third-party validator, the
  argument \<open>validate\<close>; its subject is mapped to a user of the store, who is created at the first
  request. The mapping is kept in a third-party LRU cache: its operations are a record of
  arguments, and all that is relied on is that it gives back only what was put into it
  (\<open>lru\<close>). \<open>meanwhile\<close> is what other requests commit between the look-up of a subject and the
  insert of the new user.
\<close>

section \<open>Names of new players\<close>

definition fnv32a :: "string \<Rightarrow> 32 word" where
  "fnv32a = foldl (\<lambda>h c. (h XOR of_char c) * 16777619) 2166136261"

definition hex_digit :: "32 word \<Rightarrow> nat \<Rightarrow> char" where
  "hex_digit w i = ''0123456789abcdef'' ! unat (drop_bit (4 * i) w AND 15)"

definition shortHash :: "string \<Rightarrow> string" where
  \<comment> \<open>\<open>fmt.Sprintf("%08x", h.Sum32())\<close>\<close>
  "shortHash s = map (hex_digit (fnv32a s)) [7, 6, 5, 4, 3, 2, 1, 0]"

section \<open>Resolving a subject\<close>

record customClaims =
  cc_DisplayName :: string
  cc_Email :: string

record Principal =
  pr_UserID :: uuid
  pr_ExternalID :: string
  pr_DisplayName :: string
  pr_Email :: string

record 'c userCache =
  cache_Get :: "string \<Rightarrow> 'c \<Rightarrow> uuid option \<times> 'c"
  cache_Put :: "string \<Rightarrow> uuid \<Rightarrow> 'c \<Rightarrow> 'c"

definition cache_lookup :: "'c userCache \<Rightarrow> string \<Rightarrow> 'c option \<Rightarrow> uuid option \<times> 'c option" where
  "cache_lookup ops sub c = (case c of None \<Rightarrow> (None, None) | Some k \<Rightarrow> apsnd Some (cache_Get ops sub k))"

definition remember :: "'c userCache \<Rightarrow> string \<Rightarrow> uuid \<Rightarrow> 'c option \<Rightarrow> 'c option" where
  "remember ops sub u = map_option (cache_Put ops sub u)"

definition display_name :: "string \<Rightarrow> customClaims option \<Rightarrow> string" where
  "display_name sub custom =
     (let d = (case custom of None \<Rightarrow> [] | Some cc \<Rightarrow> cc_DisplayName cc)
      in if d = [] then ''Player '' @ shortHash sub else d)"

definition resolveUser ::
  "'c userCache \<Rightarrow> (Db \<Rightarrow> Db) \<Rightarrow> uuid \<Rightarrow> string \<Rightarrow> customClaims option \<Rightarrow> 'c option \<times> Db
     \<Rightarrow> (go_err + uuid) \<times> 'c option \<times> Db" where
  "resolveUser ops meanwhile newID sub custom = (\<lambda>(c, s).
     case cache_lookup ops sub c of
       (Some u, c1) \<Rightarrow> (Inr u, c1, s)
     | (None, c1) \<Rightarrow>
         (case GetUserByExternalID sub s of
            Inr (user, _) \<Rightarrow> (Inr (u_ID user), remember ops sub (u_ID user) c1, s)
          | Inl e \<Rightarrow>
              if \<not> errors_Is e ErrNotFound then (Inl (Wrap ''lookup user: '' e), c1, s)
              else
                (case CreateUser newID \<lparr>ui_ID = newID, ui_DisplayName = display_name sub custom,
                        ui_ExternalID = sub, ui_Timezone = ''UTC'', ui_MaxDailyDeposit = 0\<rparr> (meanwhile s) of
                   (Inr (created, _), s1) \<Rightarrow> (Inr (u_ID created), remember ops sub (u_ID created) c1, s1)
                 | (Inl e1, s1) \<Rightarrow>
                     (case GetUserByExternalID sub s1 of
                        Inl _ \<Rightarrow> (Inl (Wrap ''provision user (after conflict): '' e1), c1, s1)
                      | Inr (user, _) \<Rightarrow> (Inr (u_ID user), remember ops sub (u_ID user) c1, s1)))))"

definition Verify ::
  "'c userCache \<Rightarrow> (string \<Rightarrow> (string \<times> customClaims option) option) \<Rightarrow> (Db \<Rightarrow> Db) \<Rightarrow> uuid \<Rightarrow> string
     \<Rightarrow> 'c option \<times> Db \<Rightarrow> (go_err + Principal) \<times> 'c option \<times> Db" where
  "Verify ops validate meanwhile newID token cs =
     (case validate token of
        None \<Rightarrow> (Inl (NewError ''validate token''), cs)
      | Some (sub, custom) \<Rightarrow>
          if sub = [] then (Inl (NewError ''auth: token missing sub claim''), cs)
          else
            (case resolveUser ops meanwhile newID sub custom cs of
               (Inl e, cs1) \<Rightarrow> (Inl (Wrap ''resolve user: '' e), cs1)
             | (Inr u, cs1) \<Rightarrow>
                 (Inr \<lparr>pr_UserID = u, pr_ExternalID = sub,
                    pr_DisplayName = (case custom of None \<Rightarrow> [] | Some cc \<Rightarrow> cc_DisplayName cc),
                    pr_Email = (case custom of None \<Rightarrow> [] | Some cc \<Rightarrow> cc_Email cc)\<rparr>, cs1)))"

section \<open>The interceptor\<close>

datatype codes = InvalidArgument | FailedPrecondition | AlreadyExists | ResourceExhausted | NotFound
  | Unavailable | Internal | Unauthenticated | PermissionDenied | Unimplemented

text \<open>The metadata of a request: the values of each key. A status is its code; the text that goes with
  it is left out.\<close>

definition tryDevStub :: "(string \<Rightarrow> uuid option) \<Rightarrow> (string \<Rightarrow> string list) option \<Rightarrow> Principal option" where
  "tryDevStub parse md =
     (case md of
        None \<Rightarrow> None
      | Some m \<Rightarrow>
          (case m ''x-dev-player-id'' of
             [] \<Rightarrow> None
           | v # _ \<Rightarrow>
               map_option (\<lambda>u. \<lparr>pr_UserID = u, pr_ExternalID = ''dev:'' @ v, pr_DisplayName = [], pr_Email = []\<rparr>)
                 (parse v)))"

definition TrimPrefix :: "string \<Rightarrow> string \<Rightarrow> string" where
  "TrimPrefix s p = (if take (length p) s = p then drop (length p) s else s)"

definition authContext ::
  "'c userCache \<Rightarrow> (string \<Rightarrow> uuid option) \<Rightarrow> (string \<Rightarrow> (string \<times> customClaims option) option) \<Rightarrow> (Db \<Rightarrow> Db)
     \<Rightarrow> uuid \<Rightarrow> bool \<Rightarrow> (string \<Rightarrow> string list) option \<Rightarrow> 'c option \<times> Db
     \<Rightarrow> (codes + Principal) \<times> 'c option \<times> Db" where
  "authContext ops parse validate meanwhile newID DevModeAllowStubAuth md cs =
     (case (if DevModeAllowStubAuth then tryDevStub parse md else None) of
        Some p \<Rightarrow> (Inr p, cs)
      | None \<Rightarrow>
          (case md of
             None \<Rightarrow> (Inl Unauthenticated, cs)
           | Some m \<Rightarrow>
               (case m ''authorization'' of
                  [] \<Rightarrow> (Inl Unauthenticated, cs)
                | raw # _ \<Rightarrow>
                    let token = TrimPrefix raw ''Bearer ''
                    in if token = raw \<or> token = [] then (Inl Unauthenticated, cs)
                       else
                         (case Verify ops validate meanwhile newID token cs of
                            (Inl e, cs1) \<Rightarrow> (Inl Unauthenticated, cs1)
                          | (Inr p, cs1) \<Rightarrow> (Inr p, cs1)))))"

definition PublicMethods :: "string list" where
  "PublicMethods = [''/grpc.health.v1.Health/Check'', ''/grpc.health.v1.Health/Watch'']"

text \<open>Both interceptors: a public method runs without a principal, any other one with the principal of
  the request or not at all.\<close>

definition Interceptor ::
  "('x \<Rightarrow> (codes + Principal) \<times> 'x) \<Rightarrow> string \<Rightarrow> (Principal option \<Rightarrow> 'x \<Rightarrow> (codes + 'r) \<times> 'x) \<Rightarrow> 'x
     \<Rightarrow> (codes + 'r) \<times> 'x" where
  "Interceptor authenticate fullMethod handler x =
     (if fullMethod \<in> set PublicMethods then handler None x
      else case authenticate x of
             (Inl e, x1) \<Rightarrow> (Inl e, x1)
           | (Inr p, x1) \<Rightarrow> handler (Some p) x1)"

section \<open>Lemmas\<close>

lemma display_name_default: "display_name sub None = ''Player '' @ shortHash sub" "length (shortHash sub) = 8"
  by (simp_all add: display_name_def shortHash_def)

text \<open>The user of a subject.\<close>

definition owner :: "Tables \<Rightarrow> string \<Rightarrow> uuid option" where
  "owner t sub = map_option ur_id (find (\<lambda>r. ur_external_id r = Some sub \<and> \<not> ur_deleted r) (users t))"

text \<open>What ties a row of \<open>users\<close> to a subject, and the growth of the table: rows are added, and the
  rows that were there keep their identifier and their subject; names, time zones and caps may change.\<close>

definition identity :: "user_row \<Rightarrow> uuid \<times> string option \<times> bool" where
  "identity r = (ur_id r, ur_external_id r, ur_deleted r)"

definition users_ok :: "Db \<Rightarrow> bool" where
  \<comment> \<open>the primary key\<close>
  "users_ok s \<longleftrightarrow> pg_idle s \<and> distinct (map ur_id (users (committed s)))"

definition users_grow :: "Db \<Rightarrow> Db \<Rightarrow> bool" where
  "users_grow s s' \<longleftrightarrow> users_ok s'
     \<and> (\<exists>rows. map identity (users (committed s')) = map identity (users (committed s)) @ rows)"

definition lru :: "'c userCache \<Rightarrow> ('c \<Rightarrow> (string \<times> uuid) set) \<Rightarrow> bool" where
  "lru ops holds \<longleftrightarrow>
     (\<forall>c k. holds (snd (cache_Get ops k c)) \<subseteq> holds c
        \<and> (\<forall>v. fst (cache_Get ops k c) = Some v \<longrightarrow> (k, v) \<in> holds c))
     \<and> (\<forall>c k v. holds (cache_Put ops k v c) \<subseteq> insert (k, v) (holds c))"

definition entries :: "('c \<Rightarrow> (string \<times> uuid) set) \<Rightarrow> 'c option \<Rightarrow> (string \<times> uuid) set" where
  "entries holds c = (case c of None \<Rightarrow> {} | Some k \<Rightarrow> holds k)"

definition cache_right :: "('c \<Rightarrow> (string \<times> uuid) set) \<Rightarrow> 'c option \<times> Db \<Rightarrow> bool" where
  "cache_right holds cs \<longleftrightarrow> users_ok (snd cs)
     \<and> (\<forall>sub u. (sub, u) \<in> entries holds (fst cs) \<longrightarrow> owner (committed (snd cs)) sub = Some u)"

lemma entries_remember:
  "lru ops holds \<Longrightarrow> entries holds (remember ops sub u c) \<subseteq> insert (sub, u) (entries holds c)"
  unfolding lru_def by (cases c) (simp_all add: entries_def remember_def)

lemma entries_lookup:
  assumes "lru ops holds" and "cache_lookup ops sub c = (r, c1)"
  shows "entries holds c1 \<subseteq> entries holds c" and "r = Some u \<Longrightarrow> (sub, u) \<in> entries holds c"
proof -
  have "entries holds c1 \<subseteq> entries holds c \<and> (r = Some u \<longrightarrow> (sub, u) \<in> entries holds c)"
  proof (cases c)
    case (Some k)
    have l: "holds (snd (cache_Get ops sub k)) \<subseteq> holds k"
      "fst (cache_Get ops sub k) = Some u \<Longrightarrow> (sub, u) \<in> holds k"
      using assms(1) by (simp_all add: lru_def)
    have "r = fst (cache_Get ops sub k)" "c1 = Some (snd (cache_Get ops sub k))"
      using assms(2) Some by (simp_all add: cache_lookup_def apsnd_def map_prod_def prod.case_eq_if)
    then show ?thesis using l Some by (simp add: entries_def)
  qed (use assms(2) in \<open>simp add: cache_lookup_def entries_def\<close>)
  then show "entries holds c1 \<subseteq> entries holds c" "r = Some u \<Longrightarrow> (sub, u) \<in> entries holds c" by simp_all
qed

lemma users_okD: "users_ok s \<Longrightarrow> pg_idle s"
  by (simp add: users_ok_def)

lemma users_grow_same: "users_ok s \<Longrightarrow> pg_idle s' \<Longrightarrow> users (committed s') = users (committed s) \<Longrightarrow> users_grow s s'"
  by (simp add: users_grow_def users_ok_def)

lemma owner_identity:
  "owner t sub = map_option fst (find (\<lambda>(i, x, d). x = Some sub \<and> \<not> d) (map identity (users t)))"
proof -
  have "map_option ur_id (find (\<lambda>r. ur_external_id r = Some sub \<and> \<not> ur_deleted r) rs)
    = map_option fst (find (\<lambda>(i, x, d). x = Some sub \<and> \<not> d) (map identity rs))" for rs
    by (induction rs) (auto simp: identity_def)
  then show ?thesis by (simp add: owner_def)
qed

lemma owner_grows: "users_grow s s' \<Longrightarrow> owner (committed s) sub = Some u \<Longrightarrow> owner (committed s') sub = Some u"
  by (auto simp: users_grow_def owner_identity find_append split: option.splits)

lemma users_grow_trans: "users_grow s s1 \<Longrightarrow> users_grow s1 s2 \<Longrightarrow> users_grow s s2"
  by (auto simp: users_grow_def)

lemma GetUserByExternalID_owner:
  "GetUserByExternalID sub s = Inr (user, snap) \<Longrightarrow> pg_idle s \<Longrightarrow> owner (committed s) sub = Some (u_ID user)"
  by (auto simp: GetUserByExternalID_def q_GetUserByExternalID_def q_find_def snapshot_of_def owner_def
      rowToUser_def idle_tables split: if_splits option.splits sum.splits)

lemma tx_idle: "tx fn s = (r, s') \<Longrightarrow> pg_idle s \<Longrightarrow> pg_idle s'"
  by (auto simp: tx_def WithTx_def pgStore_def pg_Begin_def pg_Commit_def pg_Rollback_def pg_idle_def
      split: if_splits prod.splits sum.splits)

lemma q_CreateUser_effect:
  assumes "q_CreateUser u name ext tz cap s = (r, s')"
  shows "case r of Inl e \<Rightarrow> s' = s
    | Inr row \<Rightarrow> s' = upd_tables (\<lambda>t. t\<lparr>users := users t @ [row]\<rparr>) s \<and> ur_id row = u
        \<and> ur_external_id row = nullif_empty ext \<and> \<not> ur_deleted row \<and> (\<forall>q \<in> set (users (tables s)). ur_id q \<noteq> u)
        \<and> (ext \<noteq> [] \<longrightarrow> (\<forall>q \<in> set (users (tables s)). ur_external_id q \<noteq> Some ext))"
  using assms by (auto simp: q_CreateUser_def Let_def split: if_splits)

lemma q_CreateUserSnapshot_effect:
  "q_CreateUserSnapshot u s = (r, s') \<Longrightarrow> users (tables s') = users (tables s)
     \<and> (open_tx s \<noteq> None \<longrightarrow> committed s' = committed s)"
  by (auto simp: q_CreateUserSnapshot_def Let_def upd_tables_open split: if_splits)

lemma CreateUser_effect:
  assumes "CreateUser n input s = (r, s')" and "users_ok s"
  shows "users_grow s s' \<and> (\<forall>user snap. r = Inr (user, snap) \<longrightarrow> ui_ExternalID input \<noteq> []
    \<longrightarrow> owner (committed s') (ui_ExternalID input) = Some (u_ID user))"
proof -
  let ?ext = "ui_ExternalID input" and ?u = "if ui_ID input = uuid_Nil then n else ui_ID input"
  let ?tz = "if ui_Timezone input = [] then ''UTC'' else ui_Timezone input"
  let ?q = "q_CreateUser ?u (ui_DisplayName input) ?ext ?tz (ui_MaxDailyDeposit input)"
  let ?body = "\<lambda>s1. case ?q s1 of
      (Inl e, s2) \<Rightarrow> (Inl (if e = UniqueViolation then ErrDuplicateExternalID
                            else Wrap ''insert user: '' db_error), s2)
    | (Inr row, s2) \<Rightarrow>
        (case q_CreateUserSnapshot ?u s2 of
           (Inl e, s3) \<Rightarrow> (Inl (Wrap ''create user snapshot: '' db_error), s3)
         | (Inr snap, s3) \<Rightarrow> (Inr (rowToUser row, snap), s3))"
  have body: "tx ?body s = (r, s')" using assms(1) unfolding CreateUser_def Let_def .
  have idle: "pg_idle s'" by (rule tx_idle [OF body users_okD [OF assms(2)]])
  show ?thesis
  proof (cases r)
    case (Inr us)
    obtain s3 where b: "?body (tx_view s) = (Inr us, s3)" and s': "s' = s3\<lparr>committed := tables s3, open_tx := None\<rparr>"
      using tx_Inr [OF body [unfolded Inr]] by blast
    obtain row s2 where q: "?q (tx_view s) = (Inr row, s2)"
      and q2: "q_CreateUserSnapshot ?u s2 = (Inr (snd us), s3)" and us: "fst us = rowToUser row"
      using b by (cases "?q (tx_view s)"; cases "fst (?q (tx_view s))") (auto split: prod.splits sum.splits)
    note e = q_CreateUser_effect [OF q, simplified]
    have new: "users (committed s') = users (committed s) @ [row]"
      using q_CreateUserSnapshot_effect [OF q2] e by (simp add: s')
    then have "users_grow s s'"
      using e assms(2) idle by (auto simp: users_grow_def users_ok_def)
    moreover have "find (\<lambda>r. ur_external_id r = Some ?ext \<and> \<not> ur_deleted r) (users (committed s)) = None" if "?ext \<noteq> []"
      using e that by (auto simp: find_None_iff)
    ultimately show ?thesis
      using e us Inr new by (auto simp: owner_def find_append rowToUser_def nullif_empty_def)
  next
    case (Inl e)
    have "committed s' = committed s"
    proof (rule tx_Inl [OF body [unfolded Inl] users_okD [OF assms(2)]])
      fix r' s3 assume b: "?body (tx_view s) = (r', s3)"
      obtain x s2 where q: "?q (tx_view s) = (x, s2)" by fastforce
      have "committed s2 = committed s \<and> open_tx s2 \<noteq> None"
        using q_CreateUser_effect [OF q] open_tx_view [of s] upd_tables_open [OF open_tx_view, of _ s]
        by (cases x) auto
      then show "committed s3 = committed s"
        using b q q_CreateUserSnapshot_effect [of ?u s2] by (auto split: sum.splits prod.splits)
    qed
    then show ?thesis using Inl idle users_grow_same [OF assms(2)] by simp
  qed
qed

text \<open>One request: the user of the subject, the users only grow, the cache stays right.\<close>

lemma resolveUser_right:
  assumes r: "resolveUser ops meanwhile n sub custom cs = (res, cs')" and lru: "lru ops holds"
    and right: "cache_right holds cs" and others: "\<And>s. users_ok s \<Longrightarrow> users_grow s (meanwhile s)"
    and sub: "sub \<noteq> []"
  shows "(\<forall>u. res = Inr u \<longrightarrow> owner (committed (snd cs')) sub = Some u)
    \<and> users_grow (snd cs) (snd cs') \<and> cache_right holds cs'"
proof -
  obtain c s where cs: "cs = (c, s)" by (cases cs)
  obtain x c1 where x: "cache_lookup ops sub c = (x, c1)" by fastforce
  have ok: "users_ok s" and idle: "pg_idle s" and ent: "\<And>k v. (k, v) \<in> entries holds c \<Longrightarrow> owner (committed s) k = Some v"
    using right by (auto simp: cache_right_def cs users_ok_def)
  note look = entries_lookup [OF lru x]
  have keep: ?thesis
    if "users_grow s s2" "cs' = (c2, s2)" "\<And>u. res = Inr u \<Longrightarrow> owner (committed s2) sub = Some u"
      "c2 = c1 \<or> (\<exists>u. res = Inr u \<and> c2 = remember ops sub u c1)" for c2 s2
  proof -
    have "entries holds c2 \<subseteq> entries holds c \<union> {(sub, u) | u. res = Inr u}"
      using that(4) look(1) entries_remember [OF lru, of sub _ c1] by blast
    then have "cache_right holds cs'"
      using that(1-3) ent owner_grows [OF that(1)] by (auto simp: cache_right_def users_grow_def)
    then show ?thesis using that by (simp add: cs)
  qed
  have refl: "users_grow s s" using ok idle by (simp add: users_grow_same)
  show ?thesis
  proof (cases x)
    case (Some v)
    then have "res = Inr v" "cs' = (c1, s)" using r x by (simp_all add: resolveUser_def cs)
    then show ?thesis using keep [of s c1] look(2) ent Some refl by auto
  next
    case None
    show ?thesis
    proof (cases "GetUserByExternalID sub s")
      case (Inr us)
      then have "res = Inr (u_ID (fst us))" "cs' = (remember ops sub (u_ID (fst us)) c1, s)"
        using r x None by (auto simp: resolveUser_def cs split: prod.splits)
      then show ?thesis using keep [of s] GetUserByExternalID_owner [of sub s "fst us" "snd us"] Inr idle refl by auto
    next
      case (Inl e)
      let ?in = "\<lparr>ui_ID = n, ui_DisplayName = display_name sub custom, ui_ExternalID = sub,
        ui_Timezone = ''UTC'', ui_MaxDailyDeposit = 0\<rparr>"
      obtain y s1 where y: "CreateUser n ?in (meanwhile s) = (y, s1)" by fastforce
      note m = others [OF ok]
      have ef: "users_grow (meanwhile s) s1" "\<And>user snap. y = Inr (user, snap) \<Longrightarrow> owner (committed s1) sub = Some (u_ID user)"
        using CreateUser_effect [OF y] m sub by (auto simp: users_grow_def)
      have gr: "users_grow s s1" by (rule users_grow_trans [OF m ef(1)])
      consider (gone) "\<exists>e. res = Inl e" "cs' = (c1, s)" | (made) us where "y = Inr us" "res = Inr (u_ID (fst us))" "cs' = (remember ops sub (u_ID (fst us)) c1, s1)"
        | (lost) "\<exists>e. res = Inl e" "cs' = (c1, s1)"
        | (found) us where "GetUserByExternalID sub s1 = Inr us" "res = Inr (u_ID (fst us))" "cs' = (remember ops sub (u_ID (fst us)) c1, s1)"
        using r x None Inl y by (auto simp: resolveUser_def cs split: prod.splits if_splits sum.splits)
      then show ?thesis
      proof cases
        case gone then show ?thesis using keep [of s c1] refl by auto
      next
        case (made us) then show ?thesis using keep [of s1] ef(2) [of "fst us" "snd us"] gr by auto
      next
        case lost then show ?thesis using keep [of s1 c1] gr by auto
      next
        case (found us) then show ?thesis
          using keep [of s1] GetUserByExternalID_owner [of sub s1 "fst us" "snd us"] gr by (auto simp: users_grow_def users_ok_def)
      qed
    qed
  qed
qed

text \<open>A cache that keeps everything.\<close>

definition list_cache :: "(string \<times> uuid) list userCache" where
  "list_cache = \<lparr>cache_Get = \<lambda>k c. (map_of c k, c), cache_Put = \<lambda>k u c. (k, u) # c\<rparr>"

lemma list_cache_lru: "lru list_cache set"
  by (auto simp: lru_def list_cache_def dest: map_of_SomeD)

definition ann_claims :: customClaims where
  "ann_claims = \<lparr>cc_DisplayName = ''Ann'', cc_Email = []\<rparr>"

lemma walker_db_users_ok: "users_ok walker_db"
  by (simp add: users_ok_def walker_db_facts(1)) (simp add: walker_db_def walker_tables_def)

end
