(* ===== verification/UserService.thy ===== *)
theory UserService
  imports Auth
begin

text \<open>
  \<open>src/internal/user/service.go\<close>: the requests of the user service. The principal of the request is
  an argument, \<^const>\<open>None\<close> where no interceptor put one in the context; \<open>parse\<close> is \<open>uuid.Parse\<close>,
  \<open>zones\<close> is \<open>time.LoadLocation\<close>, which reads a database of the system, and \<open>UTC\<close> and a zone are
  what \<open>DateOf(now.In(zone))\<close> gives. The messages of the answers are the records of the store. Two
  properties span these requests and the authenticator: a request changes nothing of others, and a
  subject keeps its user whatever commits in the database.
\<close>

type_synonym zone = "timestamp \<Rightarrow> date"

section \<open>Helpers\<close>

definition parseUserID :: "(string \<Rightarrow> uuid option) \<Rightarrow> string \<Rightarrow> codes + uuid" where
  "parseUserID parse x =
     (if x = [] then Inl InvalidArgument
      else case parse x of None \<Rightarrow> Inl InvalidArgument | Some u \<Rightarrow> Inr u)"

definition requireSelf :: "Principal option \<Rightarrow> uuid \<Rightarrow> codes option" where
  "requireSelf ctx target =
     (case ctx of
        None \<Rightarrow> Some Unauthenticated
      | Some p \<Rightarrow> if pr_UserID p \<noteq> target then Some PermissionDenied else None)"

text \<open>The first lines of every request but \<open>CreateUser\<close>.\<close>

definition own_account :: "(string \<Rightarrow> uuid option) \<Rightarrow> Principal option \<Rightarrow> string \<Rightarrow> codes + uuid" where
  "own_account parse ctx x =
     (case parseUserID parse x of
        Inl e \<Rightarrow> Inl e
      | Inr u \<Rightarrow> (case requireSelf ctx u of Some e \<Rightarrow> Inl e | None \<Rightarrow> Inr u))"

definition localDateForUser ::
  "(string \<Rightarrow> zone option) \<Rightarrow> zone \<Rightarrow> timestamp \<Rightarrow> uuid \<Rightarrow> Db \<Rightarrow> codes + date" where
  "localDateForUser zones UTC now u s =
     (case GetUser u s of
        Inl e \<Rightarrow> Inl (if e = ErrNotFound then NotFound else Internal)
      | Inr (user, _) \<Rightarrow>
          let tz = (if u_Timezone user = [] then ''UTC'' else u_Timezone user);
              loc = (case zones tz of None \<Rightarrow> UTC | Some z \<Rightarrow> z)
          in Inr (loc now))"

fun decimal :: "nat \<Rightarrow> string" where
  "decimal n = (if n < 10 then [''0123456789'' ! n] else decimal (n div 10) @ [''0123456789'' ! (n mod 10)])"

declare decimal.simps [simp del]

definition zero_padded :: "nat \<Rightarrow> int \<Rightarrow> string" where
  \<comment> \<open>\<open>fmt.Sprintf("%0*d", w, i)\<close>\<close>
  "zero_padded w i =
     (let d = decimal (nat \<bar>i\<bar>)
      in if i < 0 then ''-'' @ replicate (w - 1 - length d) (CHR ''0'') @ d
         else replicate (w - length d) (CHR ''0'') @ d)"

definition date_text :: "date \<Rightarrow> string" where
  "date_text = (\<lambda>(y, m, d). zero_padded 4 y @ ''-'' @ zero_padded 2 m @ ''-'' @ zero_padded 2 d)"

record DepositReportMsg =
  dm_ReportId :: uuid
  dm_ReportedSteps :: int
  dm_CreditedChips :: int
  dm_LocalDate :: string
  dm_ReportedAt :: timestamp
  dm_Reason :: string

definition depositReportToProto :: "DepositReport \<Rightarrow> DepositReportMsg" where
  "depositReportToProto r = \<lparr>dm_ReportId = dp_ReportID r, dm_ReportedSteps = dp_ReportedSteps r,
     dm_CreditedChips = dp_CreditedChips r, dm_LocalDate = date_text (dp_LocalDate r),
     dm_ReportedAt = dp_ReportedAt r, dm_Reason = dp_Reason r\<rparr>"

section \<open>Requests\<close>

definition svc_CreateUser ::
  "(string \<Rightarrow> uuid option) \<Rightarrow> uuid \<Rightarrow> string \<Rightarrow> string \<Rightarrow> string \<Rightarrow> string \<Rightarrow> int \<Rightarrow> Db
     \<Rightarrow> (codes + User \<times> UserSnapshot) \<times> Db" where
  "svc_CreateUser parse newID user_id name ext tz cap s =
     (case (if user_id = [] then Some uuid_Nil else parse user_id) of
        None \<Rightarrow> (Inl InvalidArgument, s)
      | Some u \<Rightarrow>
          if name = [] then (Inl InvalidArgument, s)
          else
            (case CreateUser newID \<lparr>ui_ID = u, ui_DisplayName = name, ui_ExternalID = ext, ui_Timezone = tz,
                   ui_MaxDailyDeposit = cap\<rparr> s of
               (Inl e, s1) \<Rightarrow> (Inl (if e = ErrDuplicateExternalID then AlreadyExists else Internal), s1)
             | (Inr r, s1) \<Rightarrow> (Inr r, s1)))"

definition svc_GetUser ::
  "(string \<Rightarrow> uuid option) \<Rightarrow> Principal option \<Rightarrow> string \<Rightarrow> Db \<Rightarrow> codes + User \<times> UserSnapshot" where
  "svc_GetUser parse ctx user_id s =
     (case own_account parse ctx user_id of
        Inl e \<Rightarrow> Inl e
      | Inr u \<Rightarrow>
          (case GetUser u s of
             Inl e \<Rightarrow> Inl (if e = ErrNotFound then NotFound else Internal)
           | Inr r \<Rightarrow> Inr r))"

definition svc_UpdateUserSettings ::
  "(string \<Rightarrow> uuid option) \<Rightarrow> Principal option \<Rightarrow> string \<Rightarrow> string \<Rightarrow> string \<Rightarrow> int \<Rightarrow> Db \<Rightarrow> (codes + User) \<times> Db" where
  "svc_UpdateUserSettings parse ctx user_id name tz cap s =
     (case own_account parse ctx user_id of
        Inl e \<Rightarrow> (Inl e, s)
      | Inr u \<Rightarrow>
          (case UpdateUserSettings u name tz cap s of
             (Inl e, s1) \<Rightarrow> (Inl (if e = ErrNotFound then NotFound else Internal), s1)
           | (Inr r, s1) \<Rightarrow> (Inr r, s1)))"

definition svc_ReportSteps ::
  "(string \<Rightarrow> uuid option) \<Rightarrow> (string \<Rightarrow> zone option) \<Rightarrow> zone \<Rightarrow> timestamp \<Rightarrow> Principal option
     \<Rightarrow> string \<Rightarrow> string \<Rightarrow> int \<Rightarrow> timestamp option \<Rightarrow> Db \<Rightarrow> (codes + ReportStepsResult) \<times> Db" where
  "svc_ReportSteps parse zones UTC now ctx user_id report_id steps clientAt s =
     (case own_account parse ctx user_id of
        Inl e \<Rightarrow> (Inl e, s)
      | Inr u \<Rightarrow>
          (case parse report_id of
             None \<Rightarrow> (Inl InvalidArgument, s)
           | Some rid \<Rightarrow>
               if steps < 0 then (Inl InvalidArgument, s)
               else
                 (case localDateForUser zones UTC now u s of
                    Inl e \<Rightarrow> (Inl e, s)
                  | Inr d \<Rightarrow>
                      (case ReportSteps \<lparr>rs_UserID = u, rs_ReportID = rid, rs_CumulativeStepsToday = steps,
                             rs_ClientReportedAt = (case clientAt of None \<Rightarrow> now | Some t \<Rightarrow> t),
                             rs_LocalDate = d\<rparr> s of
                         (Inl e, s1) \<Rightarrow> (Inl (if e = ErrNotFound then NotFound else Internal), s1)
                       | (Inr r, s1) \<Rightarrow> (Inr r, s1)))))"

definition svc_GetUserSnapshot ::
  "(string \<Rightarrow> uuid option) \<Rightarrow> Principal option \<Rightarrow> string \<Rightarrow> Db \<Rightarrow> codes + UserSnapshot" where
  "svc_GetUserSnapshot parse ctx user_id s =
     (case own_account parse ctx user_id of
        Inl e \<Rightarrow> Inl e
      | Inr u \<Rightarrow>
          (case pg_GetUserSnapshot u s of
             Inl e \<Rightarrow> Inl (if e = ErrNotFound then NotFound else Internal)
           | Inr r \<Rightarrow> Inr r))"

definition svc_ListDepositReports ::
  "(string \<Rightarrow> uuid option) \<Rightarrow> Principal option \<Rightarrow> string \<Rightarrow> int \<Rightarrow> int \<Rightarrow> Db
     \<Rightarrow> codes + DepositReportMsg list \<times> int" where
  "svc_ListDepositReports parse ctx user_id lim off s =
     (case own_account parse ctx user_id of
        Inl e \<Rightarrow> Inl e
      | Inr u \<Rightarrow>
          (case ListDepositReports u (clamp_limit lim) off s of
             Inl e \<Rightarrow> Inl Internal
           | Inr (reports, tot) \<Rightarrow> Inr (map depositReportToProto reports, tot)))"

text \<open>The requests that can change something, as the server gets them.\<close>

datatype user_request =
    ReqUpdate string string string int
  | ReqReport string string int "timestamp option"

definition svc_request ::
  "(string \<Rightarrow> uuid option) \<Rightarrow> (string \<Rightarrow> zone option) \<Rightarrow> zone \<Rightarrow> timestamp \<Rightarrow> Principal option \<Rightarrow> user_request
     \<Rightarrow> Db \<Rightarrow> codes option \<times> Db" where
  "svc_request parse zones UTC now ctx req s =
     (case req of
        ReqUpdate user_id name tz cap \<Rightarrow>
          apfst (case_sum Some (\<lambda>_. None)) (svc_UpdateUserSettings parse ctx user_id name tz cap s)
      | ReqReport user_id report_id steps clientAt \<Rightarrow>
          apfst (case_sum Some (\<lambda>_. None)) (svc_ReportSteps parse zones UTC now ctx user_id report_id steps clientAt s))"

section \<open>What belongs to a user\<close>

declare split_paired_All [simp del] and split_paired_Ex [simp del]

definition belongings ::
  "uuid \<Rightarrow> Tables \<Rightarrow> user_row list \<times> UserSnapshot option \<times> daily_row list \<times> report_row list" where
  "belongings u t =
     (filter (\<lambda>r. ur_id r = u) (users t), map_of (user_snapshots t) u,
      filter (\<lambda>r. dr_user_id r = u) (user_daily_steps t), filter (\<lambda>r. rr_user_id r = u) (step_deposit_reports t))"

lemma filter_map_upd:
  "(\<And>x. x \<in> set xs \<Longrightarrow> P x \<Longrightarrow> \<not> Q x) \<Longrightarrow> \<not> Q y \<Longrightarrow> filter Q (map (\<lambda>x. if P x then y else x) xs) = filter Q xs"
  by (induction xs) auto

lemma belongings_upsert:
  "q_UpsertDailyStepsHighWaterMark u d n s = (r, s') \<Longrightarrow> v \<noteq> u \<Longrightarrow> belongings v (tables s') = belongings v (tables s)"
  by (auto simp: q_UpsertDailyStepsHighWaterMark_def Let_def belongings_def find_Some_iff split: if_splits option.splits
      intro!: filter_map_upd)

lemma belongings_insert:
  "q_InsertDepositReport u rid n c d reason s = (r, s') \<Longrightarrow> v \<noteq> u \<Longrightarrow> belongings v (tables s') = belongings v (tables s)"
  by (auto simp: q_InsertDepositReport_def Let_def belongings_def split: if_splits)

lemma belongings_apply:
  "q_ApplyDepositToSnapshot u c s = (r, s') \<Longrightarrow> v \<noteq> u \<Longrightarrow> belongings v (tables s') = belongings v (tables s)"
  by (auto simp: q_ApplyDepositToSnapshot_def Let_def belongings_def update_conv' split: if_splits option.splits)

lemma belongings_write:
  "steps_write i c s = (r, s') \<Longrightarrow> v \<noteq> rs_UserID i \<Longrightarrow> belongings v (tables s') = belongings v (tables s)"
  unfolding steps_write_def Let_def
  by (auto split: prod.splits sum.splits if_splits dest!: belongings_upsert belongings_insert belongings_apply)

lemma belongings_report:
  assumes "ReportSteps i s = (r, s')" and "pg_idle s" and "v \<noteq> rs_UserID i"
  shows "belongings v (committed s') = belongings v (committed s)"
proof (cases r)
  case (Inl e)
  then show ?thesis using ReportSteps_Inl [of i s e s'] assms by simp
next
  case (Inr x)
  show ?thesis
  proof (cases "has_report (rs_UserID i) (rs_ReportID i) (committed s)")
    case True
    then show ?thesis using ReportSteps_replay [OF assms(1) [unfolded Inr]] by simp
  next
    case False
    obtain c s2 where "steps_write i c (tx_view s) = (Inr x, s2)" "s' = s2\<lparr>committed := tables s2, open_tx := None\<rparr>"
      by (rule ReportSteps_new [OF assms(1) [unfolded Inr] False])
    then show ?thesis using belongings_write [OF _ assms(3)] by fastforce
  qed
qed

lemma belongings_update:
  assumes "UpdateUserSettings u name tz cap s = (r, s')" and "pg_idle s" and "v \<noteq> u"
  shows "belongings v (committed s') = belongings v (committed s)"
proof -
  obtain q where q: "q_UpdateUserSettings u name tz cap s = (q, s')"
    using assms(1) by (auto simp: UpdateUserSettings_def split: prod.splits sum.splits)
  then have "belongings v (tables s') = belongings v (tables s)"
    using assms(3) by (auto simp: q_UpdateUserSettings_def q_find_def Let_def belongings_def find_Some_iff
        split: if_splits option.splits sum.splits intro!: filter_map_upd)
  moreover have "pg_idle s'"
    using q assms(2) by (auto simp: q_UpdateUserSettings_def Let_def pg_idle_def split: if_splits sum.splits)
  ultimately show ?thesis using assms(2) by (simp add: idle_tables)
qed

lemma own_account_Inr:
  "own_account parse ctx x = Inr u \<longleftrightarrow> x \<noteq> [] \<and> parse x = Some u \<and> (\<exists>p. ctx = Some p \<and> pr_UserID p = u)"
  by (auto simp: own_account_def parseUserID_def requireSelf_def split: option.splits)

text \<open>A request changes nothing of anybody else: whatever user a request names, the account, the
  balance, the days and the reports of every user other than the sender are afterwards as before.\<close>

theorem others_untouched:
  assumes "svc_request parse zones UTC now ctx req s = (e, s')" and "pg_idle s"
    and "\<And>p. ctx = Some p \<Longrightarrow> pr_UserID p \<noteq> v"
  shows "belongings v (committed s') = belongings v (committed s)"
proof (cases req)
  case (ReqUpdate user_id name tz cap)
  show ?thesis
  proof (cases "own_account parse ctx user_id")
    case (Inr u)
    then have "v \<noteq> u" using assms(3) by (auto simp: own_account_Inr)
    then show ?thesis using assms(1) ReqUpdate Inr belongings_update [of u name tz cap s _ s' v, OF _ assms(2)]
      by (auto simp: svc_request_def svc_UpdateUserSettings_def split: sum.splits prod.splits)
  qed (use assms(1) ReqUpdate in \<open>simp add: svc_request_def svc_UpdateUserSettings_def\<close>)
next
  case (ReqReport user_id report_id steps clientAt)
  show ?thesis
  proof (cases "own_account parse ctx user_id")
    case (Inr u)
    then have "v \<noteq> u" using assms(3) by (auto simp: own_account_Inr)
    then have "ReportSteps i s = (r, s') \<Longrightarrow> rs_UserID i = u \<Longrightarrow> belongings v (committed s') = belongings v (committed s)"
      for i r using belongings_report [OF _ assms(2), of i r s' v] by simp
    then show ?thesis using assms(1) ReqReport Inr
      by (auto simp: svc_request_def svc_ReportSteps_def split: sum.splits prod.splits option.splits if_splits)
  qed (use assms(1) ReqReport in \<open>simp add: svc_request_def svc_ReportSteps_def\<close>)
qed

section \<open>The user of a subject\<close>

text \<open>The rows of \<open>users\<close> are written by the insert of \<open>CreateUser\<close> and by the update of
  \<open>UpdateUserSettings\<close>, by no other statement.\<close>

lemma users_of_statements:
  "q_UpsertDailyStepsHighWaterMark u d n s = (r, s') \<Longrightarrow> users (tables s') = users (tables s)"
  "q_InsertDepositReport u rid n c d reason s = (r1, s') \<Longrightarrow> users (tables s') = users (tables s)"
  "q_ApplyDepositToSnapshot u c s = (r2, s') \<Longrightarrow> users (tables s') = users (tables s)"
  by (auto simp: q_UpsertDailyStepsHighWaterMark_def q_InsertDepositReport_def q_ApplyDepositToSnapshot_def Let_def
      split: if_splits option.splits)

lemma users_write: "steps_write i c s = (r, s') \<Longrightarrow> users (tables s') = users (tables s)"
  unfolding steps_write_def Let_def
  by (auto split: prod.splits sum.splits if_splits dest!: users_of_statements)

lemma report_grow:
  assumes "ReportSteps i s = (r, s')" and "users_ok s"
  shows "users_grow s s'"
proof (rule users_grow_same [OF assms(2)])
  have idle: "pg_idle s" by (rule users_okD [OF assms(2)])
  show "pg_idle s'" using tx_idle [OF assms(1) [unfolded ReportSteps_def] idle] .
  show "users (committed s') = users (committed s)"
  proof (cases r)
    case (Inl e)
    then show ?thesis using ReportSteps_Inl [of i s e s'] assms(1) idle by simp
  next
    case (Inr x)
    show ?thesis
    proof (cases "has_report (rs_UserID i) (rs_ReportID i) (committed s)")
      case True
      then show ?thesis using ReportSteps_replay [OF assms(1) [unfolded Inr]] by simp
    next
      case False
      obtain c s2 where "steps_write i c (tx_view s) = (Inr x, s2)" "s' = s2\<lparr>committed := tables s2, open_tx := None\<rparr>"
        by (rule ReportSteps_new [OF assms(1) [unfolded Inr] False])
      then show ?thesis using users_write by fastforce
    qed
  qed
qed

lemma map_only:
  assumes "distinct (map f xs)" and "r \<in> set xs" and "g r' = g r"
  shows "map g (map (\<lambda>q. if f q = f r then r' else q) xs) = map g xs"
proof -
  have "f q = f r \<Longrightarrow> q \<in> set xs \<Longrightarrow> q = r" for q
    using assms(1,2) by (auto simp: distinct_map dest: inj_onD)
  then show ?thesis using assms(3) by auto
qed

lemma update_grow:
  assumes "UpdateUserSettings u name tz cap s = (r, s')" and "users_ok s"
  shows "users_grow s s'"
proof -
  have idle: "pg_idle s" by (rule users_okD [OF assms(2)])
  obtain q where q: "q_UpdateUserSettings u name tz cap s = (q, s')"
    using assms(1) by (auto simp: UpdateUserSettings_def split: prod.splits sum.splits)
  show ?thesis
  proof (cases q)
    case (Inl e)
    then have "s' = s" using q by (auto simp: q_UpdateUserSettings_def Let_def split: if_splits sum.splits)
    then show ?thesis using users_grow_same [OF assms(2)] idle by simp
  next
    case (Inr row')
    let ?Q = "\<lambda>r. ur_id r = u \<and> \<not> ur_deleted r"
    obtain row where row: "q_find ''UpdateUserSettings'' ?Q (users (tables s)) s = Inr row" "identity row' = identity row"
      and s': "s' = upd_tables (\<lambda>t. t\<lparr>users := map (\<lambda>q. if ur_id q = u then row' else q) (users t)\<rparr>) s"
    proof (cases "q_find ''UpdateUserSettings'' ?Q (users (tables s)) s")
      case (Inl e)
      then show ?thesis using q Inr by (simp add: q_UpdateUserSettings_def)
    next
      case (Inr row)
      let ?new = "row\<lparr>ur_display_name := (if name = [] then ur_display_name row else name),
        ur_timezone := (if tz = [] then ur_timezone row else tz),
        ur_max_daily_deposit := (if cap < 0 then ur_max_daily_deposit row else cap)\<rparr>"
      have n: "row' = ?new" and "s' = upd_tables (\<lambda>t. t\<lparr>users := map (\<lambda>q. if ur_id q = u then ?new else q) (users t)\<rparr>) s"
        using q \<open>q = Inr row'\<close> by (simp_all only: q_UpdateUserSettings_def Inr Let_def sum.case) (simp_all split: if_split_asm)
      then have "s' = upd_tables (\<lambda>t. t\<lparr>users := map (\<lambda>q. if ur_id q = u then row' else q) (users t)\<rparr>) s" by (simp only: n)
      moreover have "identity row' = identity row" by (simp add: n identity_def)
      ultimately show ?thesis using that [OF Inr] by blast
    qed
    have r: "row \<in> set (users (committed s))" "ur_id row = u"
      using row(1) idle_tables [OF idle] by (auto simp: q_find_def find_Some_iff split: if_splits option.splits)
    have i: "pg_idle s'" using idle by (simp add: s' pg_idle_def)
    have c: "users (committed s') = map (\<lambda>q. if ur_id q = ur_id row then row' else q) (users (committed s))"
      using idle by (simp add: s' r(2) upd_tables_def pg_idle_def)
    have d: "distinct (map ur_id (users (committed s)))" using assms(2) by (simp add: users_ok_def)
    have "ur_id row' = ur_id row" using row(2) by (simp add: identity_def)
    then have "map identity (users (committed s')) = map identity (users (committed s))"
      "map ur_id (users (committed s')) = map ur_id (users (committed s))"
      unfolding c using map_only [OF d r(1)] row(2) by blast+
    then show ?thesis using i d by (simp add: users_grow_def users_ok_def)
  qed
qed

text \<open>The store through which tables are made, joined, left and played has no operation that writes \<open>users\<close>.\<close>

definition same_users :: "Db \<Rightarrow> Db \<Rightarrow> bool" where
  "same_users s s' \<longleftrightarrow> users (committed s') = users (committed s) \<and> users (tables s') = users (tables s)"

lemma same_users_upd: "(\<And>t. users (f t) = users t) \<Longrightarrow> same_users s (upd_tables f s)"
  by (auto simp: same_users_def upd_tables_def tables_def split: option.splits)

lemma copy_events_users: "copy_events rs t = Inr t' \<Longrightarrow> users t' = users t"
  by (induction rs arbitrary: t) (auto simp: insert_event_def split: sum.splits if_splits)

lemma same_users_refl: "same_users s s"
  by (simp add: same_users_def)

lemma store_keeps_users:
  "same_users s (snd (CreateGameConfig (pgStore parse) gid cfg s))"
  "same_users s (snd (AppendEvent (pgStore parse) evt s))"
  "same_users s (snd (AppendEvents (pgStore parse) evts s))"
  "same_users s (snd (CreateSnapshot (pgStore parse) st n s))"
  "same_users s (snd (DebitUserBalance (pgStore parse) u c s))"
  "same_users s (snd (CreditUserBalance (pgStore parse) u c s))"
proof -
  show "same_users s (snd (CreateGameConfig (pgStore parse) gid cfg s))"
    "same_users s (snd (CreateSnapshot (pgStore parse) st n s))"
    "same_users s (snd (DebitUserBalance (pgStore parse) u c s))"
    "same_users s (snd (CreditUserBalance (pgStore parse) u c s))"
    by (auto simp: pgStore_def pg_CreateGameConfig_def q_CreateGameConfig_def pg_CreateSnapshot_def q_CreateSnapshot_def
        pg_DebitUserBalance_def pg_CreditUserBalance_def set_balance_def Let_def same_users_refl same_users_upd
        split: option.splits prod.splits sum.splits if_splits)
  show "same_users s (snd (AppendEvent (pgStore parse) evt s))"
    by (auto simp: pgStore_def pg_AppendEvent_def insert_event_def same_users_def upd_tables_def tables_def
        split: option.splits sum.splits if_splits)
  show "same_users s (snd (AppendEvents (pgStore parse) evts s))"
    by (auto simp: pgStore_def pg_AppendEvents_def same_users_def tables_def
        split: option.splits sum.splits if_splits dest: copy_events_users)
qed

text \<open>What commits in a database that servers share: requests of the user service, the insert of a user by
  the user service or by an authenticator, and everything that does not write \<open>users\<close> - joins,
  leaves and sessions (\<open>store_keeps_users\<close>), the outbox.\<close>

inductive commits :: "Db \<Rightarrow> Db \<Rightarrow> bool" where
  account: "svc_request parse zones UTC now ctx req s = (e, s') \<Longrightarrow> commits s s'"
| created: "CreateUser newID input s = (r, s') \<Longrightarrow> commits s s'"
| elsewhere: "users (committed s') = users (committed s) \<Longrightarrow> pg_idle s' \<Longrightarrow> commits s s'"

lemma commits_grow: "commits s s' \<Longrightarrow> users_ok s \<Longrightarrow> users_grow s s'"
proof (induction rule: commits.induct)
  case (account parse zones UTC now ctx req s e s')
  have same: "users_grow s s" using account(2) users_grow_same users_okD by blast
  show ?case
  proof (cases req)
    case (ReqUpdate user_id name tz cap)
    have up: "UpdateUserSettings u name tz cap s = (q, s') \<Longrightarrow> users_grow s s'" for u q
      by (rule update_grow [OF _ account(2)])
    show ?thesis using account(1) ReqUpdate same
      by (auto simp: svc_request_def svc_UpdateUserSettings_def split: sum.splits prod.splits intro: up)
  next
    case (ReqReport user_id report_id steps clientAt)
    have up: "ReportSteps i s = (q, s') \<Longrightarrow> users_grow s s'" for i q
      by (rule report_grow [OF _ account(2)])
    show ?thesis using account(1) ReqReport same
      by (auto simp: svc_request_def svc_ReportSteps_def split: sum.splits prod.splits option.splits if_splits intro: up)
  qed
next
  case (created newID input s r s')
  then show ?case using CreateUser_effect by blast
next
  case (elsewhere s' s)
  then show ?case by (simp add: users_grow_same)
qed

lemma commits_all_grow: "commits\<^sup>*\<^sup>* s s' \<Longrightarrow> users_ok s \<Longrightarrow> users_grow s s'"
proof (induction rule: rtranclp_induct)
  case base
  then show ?case by (simp add: users_grow_same users_okD)
next
  case (step s1 s2)
  then have "users_grow s s1" "users_ok s1" by (simp_all add: users_grow_def)
  then show ?case using commits_grow [OF step(2)] users_grow_trans by blast
qed

text \<open>One server with its cache: it resolves the subject of a request, during which others commit, or
  others commit.\<close>

inductive served :: "'c userCache \<Rightarrow> 'c option \<times> Db \<Rightarrow> 'c option \<times> Db \<Rightarrow> bool" for ops where
  resolved: "resolveUser ops meanwhile newID sub custom cs = (res, cs') \<Longrightarrow> sub \<noteq> []
    \<Longrightarrow> (\<And>s. commits\<^sup>*\<^sup>* s (meanwhile s)) \<Longrightarrow> served ops cs cs'"
| committed: "commits s s' \<Longrightarrow> served ops (c, s) (c, s')"

lemma cache_right_grow: "cache_right holds (c, s) \<Longrightarrow> users_grow s s' \<Longrightarrow> cache_right holds (c, s')"
  using owner_grows [of s s'] by (auto simp: cache_right_def users_grow_def)

lemma resolve_keeps:
  assumes "resolveUser ops meanwhile newID sub custom cs = (res, cs')" and "sub \<noteq> []"
    and "\<And>s. commits\<^sup>*\<^sup>* s (meanwhile s)" and "lru ops holds" and "cache_right holds cs"
  shows "(\<forall>u. res = Inr u \<longrightarrow> owner (committed (snd cs')) sub = Some u)
    \<and> users_grow (snd cs) (snd cs') \<and> cache_right holds cs'"
  by (rule resolveUser_right [OF assms(1,4,5) _ assms(2)]) (rule commits_all_grow [OF assms(3)])

lemma served_keeps:
  "(served ops)\<^sup>*\<^sup>* cs cs' \<Longrightarrow> lru ops holds \<Longrightarrow> cache_right holds cs
    \<Longrightarrow> users_grow (snd cs) (snd cs') \<and> cache_right holds cs'"
proof (induction rule: rtranclp_induct)
  case base
  then show ?case by (auto simp: cache_right_def users_grow_same users_okD)
next
  case (step cs1 cs2)
  note ih = step.IH [OF step.prems]
  have "users_grow (snd cs1) (snd cs2) \<and> cache_right holds cs2" using step(2)
  proof cases
    case (resolved meanwhile newID sub custom res)
    then show ?thesis using resolve_keeps [OF resolved(1,2,3) step.prems(1)] ih by blast
  next
    case (committed s s' c)
    then have "users_grow s s'" using commits_grow [of s s'] ih by (simp add: cache_right_def)
    then show ?thesis using cache_right_grow [of holds c s s'] committed ih by simp
  qed
  then show ?case using ih users_grow_trans by blast
qed

text \<open>C20. A subject keeps its user: whatever is served after the first successful request of a subject,
  with whatever the cache has dropped - requests of anybody, changes of settings and reports of steps,
  users made by the service or by another server, also while the request is being resolved -, every
  later request of the subject that succeeds is answered with the same user.\<close>

theorem same_subject_same_user:
  assumes "lru ops holds" and "cache_right holds cs" and "sub \<noteq> []"
    and "\<And>s. commits\<^sup>*\<^sup>* s (others1 s)" and "\<And>s. commits\<^sup>*\<^sup>* s (others2 s)"
    and "resolveUser ops others1 n sub custom cs = (Inr u, cs1)"
    and "(served ops)\<^sup>*\<^sup>* cs1 cs2"
    and "resolveUser ops others2 m sub custom' cs2 = (Inr v, cs3)"
  shows "v = u"
proof -
  have a: "owner (committed (snd cs1)) sub = Some u" "cache_right holds cs1"
    using resolve_keeps [OF assms(6,3,4,1,2)] by auto
  have b: "users_grow (snd cs1) (snd cs2)" "cache_right holds cs2"
    using served_keeps [OF assms(7,1) a(2)] by auto
  have c: "owner (committed (snd cs3)) sub = Some v" "users_grow (snd cs2) (snd cs3)"
    using resolve_keeps [OF assms(8,3,5,1) b(2)] by auto
  show ?thesis using owner_grows [OF users_grow_trans [OF b(1) c(2)] a(1)] c(1) by simp
qed

section \<open>The day of a user\<close>

lemma find_map_to:
  "\<exists>x \<in> set xs. P x \<Longrightarrow> Q y \<Longrightarrow> (\<And>x. Q x \<Longrightarrow> P x) \<Longrightarrow> find Q (map (\<lambda>x. if P x then y else x) xs) = Some y"
  by (induction xs) auto

lemma update_timezone:
  assumes "UpdateUserSettings u [] tz (-1) s = (Inr usr, s')" and "pg_idle s" and "tz \<noteq> []" and "steps_ok (committed s)"
  shows "pg_idle s' \<and> steps_ok (committed s') \<and> cap_of u (committed s') = cap_of u (committed s)
    \<and> pg_balance s' = pg_balance s
    \<and> (\<forall>v d. hwm v d (committed s') = hwm v d (committed s))
    \<and> (\<forall>v rid. has_report v rid (committed s') = has_report v rid (committed s))
    \<and> (\<exists>r'. find (\<lambda>r. ur_id r = u \<and> \<not> ur_deleted r) (users (committed s')) = Some r' \<and> ur_timezone r' = tz)"
proof -
  let ?Q = "\<lambda>r. ur_id r = u \<and> \<not> ur_deleted r"
  have t: "tables s = committed s" by (rule idle_tables [OF assms(2)])
  obtain r where r: "find ?Q (users (committed s)) = Some r"
    and s': "s' = upd_tables (\<lambda>t. t\<lparr>users := map (\<lambda>q. if ur_id q = u then r\<lparr>ur_timezone := tz\<rparr> else q) (users t)\<rparr>) s"
  proof -
    obtain row where q: "q_UpdateUserSettings u [] tz (-1) s = (Inr row, s')"
      using assms(1) by (cases "q_UpdateUserSettings u [] tz (-1) s"; cases "fst (q_UpdateUserSettings u [] tz (-1) s)")
        (simp_all add: UpdateUserSettings_def)
    obtain r where r: "q_find ''UpdateUserSettings'' ?Q (users (tables s)) s = Inr r"
      using q by (cases "q_find ''UpdateUserSettings'' ?Q (users (tables s)) s") (simp_all add: q_UpdateUserSettings_def)
    then have "find ?Q (users (committed s)) = Some r"
      by (simp add: q_find_def t split: if_split_asm option.split_asm)
    then show thesis using that q assms(3) by (simp add: q_UpdateUserSettings_def r Let_def split: if_split_asm)
  qed
  let ?us = "map (\<lambda>q. if ur_id q = u then r\<lparr>ur_timezone := tz\<rparr> else q) (users (committed s))"
  have c: "committed s' = (committed s)\<lparr>users := ?us\<rparr>" and i: "pg_idle s'"
    using assms(2) by (simp_all add: s' upd_tables_def pg_idle_def)
  have rq: "r \<in> set (users (committed s))" "?Q r" using r by (auto simp: find_Some_iff)
  have f: "find ?Q ?us = Some (r\<lparr>ur_timezone := tz\<rparr>)"
    by (rule find_map_to) (use rq in auto)
  have ok: "steps_ok (committed s')"
    using assms(4) rq by (auto simp: c steps_ok_def day_credited_def hwm_def)
  have bal: "pg_balance s' = pg_balance s" by (simp add: pg_balance_def fun_eq_iff s')
  show ?thesis
    using i ok bal f r by (simp add: c cap_of_def hwm_def has_report_def)
qed

lemma localDate_of:
  assumes "localDateForUser zones UTC now u s = Inr d" and "pg_idle s"
    and "find (\<lambda>r. ur_id r = u \<and> \<not> ur_deleted r) (users (committed s)) = Some r" and "ur_timezone r = tz"
    and "tz \<noteq> []" and "zones tz = Some z"
  shows "d = z now"
  using assms(1,3-6)
  by (auto simp: localDateForUser_def GetUser_def q_GetUser_def q_find_def snapshot_of_def rowToUser_def
      idle_tables [OF assms(2)] split: sum.splits if_splits)

lemma svc_ReportSteps_Inr:
  assumes "svc_ReportSteps parse zones UTC now ctx x rid n c s = (Inr r, s')" and "parse x = Some u"
  shows "\<exists>q d i. parse rid = Some q \<and> localDateForUser zones UTC now u s = Inr d \<and> ReportSteps i s = (Inr r, s')
    \<and> rs_UserID i = u \<and> rs_ReportID i = q \<and> rs_CumulativeStepsToday i = n \<and> rs_LocalDate i = d"
proof -
  obtain v where v: "own_account parse ctx x = Inr v"
    using assms(1) by (cases "own_account parse ctx x") (auto simp: svc_ReportSteps_def)
  then have "v = u" using assms(2) by (simp add: own_account_Inr)
  with assms(1) v show ?thesis
    by (fastforce simp: svc_ReportSteps_def split: option.splits if_splits sum.splits prod.splits)
qed

text \<open>The day of a user is the date in the time zone of the account, which the user sets: who reports
  the steps of a day, moves the account to a zone where it is another day and reports the same steps
  under a new report identifier is credited for them twice.\<close>

theorem timezone_earns_twice:
  assumes "svc_ReportSteps parse zones UTC now ctx x rid n c s = (Inr r1, s1)"
    and "svc_UpdateUserSettings parse ctx x [] tz (-1) s1 = (Inr usr, s2)"
    and "svc_ReportSteps parse zones UTC now ctx x rid' n c' s2 = (Inr r2, s3)"
    and "parse x = Some u" and "pg_idle s" and "steps_ok (committed s)" and "in64 n" and "0 < n"
    and "localDateForUser zones UTC now u s = Inr d" and "tz \<noteq> []" and "zones tz = Some z" and "z now \<noteq> d"
    and "hwm u d (committed s) = 0" and "hwm u (z now) (committed s) = 0" and "cap_of u (committed s) = 0"
    and "parse rid \<noteq> parse rid'"
    and "\<forall>q. parse rid = Some q \<or> parse rid' = Some q \<longrightarrow> \<not> has_report u q (committed s)"
  shows "pg_balance s3 u = Some (the (pg_balance s u) + 2 * n)"
proof -
  obtain q i where i: "parse rid = Some q" "ReportSteps i s = (Inr r1, s1)" "rs_UserID i = u"
    "rs_ReportID i = q" "rs_CumulativeStepsToday i = n" "rs_LocalDate i = d"
    using svc_ReportSteps_Inr [OF assms(1,4)] assms(9) by auto
  have no: "\<not> has_report (rs_UserID i) (rs_ReportID i) (committed s)" using assms(17) i by auto
  note one = new_report_effect [OF i(2) assms(5,6) _ no, unfolded i, OF assms(7)]
  have ok1: "steps_ok (committed s1)" using report_keeps [OF assms(5,6), of i s1] i assms(7) by simp
  have c1: "rs_CreditedChips r1 = n" using one(1) assms(8,13,15) by (simp add: earned_def Let_def)
  have up: "UpdateUserSettings u [] tz (-1) s1 = (Inr usr, s2)"
  proof -
    obtain v where v: "own_account parse ctx x = Inr v"
      using assms(2) by (cases "own_account parse ctx x") (auto simp: svc_UpdateUserSettings_def)
    then have "v = u" using assms(4) by (simp add: own_account_Inr)
    with assms(2) v show ?thesis
      by (auto simp: svc_UpdateUserSettings_def split: sum.splits prod.splits)
  qed
  note two = update_timezone [OF up one(8) assms(10) ok1]
  obtain q' d' i' where i': "parse rid' = Some q'" "localDateForUser zones UTC now u s2 = Inr d'"
    "ReportSteps i' s2 = (Inr r2, s3)" "rs_UserID i' = u"
    "rs_ReportID i' = q'" "rs_CumulativeStepsToday i' = n" "rs_LocalDate i' = d'"
    using svc_ReportSteps_Inr [OF assms(3,4)] by blast
  obtain row where row: "find (\<lambda>r. ur_id r = u \<and> \<not> ur_deleted r) (users (committed s2)) = Some row" "ur_timezone row = tz"
    using two by blast
  have d': "d' = z now" using localDate_of [OF i'(2) _ row assms(10,11)] two by simp
  have "cap_of u (committed s2) = 0" using two one(6) assms(15) by (simp add: cap_of_def)
  moreover have "hwm u (z now) (committed s2) = 0" using two one(4) [of u "z now"] assms(12,14) by simp
  moreover have "\<not> has_report u q' (committed s2)"
  proof -
    have "q \<noteq> q'" using assms(16) i(1) i'(1) by simp
    moreover have "\<not> has_report u q' (committed s)" using assms(17) i'(1) by simp
    ultimately have "\<not> has_report u q' (committed s1)" using one(11) by (auto simp: has_report_def)
    then show ?thesis using two by simp
  qed
  ultimately have "rs_CreditedChips r2 = n \<and> pg_balance s3 = (pg_balance s2)(u \<mapsto> rs_NewBalance r2)
    \<and> pg_balance s2 u = Some (rs_NewBalance r2 - rs_CreditedChips r2)"
    using new_report_effect [OF i'(3), unfolded i' d'] two assms(7,8) by (simp add: earned_def Let_def)
  then show ?thesis using two one(2,3) c1 by auto
qed

section \<open>A walker who moves\<close>

definition principal_of :: "uuid \<Rightarrow> Principal" where
  "principal_of u = \<lparr>pr_UserID = u, pr_ExternalID = [], pr_DisplayName = [], pr_Email = []\<rparr>"

definition utc :: zone where
  "utc now = (2026, 5, 1)"

definition two_zones :: "string \<Rightarrow> zone option" where
  "two_zones tz = (if tz = ''UTC'' then Some utc
     else if tz = ''Pacific/Kiritimati'' then Some (\<lambda>now. (2026, 5, 2)) else None)"

theorem others_untouched_witness:
  "\<exists>e s'. svc_request Some two_zones utc 7 (Some (principal_of ''b'')) (ReqReport ''u'' ''r'' 3000 None) walker_db = (Some e, s')
     \<and> belongings ''u'' (committed s') = belongings ''u'' (committed walker_db)"
proof -
  have e: "fst (svc_request Some two_zones utc 7 (Some (principal_of ''b'')) (ReqReport ''u'' ''r'' 3000 None) walker_db)
    = Some PermissionDenied" by code_simp
  obtain s' where r: "svc_request Some two_zones utc 7 (Some (principal_of ''b'')) (ReqReport ''u'' ''r'' 3000 None) walker_db
    = (Some PermissionDenied, s')" using e by (metis prod.collapse)
  show ?thesis
    using others_untouched [OF r walker_db_facts(1), of "''u''"] r by (auto simp: principal_of_def)
qed

definition move_report :: "uuid \<Rightarrow> Db \<Rightarrow> (codes + ReportStepsResult) \<times> Db" where
  "move_report rid s = svc_ReportSteps Some two_zones utc 7 (Some (principal_of ''u'')) ''u'' rid 3000 None s"

definition move_zone :: "Db \<Rightarrow> (codes + User) \<times> Db" where
  "move_zone s = svc_UpdateUserSettings Some (Some (principal_of ''u'')) ''u'' [] ''Pacific/Kiritimati'' (-1) s"

lemma moves:
  obtains r1 s1 usr s2 r2 s3 where "move_report ''r'' walker_db = (Inr r1, s1)" "move_zone s1 = (Inr usr, s2)"
    "move_report ''q'' s2 = (Inr r2, s3)"
proof -
  have "(case move_report ''r'' walker_db of (Inl _, _) \<Rightarrow> False | (Inr _, s1) \<Rightarrow>
      (case move_zone s1 of (Inl _, _) \<Rightarrow> False | (Inr _, s2) \<Rightarrow>
        (case fst (move_report ''q'' s2) of Inl _ \<Rightarrow> False | Inr _ \<Rightarrow> True)))" by code_simp
  then show ?thesis
    by (auto split: prod.split_asm sum.split_asm intro: that) (metis prod.collapse that)
qed

theorem timezone_earns_twice_witness:
  "\<exists>r1 s1 usr s2 r2 s3. move_report ''r'' walker_db = (Inr r1, s1) \<and> move_zone s1 = (Inr usr, s2)
     \<and> move_report ''q'' s2 = (Inr r2, s3) \<and> pg_balance s3 ''u'' = Some 6100"
proof -
  obtain r1 s1 usr s2 r2 s3 where m: "move_report ''r'' walker_db = (Inr r1, s1)" "move_zone s1 = (Inr usr, s2)"
    "move_report ''q'' s2 = (Inr r2, s3)" by (rule moves)
  have date: "localDateForUser two_zones utc 7 ''u'' walker_db = Inr (2026, 5, 1)" by code_simp
  have "pg_balance s3 ''u'' = Some (the (pg_balance walker_db ''u'') + 2 * 3000)"
  proof (rule timezone_earns_twice [OF m [unfolded move_report_def move_zone_def] _ walker_db_facts(1,3) _ _ date])
    show "\<forall>q. Some ''r'' = Some q \<or> Some ''q'' = Some q \<longrightarrow> \<not> has_report ''u'' q (committed walker_db)"
      by (simp add: has_report_def walker_db_def walker_tables_def)
    show "two_zones ''Pacific/Kiritimati'' = Some (\<lambda>now. (2026, 5, 2))" by (simp add: two_zones_def)
    show "hwm ''u'' (2026, 5, 1) (committed walker_db) = 0" "hwm ''u'' (2026, 5, 2) (committed walker_db) = 0"
      by (rule walker_db_facts(6))+
    show "cap_of ''u'' (committed walker_db) = 0" using walker_db_facts(7) by (simp add: walk_def)
  qed (simp_all add: in64_def)
  moreover have "pg_balance walker_db ''u'' = Some 100" using walker_db_facts(9) by (simp add: walk_def)
  ultimately show ?thesis using m by auto
qed

text \<open>Ann's first request; Bob's; Ann changes her name, her zone and her cap; Ann again, with a cache that
  dropped her.\<close>

definition ann_settings :: "uuid \<Rightarrow> Db \<Rightarrow> codes option \<times> Db" where
  "ann_settings u = svc_request Some two_zones utc 7 (Some (principal_of u)) (ReqUpdate u ''Anna'' ''Pacific/Kiritimati'' 500)"

theorem same_subject_same_user_witness:
  "\<exists>u cs1 cs2 s c3. resolveUser list_cache id ''1'' ''auth0|ann'' (Some ann_claims) (None, walker_db) = (Inr u, cs1)
     \<and> snd (resolveUser list_cache id ''2'' ''auth0|bob'' None cs1) = cs2
     \<and> ann_settings u (snd cs2) = (None, s) \<and> users (committed s) \<noteq> users (committed (snd cs2))
     \<and> resolveUser list_cache id ''3'' ''auth0|ann'' None (fst cs2, s) = (Inr u, c3)"
proof -
  let ?r1 = "resolveUser list_cache id ''1'' ''auth0|ann'' (Some ann_claims) (None, walker_db)"
  have "fst ?r1 = Inr ''1''" by code_simp
  then obtain cs1 where r1: "?r1 = (Inr ''1'', cs1)" by (metis prod.collapse)
  obtain r2 cs2 where r2: "resolveUser list_cache id ''2'' ''auth0|bob'' None cs1 = (r2, cs2)" by (meson surj_pair)
  let ?cs = "snd (resolveUser list_cache id ''2'' ''auth0|bob'' None (snd ?r1))"
  have cs2: "cs2 = ?cs" by (simp add: r1 r2)
  have x: "fst (ann_settings ''1'' (snd ?cs)) = None"
    "map ur_display_name (users (committed (snd (ann_settings ''1'' (snd ?cs))))) \<noteq> map ur_display_name (users (committed (snd ?cs)))"
    "case fst (resolveUser list_cache id ''3'' ''auth0|ann'' None (fst ?cs, snd (ann_settings ''1'' (snd ?cs)))) of Inr _ \<Rightarrow> True | Inl _ \<Rightarrow> False"
    by code_simp+
  then obtain s where s: "ann_settings ''1'' (snd cs2) = (None, s)" and ch: "users (committed s) \<noteq> users (committed (snd cs2))"
    unfolding cs2 [symmetric] by (metis prod.collapse)
  obtain v c3 where r3: "resolveUser list_cache id ''3'' ''auth0|ann'' None (fst cs2, s) = (Inr v, c3)"
    using x(3) s unfolding cs2 [symmetric]
    by (cases "resolveUser list_cache id ''3'' ''auth0|ann'' None (fst cs2, s)") (auto split: sum.splits)
  have right: "cache_right set (None, walker_db)" by (simp add: cache_right_def entries_def walker_db_users_ok)
  have idle: "commits\<^sup>*\<^sup>* t (id t)" for t by simp
  have "served list_cache cs1 cs2" by (rule served.resolved [OF r2 _ idle]) simp
  moreover have "served list_cache cs2 (fst cs2, s)"
    using served.committed [of "snd cs2" s list_cache "fst cs2"] commits.account [OF s [unfolded ann_settings_def]] by simp
  ultimately have "(served list_cache)\<^sup>*\<^sup>* cs1 (fst cs2, s)" by simp
  then have "v = ''1''"
    by (intro same_subject_same_user [OF list_cache_lru right _ idle idle r1 _ r3]) simp_all
  then show ?thesis using r1 r2 s ch r3 by auto
qed

end
