(* ===== verification/Apply.thy ===== *)
theory Apply
  imports Proto
begin

text \<open>
  \<open>src/internal/engine/apply.go\<close>: the state change of every event. The cases of the Go
  switch are one definition each, named after the event; \<open>apply_payload\<close> dispatches
  and \<open>Apply\<close> adds the version counter. \<open>proto.Clone\<close> makes the Go function pure, so the
  mutations of the clone are updates of the state value.
\<close>

section \<open>Seats and the action order\<close>

definition seatedActivePlayersBySeats :: "GameState \<Rightarrow> string list" where
  "seatedActivePlayersBySeats st =
     map fst (sort_key (\<lambda>(id, p). Seat p)
       (filter (\<lambda>(id, p). \<not> IsSittingOut p \<and> Stack p > 0) (Players st)))"

definition rotateFrom :: "'a list \<Rightarrow> nat \<Rightarrow> 'a list" where
  "rotateFrom ids start = map (\<lambda>i. ids ! ((start + i) mod length ids)) [0..<length ids]"

definition rotateAfter :: "'a list \<Rightarrow> 'a \<Rightarrow> 'a list" where
  "rotateAfter ids targetID =
     (case index_of targetID ids of
        Some i \<Rightarrow> rotateFrom ids ((i + 1) mod length ids)
      | None \<Rightarrow> ids)"

definition preflopActionOrder :: "GameState \<Rightarrow> string \<Rightarrow> string \<Rightarrow> string list" where
  "preflopActionOrder st dealerID bbID =
     (let seated = seatedActivePlayersBySeats st
      in if seated = [] then []
         else case index_of bbID seated of
             None \<Rightarrow> rotateAfter seated dealerID
           | Some bbIdx \<Rightarrow> rotateFrom seated ((bbIdx + 1) mod length seated))"

definition postflopActionOrder :: "GameState \<Rightarrow> string \<Rightarrow> string list" where
  "postflopActionOrder st dealerID = rotateAfter (seatedActivePlayersBySeats st) dealerID"

definition othersInOrder :: "GameState \<Rightarrow> string \<Rightarrow> string list" where
  "othersInOrder st exceptID =
     (case CurrentHand st of
        None \<Rightarrow> []
      | Some h \<Rightarrow>
          filter (\<lambda>pid. pid \<noteq> exceptID \<and>
             (case player st pid of
                None \<Rightarrow> False
              | Some p \<Rightarrow> \<not> (IsFolded p \<or> IsAllIn p))) (ActionOrder h))"

definition resetStreetState :: "GameState \<Rightarrow> GameState" where
  "resetStreetState st =
     (let st1 = upd_all_players (\<lambda>p. p\<lparr>CurrentBet := 0\<rparr>) st;
          bb = get_cfg BigBlind 0 (Config st1)
      in upd_hand (\<lambda>h. let order = postflopActionOrder st1 (DealerPlayerId h)
           in h\<lparr>CurrentHighestBet := 0, LastRaiseAmount := 0, MinRaiseAmount := bb,
                LastFullRaiseTo := 0, ActionClosedFor := [], RaisesThisStreet := 0,
                ActingPlayerId := None, ActionOrder := order, PendingActions := order\<rparr>) st1)"

section \<open>Table and seats\<close>

definition apply_TableCreated :: "CashGameConfig option \<Rightarrow> GameState \<Rightarrow> GameState" where
  "apply_TableCreated cfg st = st\<lparr>Config := cfg, Status := GAME_STATUS_WAITING\<rparr>"

definition apply_TableResumed :: "GameState \<Rightarrow> GameState" where
  "apply_TableResumed st =
     (if CurrentHand st \<noteq> None then st\<lparr>Status := GAME_STATUS_ACTIVE\<rparr>
      else st\<lparr>Status := GAME_STATUS_WAITING\<rparr>)"

definition empty_PlayerState :: PlayerState where
  \<comment> \<open>\<open>&pb.PlayerState{}\<close>\<close>
  "empty_PlayerState = \<lparr>PlayerId = [], Seat = 0, SeatStatus = SEAT_STATUS_UNSPECIFIED, Stack = 0,
     CurrentBet = 0, TotalCommittedThisHand = 0, IsFolded = False, IsAllIn = False,
     IsSittingOut = False, TimeBankRemaining = None, MustPostBlind = False,
     DisconnectedAt = None, HoleCard_1 = None, HoleCard_2 = None\<rparr>"

definition apply_PlayerJoined :: "string \<Rightarrow> string \<Rightarrow> int \<Rightarrow> int \<Rightarrow> GameState \<Rightarrow> GameState" where
  "apply_PlayerJoined playerID userID seat buyIn st =
     st\<lparr>Players := AList.update playerID
          (empty_PlayerState\<lparr>PlayerId := playerID, Seat := seat,
             SeatStatus := SEAT_STATUS_OCCUPIED, Stack := buyIn\<rparr>) (Players st),
        PlayerUserIds := AList.update playerID userID (PlayerUserIds st),
        ReservedSeats := remove_all seat (ReservedSeats st)\<rparr>"

definition apply_PlayerLeft :: "string \<Rightarrow> GameState \<Rightarrow> GameState" where
  "apply_PlayerLeft playerID st =
     st\<lparr>Players := AList.delete playerID (Players st),
        PlayerUserIds := AList.delete playerID (PlayerUserIds st),
        WaitingList := remove_all playerID (WaitingList st)\<rparr>"

definition apply_PlayerSatOut :: "string \<Rightarrow> GameState \<Rightarrow> GameState" where
  "apply_PlayerSatOut pid =
     upd_player pid (\<lambda>p. p\<lparr>IsSittingOut := True, SeatStatus := SEAT_STATUS_SITTING_OUT\<rparr>)"

definition apply_PlayerSatIn :: "string \<Rightarrow> GameState \<Rightarrow> GameState" where
  "apply_PlayerSatIn pid =
     upd_player pid (\<lambda>p. let p' = p\<lparr>IsSittingOut := False\<rparr>
       in if DisconnectedAt p' = None then p'\<lparr>SeatStatus := SEAT_STATUS_OCCUPIED\<rparr> else p')"

definition apply_PlayerDisconnected :: "string \<Rightarrow> timestamp option \<Rightarrow> GameState \<Rightarrow> GameState" where
  "apply_PlayerDisconnected pid occurredAt =
     upd_player pid
       (\<lambda>p. p\<lparr>DisconnectedAt := occurredAt, SeatStatus := SEAT_STATUS_DISCONNECTED\<rparr>)"

definition apply_PlayerReconnected :: "string \<Rightarrow> GameState \<Rightarrow> GameState" where
  "apply_PlayerReconnected pid =
     upd_player pid (\<lambda>p. let p' = p\<lparr>DisconnectedAt := None\<rparr>
       in if IsSittingOut p' then p'\<lparr>SeatStatus := SEAT_STATUS_SITTING_OUT\<rparr>
          else p'\<lparr>SeatStatus := SEAT_STATUS_OCCUPIED\<rparr>)"

section \<open>Starting a hand\<close>

definition apply_HandStarted ::
  "string \<Rightarrow> int \<Rightarrow> string \<Rightarrow> string \<Rightarrow> string \<Rightarrow> int \<Rightarrow> int \<Rightarrow> timestamp option
     \<Rightarrow> GameState \<Rightarrow> GameState" where
  "apply_HandStarted handID handNumber dealerID sbID bbID smallBlind bigBlind occurredAt st =
     (let st1 = upd_all_players (\<lambda>p. p\<lparr>IsFolded := False, IsAllIn := False, CurrentBet := 0,
                   TotalCommittedThisHand := 0, HoleCard_1 := None, HoleCard_2 := None\<rparr>) st;
          order = preflopActionOrder st1 dealerID bbID;
          st2 = st1\<lparr>CurrentHand := Some
                  \<lparr>HandId = handID, DealerPlayerId = dealerID, SmallBlindPlayerId = sbID,
                   BigBlindPlayerId = bbID, Pot = 0, RakeTaken = 0,
                   Phase = HAND_PHASE_PREFLOP, CurrentHighestBet = 0, LastRaiseAmount = 0,
                   MinRaiseAmount = bigBlind, RaisesThisStreet = 0, ActingPlayerId = None,
                   ActionDeadline = None, FlopCard_1 = None, FlopCard_2 = None,
                   FlopCard_3 = None, TurnCard = None, RiverCard = None, SecondBoard = [],
                   SidePots = [], PendingActions = order, ActionOrder = order,
                   StartedAt = occurredAt, LastFullRaiseTo = 0, ActionClosedFor = []\<rparr>,
                 Status := GAME_STATUS_ACTIVE\<rparr>
      in case player st2 dealerID of
           None \<Rightarrow> st2
         | Some p \<Rightarrow> st2\<lparr>DealerSeat := Seat p\<rparr>)"

text \<open>The shape of the handlers that need both a hand and a player and return without an
  effect when one is missing. The continuation gets both and returns the new values.\<close>

definition with_player_and_hand ::
  "string \<Rightarrow> (PlayerState \<Rightarrow> HandState \<Rightarrow> PlayerState \<times> HandState) \<Rightarrow> GameState \<Rightarrow> GameState" where
  "with_player_and_hand pid f st =
     (case CurrentHand st of
        None \<Rightarrow> st
      | Some h \<Rightarrow>
          (case player st pid of
             None \<Rightarrow> st
           | Some p \<Rightarrow>
               (case f p h of (p', h') \<Rightarrow>
                  upd_player pid (\<lambda>_. p') (st\<lparr>CurrentHand := Some h'\<rparr>))))"

definition apply_BlindPosted :: "string \<Rightarrow> int \<Rightarrow> bool \<Rightarrow> bool \<Rightarrow> GameState \<Rightarrow> GameState" where
  "apply_BlindPosted pid amount isBigBlind isDeadBlind =
     with_player_and_hand pid (\<lambda>p h.
       let p1 = p\<lparr>Stack := sub64 (Stack p) amount,
                  TotalCommittedThisHand := add64 (TotalCommittedThisHand p) amount\<rparr>;
           h1 = h\<lparr>Pot := add64 (Pot h) amount\<rparr>
       in if isDeadBlind then (p1, h1)
          else
            let p2 = p1\<lparr>CurrentBet := add64 (CurrentBet p1) amount\<rparr>;
                h2 = (if CurrentBet p2 > CurrentHighestBet h1
                      then h1\<lparr>CurrentHighestBet := CurrentBet p2\<rparr> else h1)
            in (p2, if isBigBlind
                    then h2\<lparr>MinRaiseAmount := amount, LastRaiseAmount := amount\<rparr> else h2))"

definition apply_AntePosted :: "string \<Rightarrow> int \<Rightarrow> GameState \<Rightarrow> GameState" where
  "apply_AntePosted pid amount =
     with_player_and_hand pid (\<lambda>p h.
       (p\<lparr>Stack := sub64 (Stack p) amount,
          TotalCommittedThisHand := add64 (TotalCommittedThisHand p) amount\<rparr>,
        h\<lparr>Pot := add64 (Pot h) amount\<rparr>))"

definition apply_StraddlePosted :: "string \<Rightarrow> int \<Rightarrow> GameState \<Rightarrow> GameState" where
  "apply_StraddlePosted pid amount =
     with_player_and_hand pid (\<lambda>p h.
       let p1 = p\<lparr>Stack := sub64 (Stack p) amount,
                  TotalCommittedThisHand := add64 (TotalCommittedThisHand p) amount,
                  CurrentBet := add64 (CurrentBet p) amount\<rparr>;
           h1 = h\<lparr>Pot := add64 (Pot h) amount\<rparr>
       in (p1, if CurrentBet p1 > CurrentHighestBet h1
               then h1\<lparr>CurrentHighestBet := CurrentBet p1, MinRaiseAmount := amount\<rparr> else h1))"

section \<open>Cards\<close>

definition apply_ShownCards :: "string \<Rightarrow> card \<Rightarrow> card \<Rightarrow> GameState \<Rightarrow> GameState" where
  \<comment> \<open>\<open>HoleCardsRevealed\<close> and \<open>PlayerShowedCards\<close> have the same body\<close>
  "apply_ShownCards pid c1 c2 =
     upd_player pid (\<lambda>p. p\<lparr>HoleCard_1 := Some c1, HoleCard_2 := Some c2\<rparr>)"

definition apply_FlopDealt :: "card \<Rightarrow> card \<Rightarrow> card \<Rightarrow> GameState \<Rightarrow> GameState" where
  "apply_FlopDealt c1 c2 c3 st =
     (if CurrentHand st = None then st
      else resetStreetState (upd_hand (\<lambda>h. h\<lparr>FlopCard_1 := Some c1, FlopCard_2 := Some c2,
             FlopCard_3 := Some c3, Phase := HAND_PHASE_FLOP\<rparr>) st))"

definition apply_TurnDealt :: "card \<Rightarrow> GameState \<Rightarrow> GameState" where
  "apply_TurnDealt c st =
     (if CurrentHand st = None then st
      else resetStreetState (upd_hand (\<lambda>h. h\<lparr>TurnCard := Some c, Phase := HAND_PHASE_TURN\<rparr>) st))"

definition apply_RiverDealt :: "card \<Rightarrow> GameState \<Rightarrow> GameState" where
  "apply_RiverDealt c st =
     (if CurrentHand st = None then st
      else resetStreetState (upd_hand (\<lambda>h. h\<lparr>RiverCard := Some c, Phase := HAND_PHASE_RIVER\<rparr>) st))"

definition apply_SecondBoardDealt :: "card \<Rightarrow> card \<Rightarrow> GameState \<Rightarrow> GameState" where
  "apply_SecondBoardDealt turnCard riverCard =
     upd_hand (\<lambda>h. h\<lparr>SecondBoard :=
       (if turnCard \<noteq> 0 then SecondBoard h @ [turnCard] else SecondBoard h) @ [riverCard]\<rparr>)"

section \<open>Player actions\<close>

definition done_acting :: "string \<Rightarrow> HandState \<Rightarrow> HandState" where
  \<comment> \<open>the two lines that end every action which reopens nothing\<close>
  "done_acting pid h =
     h\<lparr>PendingActions := remove_all pid (PendingActions h), ActingPlayerId := None\<rparr>"

definition apply_PlayerFolded :: "string \<Rightarrow> GameState \<Rightarrow> GameState" where
  "apply_PlayerFolded pid st =
     upd_hand (done_acting pid) (upd_player pid (\<lambda>p. p\<lparr>IsFolded := True\<rparr>) st)"

definition apply_PlayerChecked :: "string \<Rightarrow> GameState \<Rightarrow> GameState" where
  "apply_PlayerChecked pid = upd_hand (done_acting pid)"

definition apply_PlayerCalled :: "string \<Rightarrow> int \<Rightarrow> GameState \<Rightarrow> GameState" where
  "apply_PlayerCalled pid amount =
     with_player_and_hand pid (\<lambda>p h.
       let p1 = p\<lparr>Stack := sub64 (Stack p) amount,
                  CurrentBet := add64 (CurrentBet p) amount,
                  TotalCommittedThisHand := add64 (TotalCommittedThisHand p) amount\<rparr>;
           h1 = h\<lparr>Pot := add64 (Pot h) amount\<rparr>
       in (if Stack p1 = 0 then p1\<lparr>IsAllIn := True\<rparr> else p1, done_acting pid h1))"

text \<open>Everyone but the aggressor must act again. \<open>othersInOrder\<close> runs on the state with the
  aggressor already updated.\<close>

definition reopen_action :: "string \<Rightarrow> GameState \<Rightarrow> GameState" where
  "reopen_action pid st =
     upd_hand (\<lambda>h. h\<lparr>PendingActions := othersInOrder st pid, ActingPlayerId := None\<rparr>) st"

definition apply_PlayerBet :: "string \<Rightarrow> int \<Rightarrow> GameState \<Rightarrow> GameState" where
  "apply_PlayerBet pid tot st =
     (if CurrentHand st = None \<or> player st pid = None then st
      else reopen_action pid (with_player_and_hand pid (\<lambda>p h.
        let delta = sub64 tot (CurrentBet p);
            raiseBy = sub64 tot (CurrentHighestBet h)
        in (p\<lparr>Stack := sub64 (Stack p) delta, CurrentBet := tot,
              TotalCommittedThisHand := add64 (TotalCommittedThisHand p) delta\<rparr>,
            h\<lparr>Pot := add64 (Pot h) delta, CurrentHighestBet := tot,
              LastRaiseAmount := raiseBy, MinRaiseAmount := raiseBy, LastFullRaiseTo := tot,
              ActionClosedFor := [],
              RaisesThisStreet := add32 (RaisesThisStreet h) 1\<rparr>)) st))"

definition apply_PlayerRaised :: "string \<Rightarrow> int \<Rightarrow> int \<Rightarrow> GameState \<Rightarrow> GameState" where
  "apply_PlayerRaised pid to raiseBy st =
     (if CurrentHand st = None \<or> player st pid = None then st
      else reopen_action pid (with_player_and_hand pid (\<lambda>p h.
        let delta = sub64 to (CurrentBet p);
            p1 = p\<lparr>Stack := sub64 (Stack p) delta, CurrentBet := to,
                   TotalCommittedThisHand := add64 (TotalCommittedThisHand p) delta\<rparr>
        in (if Stack p1 = 0 then p1\<lparr>IsAllIn := True\<rparr> else p1,
            h\<lparr>Pot := add64 (Pot h) delta, CurrentHighestBet := to,
              LastRaiseAmount := raiseBy, MinRaiseAmount := raiseBy, LastFullRaiseTo := to,
              ActionClosedFor := [],
              RaisesThisStreet := add32 (RaisesThisStreet h) 1\<rparr>)) st))"

text \<open>The part of \<open>PlayerAllIn\<close> that raises the bet; \<open>st\<close> has the player's chips moved.\<close>

definition all_in_raise :: "string \<Rightarrow> int \<Rightarrow> GameState \<Rightarrow> GameState" where
  "all_in_raise actor tot st =
     (let allOthers = othersInOrder st actor
      in upd_hand (\<lambda>h.
           let prevLastRaise = LastRaiseAmount h;
               raiseBy = sub64 tot (CurrentHighestBet h);
               h1 = h\<lparr>CurrentHighestBet := tot, LastRaiseAmount := raiseBy,
                      MinRaiseAmount := raiseBy,
                      RaisesThisStreet := add32 (RaisesThisStreet h) 1\<rparr>;
               pendingSet = set (filter (\<lambda>pid. pid \<noteq> actor) (PendingActions h1));
               h2 = (if prevLastRaise = 0 \<or> raiseBy \<ge> prevLastRaise
                     then h1\<lparr>LastFullRaiseTo := tot, ActionClosedFor := []\<rparr>
                     else h1\<lparr>ActionClosedFor := filter (\<lambda>pid. pid \<notin> pendingSet) allOthers\<rparr>)
           in h2\<lparr>PendingActions := allOthers, ActingPlayerId := None\<rparr>) st)"

definition apply_PlayerAllIn :: "string \<Rightarrow> int \<Rightarrow> GameState \<Rightarrow> GameState" where
  "apply_PlayerAllIn actor tot st =
     (case CurrentHand st of
        None \<Rightarrow> st
      | Some h \<Rightarrow>
          if player st actor = None then st
          else
            let st1 = with_player_and_hand actor (\<lambda>p h.
                  let delta = sub64 tot (CurrentBet p)
                  in (p\<lparr>Stack := 0, CurrentBet := tot,
                        TotalCommittedThisHand := add64 (TotalCommittedThisHand p) delta,
                        IsAllIn := True\<rparr>,
                      h\<lparr>Pot := add64 (Pot h) delta\<rparr>)) st
            in if tot > CurrentHighestBet h then all_in_raise actor tot st1
               else upd_hand (done_acting actor) st1)"

definition apply_PlayerMuckedCards :: "string \<Rightarrow> GameState \<Rightarrow> GameState" where
  "apply_PlayerMuckedCards pid = upd_player pid (\<lambda>p. p\<lparr>HoleCard_1 := None, HoleCard_2 := None\<rparr>)"

section \<open>Timing, pots and the end of a hand\<close>

definition apply_ActionStarted :: "string \<Rightarrow> timestamp option \<Rightarrow> GameState \<Rightarrow> GameState" where
  "apply_ActionStarted pid deadline =
     upd_hand (\<lambda>h. h\<lparr>ActingPlayerId := Some pid, ActionDeadline := deadline\<rparr>)"

definition apply_BettingRoundEnded :: "GameState \<Rightarrow> GameState" where
  "apply_BettingRoundEnded st =
     (if CurrentHand st = None then st
      else upd_hand (\<lambda>h. h\<lparr>CurrentHighestBet := 0, LastRaiseAmount := 0, LastFullRaiseTo := 0,
             ActionClosedFor := [], RaisesThisStreet := 0, ActingPlayerId := None,
             PendingActions := []\<rparr>)
           (upd_all_players (\<lambda>p. p\<lparr>CurrentBet := 0\<rparr>) st))"

definition apply_SidePotCreated :: "int \<Rightarrow> string list \<Rightarrow> GameState \<Rightarrow> GameState" where
  "apply_SidePotCreated amount eligible =
     upd_hand (\<lambda>h. h\<lparr>SidePots := SidePots h @ [\<lparr>sp_Amount = amount, sp_EligiblePlayerIds = eligible\<rparr>]\<rparr>)"

definition apply_Showdown :: "GameState \<Rightarrow> GameState" where
  "apply_Showdown = upd_hand (\<lambda>h. h\<lparr>Phase := HAND_PHASE_SHOWDOWN\<rparr>)"

text \<open>\<open>for i, pid := range winners\<close>: the first argument is what the next winner gets, the
  second what all later ones get.\<close>

primrec award_winners :: "int \<Rightarrow> int \<Rightarrow> string list \<Rightarrow> GameState \<Rightarrow> GameState" where
  "award_winners award share [] st = st"
| "award_winners award share (pid # ws) st =
     award_winners share share ws (upd_player pid (\<lambda>p. p\<lparr>Stack := add64 (Stack p) award\<rparr>) st)"

definition apply_PotAwarded :: "int \<Rightarrow> string list \<Rightarrow> GameState \<Rightarrow> GameState" where
  "apply_PotAwarded tot winners st =
     (if winners = [] then st
      else let share = tot sdiv int (length winners);
               remainder = tot smod int (length winners)
           in upd_hand (\<lambda>h. h\<lparr>Pot := sub64 (Pot h) tot\<rparr>)
                (award_winners (add64 share remainder) share winners st))"

definition apply_RakeTaken :: "int \<Rightarrow> GameState \<Rightarrow> GameState" where
  "apply_RakeTaken amount =
     upd_hand (\<lambda>h. h\<lparr>RakeTaken := add64 (RakeTaken h) amount, Pot := sub64 (Pot h) amount\<rparr>)"

definition apply_HandEnded :: "int \<Rightarrow> GameState \<Rightarrow> GameState" where
  "apply_HandEnded handNumber st =
     (let st1 = st\<lparr>HandNumber := handNumber, CurrentHand := None\<rparr>
      in if Status st1 = GAME_STATUS_ACTIVE then st1\<lparr>Status := GAME_STATUS_WAITING\<rparr> else st1)"

section \<open>Apply\<close>

primrec apply_payload :: "EventPayload \<Rightarrow> timestamp option \<Rightarrow> GameState \<Rightarrow> GameState" where
  "apply_payload (EvTableCreated cfg) t st = apply_TableCreated cfg st"
| "apply_payload (EvTableClosed r) t st = st\<lparr>Status := GAME_STATUS_CLOSED\<rparr>"
| "apply_payload (EvTablePaused r) t st = st\<lparr>Status := GAME_STATUS_PAUSED\<rparr>"
| "apply_payload EvTableResumed t st = apply_TableResumed st"
| "apply_payload (EvSeatReserved pid seat d) t st = st\<lparr>ReservedSeats := ReservedSeats st @ [seat]\<rparr>"
| "apply_payload (EvSeatReservationCancelled pid seat r) t st =
     st\<lparr>ReservedSeats := remove_all seat (ReservedSeats st)\<rparr>"
| "apply_payload (EvPlayerJoined pid uid seat buyIn) t st = apply_PlayerJoined pid uid seat buyIn st"
| "apply_payload (EvPlayerLeft pid c r) t st = apply_PlayerLeft pid st"
| "apply_payload (EvPlayerSatOut pid) t st = apply_PlayerSatOut pid st"
| "apply_payload (EvPlayerSatIn pid) t st = apply_PlayerSatIn pid st"
| "apply_payload (EvPlayerDisconnected pid) t st = apply_PlayerDisconnected pid t st"
| "apply_payload (EvPlayerReconnected pid) t st = apply_PlayerReconnected pid st"
| "apply_payload (EvPlayerKicked pid r) t st = apply_PlayerLeft pid st"
| "apply_payload (EvWaitingListJoined pid pos) t st = st\<lparr>WaitingList := WaitingList st @ [pid]\<rparr>"
| "apply_payload (EvWaitingListLeft pid) t st =
     st\<lparr>WaitingList := remove_all pid (WaitingList st)\<rparr>"
| "apply_payload (EvSeatChanged pid a b) t st = upd_player pid (\<lambda>p. p\<lparr>Seat := b\<rparr>) st"
| "apply_payload (EvStackToppedUp pid a n) t st = upd_player pid (\<lambda>p. p\<lparr>Stack := n\<rparr>) st"
| "apply_payload (EvAutoRebuyTriggered pid a n) t st = upd_player pid (\<lambda>p. p\<lparr>Stack := n\<rparr>) st"
| "apply_payload (EvHandStarted hid n d sb bb s b) t st = apply_HandStarted hid n d sb bb s b t st"
| "apply_payload (EvBlindPosted pid a small big dead) t st = apply_BlindPosted pid a big dead st"
| "apply_payload (EvAntePosted pid a) t st = apply_AntePosted pid a st"
| "apply_payload (EvStraddlePosted pid a) t st = apply_StraddlePosted pid a st"
| "apply_payload (EvHoleCardsDealt pid) t st = st"
| "apply_payload (EvHoleCardsRevealed pid c1 c2) t st = apply_ShownCards pid c1 c2 st"
| "apply_payload (EvFlopDealt c1 c2 c3) t st = apply_FlopDealt c1 c2 c3 st"
| "apply_payload (EvTurnDealt c) t st = apply_TurnDealt c st"
| "apply_payload (EvRiverDealt c) t st = apply_RiverDealt c st"
| "apply_payload (EvRunItTwiceAgreed pids) t st = st"
| "apply_payload (EvSecondBoardDealt tc rc) t st = apply_SecondBoardDealt tc rc st"
| "apply_payload (EvPlayerFolded pid) t st = apply_PlayerFolded pid st"
| "apply_payload (EvPlayerChecked pid) t st = apply_PlayerChecked pid st"
| "apply_payload (EvPlayerCalled pid a) t st = apply_PlayerCalled pid a st"
| "apply_payload (EvPlayerBet pid a) t st = apply_PlayerBet pid a st"
| "apply_payload (EvPlayerRaised pid to raiseBy) t st = apply_PlayerRaised pid to raiseBy st"
| "apply_payload (EvPlayerAllIn pid a) t st = apply_PlayerAllIn pid a st"
| "apply_payload (EvPlayerShowedCards pid c1 c2) t st = apply_ShownCards pid c1 c2 st"
| "apply_payload (EvPlayerMuckedCards pid) t st = apply_PlayerMuckedCards pid st"
| "apply_payload (EvActionStarted pid d dl) t st = apply_ActionStarted pid dl st"
| "apply_payload (EvTimeBankUsed pid u r) t st = upd_player pid (\<lambda>p. p\<lparr>TimeBankRemaining := r\<rparr>) st"
| "apply_payload (EvPlayerTimedOut pid d) t st = st"
| "apply_payload (EvBettingRoundEnded ph pt) t st = apply_BettingRoundEnded st"
| "apply_payload (EvSidePotCreated a el) t st = apply_SidePotCreated a el st"
| "apply_payload (EvShowdown pids) t st = apply_Showdown st"
| "apply_payload (EvPotAwarded a ws c d) t st = apply_PotAwarded a ws st"
| "apply_payload (EvRakeTaken a) t st = apply_RakeTaken a st"
| "apply_payload (EvHandEnded n) t st = apply_HandEnded n st"
| "apply_payload (EvBuyInRequested pid a) t st = st"
| "apply_payload (EvBuyInCompleted pid a) t st =
     upd_player pid (\<lambda>p. p\<lparr>Stack := add64 (Stack p) a\<rparr>) st"
| "apply_payload (EvBuyInFailed pid r) t st = st"
| "apply_payload (EvCashOutRequested pid) t st = st"
| "apply_payload (EvCashOutCompleted pid a) t st = st"
| "apply_payload (EvChatMessageSent pid m) t st = st"
| "apply_payload (EvPlayerChatMuted pid d r) t st = st"
| "apply_payload (EvPlayerEmoteSent pid m) t st = st"
| "apply_payload (EvCommandRejected c r k) t st = st"
| "apply_payload (EvCommandAccepted c) t st = st"

definition Apply :: "GameState \<Rightarrow> GameEvent \<Rightarrow> GameState" where
  "Apply st evt =
     (let next = (if evt_StateVersion evt > 0 then st\<lparr>Version := evt_StateVersion evt\<rparr>
                  else st\<lparr>Version := add64 (Version st) 1\<rparr>)
      in case evt_Event evt of
           None \<Rightarrow> next
         | Some e \<Rightarrow> apply_payload e (evt_OccurredAt evt) next)"

definition applyAll :: "GameState \<Rightarrow> GameEvent list \<Rightarrow> GameState" where
  "applyAll st events = foldl Apply st events"

end
