(* ===== verification/EventLog.thy ===== *)
theory EventLog
  imports Store Apply
begin

text \<open>
  \<open>LoadState\<close> of \<open>src/internal/engine/lobby.go\<close> and \<open>loadState\<close> of \<open>router.go\<close>: the state of a
  game is its latest snapshot with the later events applied, read in pages of 500. What the
  engine needs of a store is the locale \<open>event_log\<close>: one growing sequence of events per game,
  in the order of their numbers. The reading loop is proved to end and to apply every event
  once, for every such store, and \<open>pgStore\<close> is shown to be one.
\<close>

section \<open>Loading a game\<close>

partial_function (option) load_loop ::
  "'s Store \<Rightarrow> uuid \<Rightarrow> 's \<Rightarrow> GameState \<Rightarrow> nat \<Rightarrow> (go_err + (GameState \<times> nat)) option" where
  "load_loop S g s st latestSeq =
     (case GetEventsForGame S g (to_uint64 (int latestSeq + 1)) 500 s of
        Inl e \<Rightarrow> Some (Inl (Wrap ''load events: '' e))
      | Inr events \<Rightarrow>
          if events = [] then Some (Inr (st, latestSeq))
          else load_loop S g s (applyAll st events) (evt_Sequence (last events)))"

declare load_loop.simps [code]

definition LoadState :: "'s Store \<Rightarrow> uuid \<Rightarrow> 's \<Rightarrow> (go_err + (GameState \<times> nat)) option" where
  "LoadState S g s =
     (case GetLatestSnapshot S g s of
        Inl e \<Rightarrow> Some (Inl (Wrap ''load snapshot: '' e))
      | Inr (st, snapSeq) \<Rightarrow> load_loop S g s st snapSeq)"

definition router_loadState :: "'s Store \<Rightarrow> uuid \<Rightarrow> 's \<Rightarrow> (go_err + GameState) option" where
  "router_loadState S g s =
     (case GetLatestSnapshot S g s of
        Inl e \<Rightarrow> Some (Inl (if errors_Is e ErrNotFound then ErrGameNotFound
                           else Wrap ''load snapshot: '' e))
      | Inr (st, snapSeq) \<Rightarrow> map_option (map_sum id fst) (load_loop S g s st snapSeq))"

section \<open>What the engine relies on\<close>

definition latest_seq :: "GameEvent list \<Rightarrow> nat" where
  "latest_seq evs = (if evs = [] then 0 else evt_Sequence (last evs))"

definition numbered :: "nat \<Rightarrow> GameEvent list \<Rightarrow> bool" where
  \<comment> \<open>the events carry the numbers \<open>n + 1\<close>, \<open>n + 2\<close>, \<dots>\<close>
  "numbered n evs \<longleftrightarrow> map evt_Sequence evs = [n + 1..<n + 1 + length evs]"

definition after :: "nat \<Rightarrow> GameEvent list \<Rightarrow> GameEvent list" where
  "after n = filter (\<lambda>e. n < evt_Sequence e)"

definition max_seq :: nat where
  "max_seq = 9223372036854775807"

lemma sorted_after_last:
  assumes "sorted_wrt (<) (map evt_Sequence xs)" and "ys = take k xs" and "ys \<noteq> []"
  shows "after (evt_Sequence (last ys)) xs = drop k xs"
proof -
  obtain zs z where ys: "ys = zs @ [z]" using assms(3) by (cases ys rule: rev_cases) auto
  have xs: "xs = zs @ z # drop k xs" using assms(2) ys by (metis append_Cons append_Nil append_assoc append_take_drop_id)
  have "sorted_wrt (<) (map evt_Sequence (zs @ z # drop k xs))" using assms(1) xs by simp
  then have "\<forall>e \<in> set zs. evt_Sequence e < evt_Sequence z"
    "\<forall>e \<in> set (drop k xs). evt_Sequence z < evt_Sequence e"
    by (auto simp: sorted_wrt_append)
  then have "after (evt_Sequence z) (zs @ z # drop k xs) = drop k xs"
    by (auto simp: after_def filter_empty_conv filter_id_conv)
  then show ?thesis using xs ys by simp
qed

lemma last_after:
  assumes "sorted_wrt (<) (map evt_Sequence xs)" and "after n xs \<noteq> []"
  shows "last (after n xs) = last xs"
proof -
  obtain zs z where xs: "xs = zs @ [z]" using assms(2) by (cases xs rule: rev_cases) (auto simp: after_def)
  have "\<forall>e \<in> set zs. evt_Sequence e < evt_Sequence z" using assms(1) xs by (auto simp: sorted_wrt_append)
  then have "n < evt_Sequence z" using assms(2) xs by (force simp: after_def filter_empty_conv split: if_splits)
  then show ?thesis by (simp add: xs after_def)
qed

lemma latest_ge:
  assumes "sorted_wrt (<) (map evt_Sequence xs)" and "e \<in> set xs"
  shows "evt_Sequence e \<le> latest_seq xs"
  using assms by (cases xs rule: rev_cases) (auto simp: latest_seq_def sorted_wrt_append)

locale event_log =
  fixes S :: "'s Store"
    and elog :: "'s \<Rightarrow> uuid \<Rightarrow> GameEvent list"
    and good :: "'s \<Rightarrow> bool"
    and known :: "uuid \<Rightarrow> bool"
  assumes log_sorted: "good s \<Longrightarrow> sorted_wrt (<) (map evt_Sequence (elog s g))"
    and log_bound: "good s \<Longrightarrow> e \<in> set (elog s g) \<Longrightarrow> 0 < evt_Sequence e \<and> evt_Sequence e < max_seq"
    and reading: "good s \<Longrightarrow> n < max_seq \<Longrightarrow> GetEventsForGame S g (n + 1) lim s = Inr evs
        \<Longrightarrow> evs = take lim (after n (elog s g))"
    and latest: "good s \<Longrightarrow> GetLatestSequence S g s = Inr n \<Longrightarrow> n = latest_seq (elog s g)"
    and appending: "good s \<Longrightarrow> known g \<Longrightarrow> \<forall>e \<in> set evs. evt_GameId e = g
        \<Longrightarrow> numbered (latest_seq (elog s g)) evs \<Longrightarrow> latest_seq (elog s g) + length evs < max_seq
        \<Longrightarrow> AppendEvents S evs s = (None, s')
        \<Longrightarrow> good s' \<and> elog s' g = elog s g @ evs \<and> (\<forall>g'. g' \<noteq> g \<longrightarrow> elog s' g' = elog s g')
          \<and> (\<forall>g'. GetLatestSnapshot S g' s' = GetLatestSnapshot S g' s)"
    and failing: "AppendEvents S evs s = (Some err, s') \<Longrightarrow> s' = s"
begin

lemma load_loop_result:
  assumes "good s" and "n < max_seq"
  shows "\<exists>r. load_loop S g s st n = Some r
    \<and> (\<forall>x. r = Inr x \<longrightarrow> x = (applyAll st (after n (elog s g)),
          if after n (elog s g) = [] then n else latest_seq (elog s g)))
    \<and> ((\<forall>n lim. \<exists>evs. GetEventsForGame S g n lim s = Inr evs) \<longrightarrow> \<not> isl r)"
  using assms(2)
proof (induction "length (after n (elog s g))" arbitrary: n st rule: less_induct)
  case less
  have m: "to_uint64 (int n + 1) = n + 1" using less.prems by (simp add: max_seq_def to_uint64_def)
  show ?case
  proof (cases "GetEventsForGame S g (n + 1) 500 s")
    case (Inl e)
    then have "\<not> (\<forall>n lim. \<exists>evs. GetEventsForGame S g n lim s = Inr evs)"
      by (metis Inl_Inr_False)
    then show ?thesis using Inl m by (subst load_loop.simps) simp
  next
    case (Inr evs)
    note evs = reading [OF assms(1) less.prems Inr]
    show ?thesis
    proof (cases "evs = []")
      case True
      then have "after n (elog s g) = []" using evs by simp
      then show ?thesis using Inr m True by (subst load_loop.simps) (simp add: applyAll_def)
    next
      case False
      let ?l = "evt_Sequence (last evs)" and ?a = "after n (elog s g)"
      have sa: "sorted_wrt (<) (map evt_Sequence ?a)"
        using log_sorted [OF assms(1), of g] unfolding after_def
        by (simp add: sorted_wrt_map sorted_wrt_filter)
      have last: "last evs \<in> set (elog s g)" "n < ?l"
        using in_set_takeD [OF last_in_set [OF False, unfolded evs]] evs by (simp_all add: after_def)
      have "after ?l (elog s g) = after ?l ?a"
        using last(2) by (auto simp: after_def intro!: filter_cong)
      then have rest: "after ?l (elog s g) = drop 500 ?a"
        using sorted_after_last [OF sa evs False] by simp
      have b: "?l < max_seq" using log_bound [OF assms(1) last(1)] by simp
      have "length (after ?l (elog s g)) < length ?a" using rest False evs by (cases ?a) auto
      from less.hyps [OF this b, of "applyAll st evs"] obtain r where r:
        "load_loop S g s (applyAll st evs) ?l = Some r"
        "\<forall>x. r = Inr x \<longrightarrow> x = (applyAll (applyAll st evs) (after ?l (elog s g)),
          if after ?l (elog s g) = [] then ?l else latest_seq (elog s g))"
        "(\<forall>n lim. \<exists>evs. GetEventsForGame S g n lim s = Inr evs) \<longrightarrow> \<not> isl r" by blast
      have split: "?a = evs @ drop 500 ?a" using evs by simp
      have all: "applyAll (applyAll st evs) (after ?l (elog s g)) = applyAll st ?a"
        unfolding rest by (subst (2) split) (simp add: applyAll_def)
      have "drop 500 ?a = [] \<Longrightarrow> ?l = latest_seq (elog s g)"
      proof -
        assume "drop 500 ?a = []"
        then have "last ?a = last evs" "?a \<noteq> []" using split False by auto
        then have "last (elog s g) = last evs" "elog s g \<noteq> []"
          using last_after [OF log_sorted [OF assms(1)], of n] by (auto simp: after_def)
        then show ?thesis by (simp add: latest_seq_def)
      qed
      moreover have "?a \<noteq> []" using False evs by auto
      ultimately have "\<forall>x. r = Inr x \<longrightarrow> x = (applyAll st ?a,
          if ?a = [] then n else latest_seq (elog s g))"
        using r(2) all rest by (cases "length ?a \<le> 500") simp_all
      moreover have "load_loop S g s st n = Some r"
        using r(1) Inr m False by (subst load_loop.simps) simp
      ultimately show ?thesis using r(3) by blast
    qed
  qed
qed

lemma LoadState_result:
  assumes "good s" and "GetLatestSnapshot S g s = Inr (st, n)" and "n < max_seq"
    and "\<forall>n lim. \<exists>evs. GetEventsForGame S g n lim s = Inr evs"
  shows "LoadState S g s = Some (Inr (applyAll st (after n (elog s g)),
      if after n (elog s g) = [] then n else latest_seq (elog s g)))"
    and "router_loadState S g s = Some (Inr (applyAll st (after n (elog s g))))"
proof -
  obtain r where r: "load_loop S g s st n = Some r" "\<not> isl r"
    "\<forall>x. r = Inr x \<longrightarrow> x = (applyAll st (after n (elog s g)),
          if after n (elog s g) = [] then n else latest_seq (elog s g))"
    using load_loop_result [OF assms(1,3), of g st] assms(4) by blast
  then have "r = Inr (applyAll st (after n (elog s g)),
          if after n (elog s g) = [] then n else latest_seq (elog s g))"
    by (cases r) auto
  then show "LoadState S g s = Some (Inr (applyAll st (after n (elog s g)),
      if after n (elog s g) = [] then n else latest_seq (elog s g)))"
    "router_loadState S g s = Some (Inr (applyAll st (after n (elog s g))))"
    using r(1) assms(2) by (simp_all add: LoadState_def router_loadState_def)
qed

lemma LoadState_ends:
  assumes "good s" and "\<And>st n. GetLatestSnapshot S g s = Inr (st, n) \<Longrightarrow> n < max_seq"
  shows "LoadState S g s \<noteq> None" and "router_loadState S g s \<noteq> None"
proof -
  have "load_loop S g s st n \<noteq> None" if "GetLatestSnapshot S g s = Inr (st, n)" for st n
    using load_loop_result [OF assms(1) assms(2) [OF that], of g st] by auto
  then show "LoadState S g s \<noteq> None" "router_loadState S g s \<noteq> None"
    by (auto simp: LoadState_def router_loadState_def split: sum.splits)
qed

end

section \<open>\<open>pgStore\<close> is an event log\<close>

definition pg_log :: "Db \<Rightarrow> uuid \<Rightarrow> GameEvent list" where
  "pg_log s g = map er_envelope (rows_of_game g s)"

definition row_ok :: "event_row \<Rightarrow> bool" where
  "row_ok r \<longleftrightarrow> er_sequence r = int (evt_Sequence (er_envelope r))
     \<and> 0 < evt_Sequence (er_envelope r) \<and> evt_Sequence (er_envelope r) < max_seq"

definition pg_good :: "Db \<Rightarrow> bool" where
  \<comment> \<open>the constraints of \<open>game_events\<close> hold, and the open transaction has not touched the table\<close>
  "pg_good s \<longleftrightarrow> game_events (tables s) = game_events (committed s)
     \<and> distinct (map (\<lambda>r. (er_game_id r, er_sequence r)) (game_events (committed s)))
     \<and> (\<forall>r \<in> set (game_events (committed s)). row_ok r)"

lemma rows_set: "set (rows_of_game g s) = {r \<in> set (game_events (tables s)). er_game_id r = g}"
  by (auto simp: rows_of_game_def)

lemma rows_ok: "pg_good s \<Longrightarrow> r \<in> set (rows_of_game g s) \<Longrightarrow> row_ok r"
  by (auto simp: pg_good_def rows_set)

lemma distinct_of_game:
  "distinct (map (\<lambda>r. (er_game_id r, er_sequence r)) rs)
   \<Longrightarrow> distinct (map er_sequence (filter (\<lambda>r. er_game_id r = g) rs))"
  by (induction rs) (auto simp: image_iff)

lemma rows_sorted:
  assumes "pg_good s"
  shows "sorted_wrt (<) (map er_sequence (rows_of_game g s))"
proof -
  let ?rs = "filter (\<lambda>r. er_game_id r = g) (game_events (tables s))"
  have "distinct (map er_sequence ?rs)" using assms by (intro distinct_of_game) (simp add: pg_good_def)
  moreover have "mset (map er_sequence (rows_of_game g s)) = mset (map er_sequence ?rs)"
    by (simp add: rows_of_game_def)
  ultimately have "distinct (map er_sequence (rows_of_game g s))"
    by (metis mset_eq_imp_distinct_iff)
  then show ?thesis by (simp add: strict_sorted_iff rows_of_game_def)
qed

lemma log_numbers: "pg_good s \<Longrightarrow> map er_sequence (rows_of_game g s) = map int (map evt_Sequence (pg_log s g))"
  using rows_ok by (auto simp: pg_log_def row_ok_def)

lemma pg_log_sorted:
  assumes "pg_good s"
  shows "sorted_wrt (<) (map evt_Sequence (pg_log s g))"
  using rows_sorted [OF assms, of g] unfolding log_numbers [OF assms] by (simp add: sorted_wrt_map)

lemma fold_max_sorted: "sorted (x # xs) \<Longrightarrow> fold max xs x = last (x # xs)" for xs :: "int list"
  by (induction xs arbitrary: x) auto

lemma fold_max_sort: "fold max xs a = fold max (sort xs) a" for xs :: "int list"
proof -
  have "fold max xs = fold max (sort xs)"
    by (rule fold_multiset_equiv) (auto simp: fun_eq_iff max.left_commute)
  then show ?thesis by simp
qed

lemma pg_latest:
  assumes "pg_good s" and "pg_GetLatestSequence g s = Inr n"
  shows "n = latest_seq (pg_log s g)"
proof -
  let ?rs = "filter (\<lambda>r. er_game_id r = g) (game_events (tables s))" and ?s = "rows_of_game g s"
  have "sort (map er_sequence ?rs) = map er_sequence ?s"
    by (rule properties_for_sort) (simp_all add: rows_of_game_def)
  then have m: "fold max (map er_sequence ?rs) 0 = fold max (map er_sequence ?s) 0"
    by (subst fold_max_sort) simp
  have ok: "\<forall>r \<in> set ?s. row_ok r" using rows_ok [OF assms(1)] by blast
  have "sorted (0 # map er_sequence ?s)"
    using ok rows_sorted [OF assms(1), of g] by (auto simp: row_ok_def strict_sorted_iff)
  then have "fold max (map er_sequence ?rs) 0 = last (0 # map er_sequence ?s)"
    unfolding m by (rule fold_max_sorted)
  moreover have "?s \<noteq> [] \<Longrightarrow> row_ok (last ?s)" using ok by simp
  ultimately have "to_uint64 (fold max (map er_sequence ?rs) 0) = latest_seq (pg_log s g)"
    by (auto simp: latest_seq_def pg_log_def to_uint64_def last_map row_ok_def max_seq_def)
  then show ?thesis using assms(2) by (simp add: pg_GetLatestSequence_def split: if_splits)
qed

lemma pg_reading:
  assumes "pg_good s" and "n < max_seq" and "pg_GetEventsForGame g (n + 1) lim s = Inr evs"
  shows "evs = take lim (after n (pg_log s g))"
proof -
  have w: "wrap64 (int (n + 1)) = int n + 1"
    using assms(2) by (subst wrap64_id) (auto simp: in64_def max_seq_def)
  have "filter (\<lambda>r. er_sequence r \<ge> wrap64 (int (n + 1))) (rows_of_game g s)
      = filter (\<lambda>r. n < evt_Sequence (er_envelope r)) (rows_of_game g s)"
    unfolding w using rows_ok [OF assms(1)] by (intro filter_cong) (auto simp: row_ok_def)
  then show ?thesis using assms(3)
    by (simp add: pg_GetEventsForGame_def after_def pg_log_def take_map filter_map comp_def
        split: if_splits)
qed

lemma copy_events_Inr:
  "copy_events rs t = Inr t' \<Longrightarrow> t' = t\<lparr>game_events := game_events t @ rs\<rparr>
     \<and> (distinct (map (\<lambda>r. (er_game_id r, er_sequence r)) (game_events t))
        \<longrightarrow> distinct (map (\<lambda>r. (er_game_id r, er_sequence r)) (game_events t @ rs)))"
proof (induction rs arbitrary: t)
  case (Cons r rs)
  then obtain t1 where t1: "insert_event r t = Inr t1" "copy_events rs t1 = Inr t'"
    by (auto split: sum.splits)
  then have "t1 = t\<lparr>game_events := game_events t @ [r]\<rparr>"
    "\<forall>q \<in> set (game_events t). (er_game_id q, er_sequence q) \<noteq> (er_game_id r, er_sequence r)"
    by (auto simp: insert_event_def split: if_splits)
  then show ?case using Cons.IH [OF t1(2)] by auto
qed simp

lemma params_of_Inr:
  assumes "params_of parse evs = Inr rs" and "\<forall>e \<in> set evs. evt_GameId e = g" and "parse g = Some g"
    and "\<forall>e \<in> set evs. 0 < evt_Sequence e \<and> evt_Sequence e < max_seq"
  shows "map er_envelope rs = evs \<and> (\<forall>r \<in> set rs. er_game_id r = g \<and> row_ok r)"
  using assms
proof (induction evs arbitrary: rs)
  case (Cons e evs)
  obtain r rs' where r: "eventToParams parse e = Inr r" "params_of parse evs = Inr rs'" "rs = r # rs'"
    using Cons.prems(1) by (auto split: sum.splits)
  have "wrap64 (int (evt_Sequence e)) = int (evt_Sequence e)"
    using Cons.prems(4) by (subst wrap64_id) (auto simp: in64_def max_seq_def)
  then have "er_envelope r = e \<and> er_game_id r = g \<and> row_ok r"
    using r(1) Cons.prems by (auto simp: eventToParams_def Let_def row_ok_def split: if_splits)
  then show ?case using Cons.IH [OF r(2)] Cons.prems r(3) by simp
qed simp

lemma sorted_int_upt: "sorted (map int [a..<b])"
  by (induction b) (auto simp: sorted_append)

lemma rows_of_game_append:
  assumes "\<forall>r \<in> set rs. er_game_id r = g" and "sorted (map er_sequence rs)"
    and "\<forall>q \<in> set qs. \<forall>r \<in> set rs. er_game_id q = g \<longrightarrow> er_sequence q < er_sequence r"
  shows "sort_key er_sequence (filter (\<lambda>r. er_game_id r = g) (qs @ rs))
    = sort_key er_sequence (filter (\<lambda>r. er_game_id r = g) qs) @ rs"
proof (rule properties_for_sort_key)
  let ?q = "filter (\<lambda>r. er_game_id r = g) qs"
  have f: "filter (\<lambda>r. er_game_id r = g) rs = rs" using assms(1) by (simp add: filter_id_conv)
  show "mset (sort_key er_sequence ?q @ rs) = mset (filter (\<lambda>r. er_game_id r = g) (qs @ rs))"
    by (simp add: f)
  show "filter (\<lambda>x. er_sequence k = er_sequence x) (sort_key er_sequence ?q @ rs)
      = filter (\<lambda>x. er_sequence k = er_sequence x) (filter (\<lambda>r. er_game_id r = g) (qs @ rs))" for k
    using sort_key_stable [of er_sequence "er_sequence k" ?q]
    by (simp add: f eq_commute [of "er_sequence k"])
  show "sorted (map er_sequence (sort_key er_sequence ?q @ rs))"
    using assms(2,3) by (auto simp: sorted_append less_imp_le)
qed

lemma rows_of_game_other:
  "\<forall>r \<in> set rs. er_game_id r = g \<Longrightarrow> g' \<noteq> g \<Longrightarrow>
   filter (\<lambda>r. er_game_id r = g') (qs @ rs) = filter (\<lambda>r. er_game_id r = g') qs"
  by auto

lemma pg_AppendEvents_tables:
  assumes "pg_AppendEvents parse evs s = (None, s')" and "pg_good s"
  shows "\<exists>rs. params_of parse evs = Inr rs
    \<and> copy_events rs (committed s) = Inr (committed s')
    \<and> game_events (tables s') = game_events (tables s) @ rs
    \<and> game_events (committed s') = game_events (committed s) @ rs
    \<and> tables s' = (tables s)\<lparr>game_events := game_events (tables s')\<rparr> \<and> faults s' = faults s"
  using assms copy_events_Inr
  by (fastforce simp: pg_AppendEvents_def tables_def split: if_splits sum.splits option.splits)

lemma pg_appending:
  assumes "pg_good s" and "parse g = Some g" and "\<forall>e \<in> set evs. evt_GameId e = g"
    and num: "numbered (latest_seq (pg_log s g)) evs" "latest_seq (pg_log s g) + length evs < max_seq"
    and "pg_AppendEvents parse evs s = (None, s')"
  shows "pg_good s' \<and> pg_log s' g = pg_log s g @ evs
    \<and> (\<forall>g'. g' \<noteq> g \<longrightarrow> pg_log s' g' = pg_log s g')
    \<and> (\<forall>g'. pg_GetLatestSnapshot g' s' = pg_GetLatestSnapshot g' s)"
proof -
  let ?n = "latest_seq (pg_log s g)"
  have nums: "map evt_Sequence evs = [?n + 1..<?n + 1 + length evs]" using num(1) by (simp add: numbered_def)
  have "\<forall>e \<in> set evs. evt_Sequence e \<in> {?n<..<max_seq}"
  proof
    fix e assume "e \<in> set evs"
    then have "evt_Sequence e \<in> set (map evt_Sequence evs)" by simp
    then show "evt_Sequence e \<in> {?n<..<max_seq}" unfolding nums using num(2) by auto
  qed
  then have bnd: "\<forall>e \<in> set evs. 0 < evt_Sequence e \<and> evt_Sequence e < max_seq"
    and new: "\<forall>e \<in> set evs. ?n < evt_Sequence e" by auto
  obtain rs where rs: "params_of parse evs = Inr rs" "copy_events rs (committed s) = Inr (committed s')"
    "game_events (tables s') = game_events (tables s) @ rs"
    "game_events (committed s') = game_events (committed s) @ rs"
    "tables s' = (tables s)\<lparr>game_events := game_events (tables s')\<rparr>" "faults s' = faults s"
    using pg_AppendEvents_tables [OF assms(6,1)] by blast
  have env: "map er_envelope rs = evs" and rok: "\<forall>r \<in> set rs. er_game_id r = g \<and> row_ok r"
    using params_of_Inr [OF rs(1) assms(3,2) bnd] by auto
  have "map er_sequence rs = map int (map evt_Sequence evs)"
    using rok unfolding env [symmetric] by (auto simp: row_ok_def)
  then have sorted: "sorted (map er_sequence rs)"
    unfolding nums by (simp only: sorted_int_upt)
  have old: "\<forall>q \<in> set (game_events (tables s)). \<forall>r \<in> set rs. er_game_id q = g \<longrightarrow> er_sequence q < er_sequence r"
  proof (intro ballI impI)
    fix q r assume q: "q \<in> set (game_events (tables s))" "r \<in> set rs" "er_game_id q = g"
    then have "q \<in> set (rows_of_game g s)" by (simp add: rows_set)
    then have "er_envelope q \<in> set (pg_log s g)" "row_ok q"
      using rows_ok [OF assms(1)] by (auto simp: pg_log_def)
    moreover have "evt_Sequence (er_envelope q) \<le> ?n"
      using latest_ge [OF pg_log_sorted [OF assms(1)]] calculation by blast
    moreover have "?n < evt_Sequence (er_envelope r)" using new q(2) env by auto
    ultimately show "er_sequence q < er_sequence r" using rok q(2) by (auto simp: row_ok_def)
  qed
  have "rows_of_game g s' = rows_of_game g s @ rs"
    unfolding rows_of_game_def rs(3) using rok sorted old by (intro rows_of_game_append) auto
  moreover have "g' \<noteq> g \<Longrightarrow> rows_of_game g' s' = rows_of_game g' s" for g'
    unfolding rows_of_game_def rs(3) using rok by (subst rows_of_game_other) auto
  moreover have "pg_good s'"
    using copy_events_Inr [OF rs(2)] rs(3,4) rok assms(1) by (auto simp: pg_good_def)
  moreover have "game_snapshots (tables s') = game_snapshots (tables s)" by (subst rs(5)) simp
  ultimately show ?thesis
    using env rs(6) by (simp add: pg_log_def pg_GetLatestSnapshot_def down_def)
qed

interpretation pg: event_log "pgStore parse" pg_log pg_good "\<lambda>g. parse g = Some g"
  for parse :: "string \<Rightarrow> uuid option"
proof unfold_locales
  fix s :: Db and s' g n lim evs e err
  show "pg_good s \<Longrightarrow> sorted_wrt (<) (map evt_Sequence (pg_log s g))" by (rule pg_log_sorted)
  show "pg_good s \<Longrightarrow> e \<in> set (pg_log s g) \<Longrightarrow> 0 < evt_Sequence e \<and> evt_Sequence e < max_seq"
    using rows_ok by (auto simp: pg_log_def row_ok_def)
  show "pg_good s \<Longrightarrow> n < max_seq \<Longrightarrow> GetEventsForGame (pgStore parse) g (n + 1) lim s = Inr evs
      \<Longrightarrow> evs = take lim (after n (pg_log s g))"
    using pg_reading [of s n g lim evs] by (simp add: pgStore_def)
  show "pg_good s \<Longrightarrow> GetLatestSequence (pgStore parse) g s = Inr n \<Longrightarrow> n = latest_seq (pg_log s g)"
    using pg_latest [of s g n] by (simp add: pgStore_def)
  show "pg_good s \<Longrightarrow> parse g = Some g \<Longrightarrow> \<forall>e \<in> set evs. evt_GameId e = g
      \<Longrightarrow> numbered (latest_seq (pg_log s g)) evs \<Longrightarrow> latest_seq (pg_log s g) + length evs < max_seq
      \<Longrightarrow> AppendEvents (pgStore parse) evs s = (None, s')
      \<Longrightarrow> pg_good s' \<and> pg_log s' g = pg_log s g @ evs \<and> (\<forall>g'. g' \<noteq> g \<longrightarrow> pg_log s' g' = pg_log s g')
        \<and> (\<forall>g'. GetLatestSnapshot (pgStore parse) g' s' = GetLatestSnapshot (pgStore parse) g' s)"
    using pg_appending [of s parse g evs s'] by (simp add: pgStore_def)
  show "AppendEvents (pgStore parse) evs s = (Some err, s') \<Longrightarrow> s' = s"
    by (auto simp: pgStore_def pg_AppendEvents_def split: if_splits sum.splits)
qed

end
