(* ===== verification/Deck.thy ===== *)
theory Deck
  imports Proto
begin

text \<open>
  \<open>src/internal/deck/deck.go\<close>: the 52-card deck, its Fisher-Yates shuffle and drawing.
  The random source is the sequence of bytes that \<open>crypto/rand\<close> will yield; running out
  of them is a failing reader. The shuffle takes the source's \<open>rand.Int\<close> as an argument
  so that its correctness can be stated over the choices it makes.
\<close>

definition NoCard :: card where "NoCard = 255"
definition Size :: nat where "Size = 52"

record Deck =
  deck_cards :: "card list"
  deck_pos :: nat

definition NewDeck :: Deck where
  "NewDeck = \<lparr>deck_cards = [0..<Size], deck_pos = 0\<rparr>"

section \<open>\<open>crypto/rand.Int\<close>\<close>

text \<open>The standard library's rejection sampling for a bound of at most 256: one byte is read,
  masked to the bit length of \<open>max - 1\<close>, and thrown away when it is not below \<open>max\<close>.\<close>

fun bit_len :: "nat \<Rightarrow> nat" where
  "bit_len n = (if n = 0 then 0 else Suc (bit_len (n div 2)))"

declare bit_len.simps [simp del]

fun rand_Int :: "nat list \<Rightarrow> nat \<Rightarrow> (go_error + nat) \<times> nat list" where
  "rand_Int bs n =
     (if n \<le> 1 then (Inr 0, bs)
      else case bs of
          [] \<Rightarrow> (Inl ''unexpected EOF'', [])
        | b # bs' \<Rightarrow>
            let v = b mod 2 ^ bit_len (n - 1)
            in if v < n then (Inr v, bs') else rand_Int bs' n)"

declare rand_Int.simps [simp del]

lemma rand_Int_bound: "0 < n \<Longrightarrow> rand_Int bs n = (Inr j, bs') \<Longrightarrow> j < n"
proof (induction bs n rule: rand_Int.induct)
  case (1 bs n)
  then show ?case
    by (subst (asm) (2) rand_Int.simps) (auto simp: Let_def split: if_splits list.splits)
qed

section \<open>The shuffle\<close>

definition swap :: "'a list \<Rightarrow> nat \<Rightarrow> nat \<Rightarrow> 'a list" where
  \<comment> \<open>\<open>c[i], c[j] = c[j], c[i]\<close>\<close>
  "swap c i j = c[i := c ! j, j := c ! i]"

text \<open>\<open>for i := n - 1; i > 0; i--\<close>. A failing reader leaves the deck as it was shuffled
  so far.\<close>

fun shuffle_loop ::
  "('r \<Rightarrow> nat \<Rightarrow> (go_error + nat) \<times> 'r) \<Rightarrow> nat \<Rightarrow> 'a list \<Rightarrow> 'r
     \<Rightarrow> go_error option \<times> 'a list \<times> 'r" where
  "shuffle_loop rnd 0 cs r = (None, cs, r)"
| "shuffle_loop rnd (Suc i) cs r =
     (case rnd r (Suc (Suc i)) of
        (Inl e, r') \<Rightarrow> (Some e, cs, r')
      | (Inr j, r') \<Rightarrow> shuffle_loop rnd i (swap cs (Suc i) j) r')"

definition CryptoShuffle :: "Deck \<Rightarrow> nat list \<Rightarrow> go_error option \<times> Deck \<times> nat list" where
  "CryptoShuffle d bs =
     (case shuffle_loop rand_Int (length (deck_cards d) - 1) (deck_cards d) bs of
        (e, cs, bs') \<Rightarrow> (e, \<lparr>deck_cards = cs, deck_pos = 0\<rparr>, bs'))"

section \<open>Drawing\<close>

definition Draw :: "Deck \<Rightarrow> (go_error + card) \<times> Deck" where
  "Draw d =
     (if deck_pos d \<ge> length (deck_cards d) then (Inl ''deck: no cards remaining'', d)
      else (Inr (deck_cards d ! deck_pos d), d\<lparr>deck_pos := deck_pos d + 1\<rparr>))"

definition deck_Remaining :: "Deck \<Rightarrow> int" where
  "deck_Remaining d = int (length (deck_cards d)) - int (deck_pos d)"

definition deck_rest :: "Deck \<Rightarrow> card list" where
  \<comment> \<open>the cards still to come\<close>
  "deck_rest d = drop (deck_pos d) (deck_cards d)"

section \<open>Correctness\<close>

lemma length_swap [simp]: "length (swap c i j) = length c"
  by (simp add: swap_def)

lemma mset_swap': "i < length c \<Longrightarrow> j < length c \<Longrightarrow> mset (swap c i j) = mset c"
  unfolding swap_def by (cases "i = j") (simp_all add: mset_swap)

lemma swap_nth:
  "i < length c \<Longrightarrow> j < length c \<Longrightarrow>
   swap c i j ! k = (if k = i then c ! j else if k = j then c ! i else c ! k)"
  by (cases "k < length c") (auto simp: swap_def nth_list_update)

text \<open>Every run permutes the cards, also one that the reader cuts short.\<close>

lemma shuffle_loop_mset:
  assumes "\<And>r n j r'. rnd r n = (Inr j, r') \<Longrightarrow> 0 < n \<Longrightarrow> j < n"
    and "i < length cs \<or> i = 0"
  shows "mset (fst (snd (shuffle_loop rnd i cs r))) = mset cs"
  using assms(2)
proof (induction i arbitrary: cs r)
  case (Suc i)
  obtain v r' where v: "rnd r (Suc (Suc i)) = (v, r')" by fastforce
  show ?case
  proof (cases v)
    case (Inl e)
    with v show ?thesis by simp
  next
    case (Inr j)
    with v assms(1) have "j < Suc (Suc i)" by blast
    then have "j < length cs" "Suc i < length cs" using Suc.prems by auto
    then show ?thesis using v Inr Suc.IH [of "swap cs (Suc i) j" r'] by (simp add: mset_swap')
  qed
qed simp

lemma CryptoShuffle_mset:
  "CryptoShuffle d bs = (e, d', bs') \<Longrightarrow> mset (deck_cards d') = mset (deck_cards d)"
proof -
  let ?cs = "deck_cards d"
  assume *: "CryptoShuffle d bs = (e, d', bs')"
  have "length ?cs - 1 < length ?cs \<or> length ?cs - 1 = 0" by linarith
  then have "mset (fst (snd (shuffle_loop rand_Int (length ?cs - 1) ?cs bs))) = mset ?cs"
    by (intro shuffle_loop_mset) (auto intro: rand_Int_bound)
  with * show ?thesis by (auto simp: CryptoShuffle_def split: prod.splits)
qed

lemma CryptoShuffle_pos: "CryptoShuffle d bs = (e, d', bs') \<Longrightarrow> deck_pos d' = 0"
  by (auto simp: CryptoShuffle_def split: prod.splits)

subsection \<open>Every order from exactly one run of choices\<close>

text \<open>The answers of \<open>rand.Int\<close> as a list: \<open>feed\<close> gives the next one, if it is one that the call of the
  loop can get, that is if it is below the bound that the loop asks for. \<open>runs i cs\<close> are the lists of
  answers with which the loop from \<open>i\<close> comes to its end, all of them used.\<close>

fun feed :: "nat list \<Rightarrow> nat \<Rightarrow> (go_error + nat) \<times> nat list" where
  "feed [] n = (Inl ''unexpected EOF'', [])"
| "feed (j # js) n = (if j < n then (Inr j, js) else (Inl ''out of range'', js))"

definition runs :: "nat \<Rightarrow> 'a list \<Rightarrow> nat list set" where
  "runs i cs = {js. fst (shuffle_loop feed i cs js) = None \<and> snd (snd (shuffle_loop feed i cs js)) = []}"

definition shuffled :: "nat \<Rightarrow> 'a list \<Rightarrow> nat list \<Rightarrow> 'a list" where
  "shuffled i cs js = fst (snd (shuffle_loop feed i cs js))"

text \<open>The same lists, counted: one of \<open>i + 1\<close> answers first.\<close>

fun choices :: "nat \<Rightarrow> nat list set" where
  "choices 0 = {[]}"
| "choices (Suc i) = {j # js | j js. j \<le> Suc i \<and> js \<in> choices i}"

lemma runs_choices: "runs i cs = choices i"
proof -
  have "js \<in> runs i cs \<longleftrightarrow> js \<in> choices i" for js
  proof (induction i arbitrary: cs js)
    case (Suc i)
    show ?case
    proof (cases js)
      case (Cons j ks)
      then show ?thesis using Suc [of ks "swap cs (Suc i) j"] by (auto simp: runs_def)
    qed (simp add: runs_def)
  qed (auto simp: runs_def)
  then show ?thesis by blast
qed

lemma shuffled_0 [simp]: "shuffled 0 cs js = cs"
  and shuffled_Suc [simp]: "j \<le> Suc i \<Longrightarrow> shuffled (Suc i) cs (j # js) = shuffled i (swap cs (Suc i) j) js"
  by (simp_all add: shuffled_def)

lemma shuffled_above: "js \<in> choices i \<Longrightarrow> i < length cs \<Longrightarrow> i < k \<Longrightarrow> k < length cs \<Longrightarrow>
  shuffled i cs js ! k = cs ! k"
proof (induction i arbitrary: cs js)
  case (Suc i)
  then obtain j js' where js: "js = j # js'" "j \<le> Suc i" "js' \<in> choices i" by auto
  then show ?case using Suc by (simp add: swap_nth)
qed simp

lemma shuffled_mset: "js \<in> choices i \<Longrightarrow> i < length cs \<Longrightarrow> mset (shuffled i cs js) = mset cs"
proof (induction i arbitrary: cs js)
  case (Suc i)
  then show ?case by (auto simp: mset_swap')
qed simp

lemma shuffled_inj:
  assumes "distinct cs" and "i < length cs" and "js \<in> choices i" and "js' \<in> choices i"
    and "shuffled i cs js = shuffled i cs js'"
  shows "js = js'"
  using assms
proof (induction i arbitrary: cs js js')
  case (Suc i)
  obtain j ks where js: "js = j # ks" "j \<le> Suc i" "ks \<in> choices i" using Suc.prems(3) by auto
  obtain j' ks' where js': "js' = j' # ks'" "j' \<le> Suc i" "ks' \<in> choices i"
    using Suc.prems(4) by auto
  let ?c = "swap cs (Suc i) j" and ?c' = "swap cs (Suc i) j'"
  have "shuffled i ?c ks ! Suc i = cs ! j" "shuffled i ?c' ks' ! Suc i = cs ! j'"
    using js js' Suc.prems(2) by (simp_all add: shuffled_above swap_nth)
  then have "cs ! j = cs ! j'" using Suc.prems(5) js js' by simp
  then have jj: "j = j'" using Suc.prems(1,2) js js' by (simp add: nth_eq_iff_index_eq)
  have "distinct ?c"
    using Suc.prems(1,2) js(2) by (metis le_less_trans length_swap mset_eq_imp_distinct_iff mset_swap')
  then have "ks = ks'" using Suc js js' jj by simp
  with jj js js' show ?case by simp
qed simp

lemma shuffled_surj:
  assumes "distinct cs" and "i < length cs" and "mset cs' = mset cs"
    and "\<And>k. i < k \<Longrightarrow> k < length cs \<Longrightarrow> cs' ! k = cs ! k"
  shows "\<exists>js \<in> choices i. shuffled i cs js = cs'"
  using assms
proof (induction i arbitrary: cs)
  case 0
  have len: "length cs' = length cs" using 0(3) by (metis size_mset)
  have "drop 1 cs' = drop 1 cs" using 0(4) len by (intro nth_equalityI) auto
  moreover obtain x xs y ys where "cs = x # xs" "cs' = y # ys"
    using 0(2) len by (cases cs; cases cs') simp_all
  ultimately have "cs' = cs" using 0(3) by simp
  then show ?case by simp
next
  case (Suc i)
  have len: "length cs' = length cs" using Suc.prems(3) by (metis size_mset)
  have "cs' ! Suc i \<in> set cs" using Suc.prems(2,3) len by (metis mset_eq_setD nth_mem)
  then obtain j where j: "j < length cs" "cs ! j = cs' ! Suc i" by (auto simp: in_set_conv_nth)
  have dist': "distinct cs'" using Suc.prems(1,3) by (metis mset_eq_imp_distinct_iff)
  have "j \<le> Suc i"
  proof (rule ccontr)
    assume "\<not> j \<le> Suc i"
    then have "cs' ! j = cs' ! Suc i" using Suc.prems(4) [of j] j by simp
    then show False using \<open>\<not> j \<le> Suc i\<close> dist' j(1) len Suc.prems(2)
      by (simp add: nth_eq_iff_index_eq)
  qed
  let ?c = "swap cs (Suc i) j"
  have ms: "mset ?c = mset cs" using Suc.prems(2) j(1) by (simp add: mset_swap')
  have "\<exists>js \<in> choices i. shuffled i ?c js = cs'"
  proof (rule Suc.IH)
    show "distinct ?c" using ms Suc.prems(1) by (metis mset_eq_imp_distinct_iff)
    show "cs' ! k = ?c ! k" if "i < k" "k < length ?c" for k
      using that Suc.prems(2,4) j \<open>j \<le> Suc i\<close> by (cases "k = Suc i") (auto simp: swap_nth)
  qed (use Suc.prems ms in auto)
  then obtain js where "js \<in> choices i" "shuffled i ?c js = cs'" by blast
  then show ?case using \<open>j \<le> Suc i\<close> by (intro bexI [of _ "j # js"]) auto
qed

text \<open>A byte gives \<open>rand.Int\<close> every answer below its bound equally often.\<close>

lemma bit_len_0 [simp]: "bit_len 0 = 0"
  by (subst bit_len.simps) simp

lemma bit_len_above: "m < 2 ^ bit_len m"
proof (induction m rule: bit_len.induct)
  case (1 n)
  show ?case
  proof (cases "n = 0")
    case False
    then show ?thesis using 1 by (simp add: bit_len.simps [of n])
  qed simp
qed

lemma bit_len_least: "m < 2 ^ k \<Longrightarrow> bit_len m \<le> k"
proof (induction k arbitrary: m)
  case (Suc k)
  then show ?case by (cases "m = 0") (simp_all add: bit_len.simps [of m])
qed simp

lemma card_residues:
  fixes v :: nat
  assumes "v < 2 ^ k" and "k \<le> 8"
  shows "card {b. b < 256 \<and> b mod 2 ^ k = v} = 2 ^ (8 - k)"
proof -
  have m: "(256::nat) = 2 ^ (8 - k) * 2 ^ k" using assms(2) by (simp flip: power_add)
  have "{b. b < 256 \<and> b mod 2 ^ k = v} = (\<lambda>q. q * 2 ^ k + v) ` {..<2 ^ (8 - k)}"
  proof (intro set_eqI iffI)
    fix b assume "b \<in> {b. b < 256 \<and> b mod 2 ^ k = v}"
    then have "b = b div 2 ^ k * 2 ^ k + v" "b div 2 ^ k < 2 ^ (8 - k)"
      using m by (auto simp: less_mult_imp_div_less div_mult_mod_eq)
    then show "b \<in> (\<lambda>q. q * 2 ^ k + v) ` {..<2 ^ (8 - k)}" by blast
  next
    fix b assume "b \<in> (\<lambda>q. q * 2 ^ k + v) ` {..<2 ^ (8 - k)}"
    then obtain q where q: "q < 2 ^ (8 - k)" "b = q * 2 ^ k + v" by blast
    then have "b < (q + 1) * 2 ^ k" "(q + 1) * 2 ^ k \<le> 256"
      using assms(1) unfolding m by (simp, simp only: mult_le_mono1 Suc_leI Suc_eq_plus1 [symmetric])
    then show "b \<in> {b. b < 256 \<and> b mod 2 ^ k = v}" using q assms(1) by simp
  qed
  moreover have "inj_on (\<lambda>q. q * 2 ^ k + v) {..<2 ^ (8 - k)}" by (auto intro: inj_onI)
  ultimately show ?thesis by (simp add: card_image)
qed

lemma rand_Int_uniform:
  assumes "2 \<le> n" and "n \<le> 256" and "v < n"
  shows "card {b. b < 256 \<and> rand_Int [b] n = (Inr v, [])} = 2 ^ (8 - bit_len (n - 1))"
proof -
  have e: "rand_Int [b] n = (Inr v, []) \<longleftrightarrow> b mod 2 ^ bit_len (n - 1) = v" for b
    using assms(1,3) by (auto simp: rand_Int.simps [of "[b]"] rand_Int.simps [of "[]"] Let_def)
  have "n - 1 < 2 ^ 8" using assms(1,2) by simp
  then have "bit_len (n - 1) \<le> 8" by (rule bit_len_least)
  moreover have "v < 2 ^ bit_len (n - 1)" using bit_len_above [of "n - 1"] assms by linarith
  ultimately show ?thesis unfolding e by (rule card_residues [rotated])
qed

text \<open>C37. The shuffle is fair by construction. On the fresh 52-card deck the lists of answers with which
  the loop can run, each answer below the bound that the loop asks for, and the orders of the deck
  correspond one to one; and of the 256 values of a byte the same number makes \<open>rand.Int\<close> answer each
  of the numbers below its bound, the others are thrown away. So independent uniform bytes give every
  order of the 52 cards with the same probability.\<close>

theorem shuffle_bijective:
  "bij_betw (shuffled 51 (deck_cards NewDeck)) (runs 51 (deck_cards NewDeck))
     {cs. mset cs = mset (deck_cards NewDeck)}
   \<and> (\<forall>n v. 2 \<le> n \<and> n \<le> Size \<and> v < n
        \<longrightarrow> card {b. b < 256 \<and> rand_Int [b] n = (Inr v, [])} = 2 ^ (8 - bit_len (n - 1)))"
proof (intro conjI)
  have deck: "distinct (deck_cards NewDeck)" "51 < length (deck_cards NewDeck)"
    by (simp_all add: NewDeck_def Size_def)
  have "bij_betw (shuffled 51 (deck_cards NewDeck)) (choices 51) {cs. mset cs = mset (deck_cards NewDeck)}"
  proof (rule bij_betwI')
    show "shuffled 51 (deck_cards NewDeck) x = shuffled 51 (deck_cards NewDeck) y \<longleftrightarrow> x = y"
      if "x \<in> choices 51" "y \<in> choices 51" for x y
      using shuffled_inj [OF deck that] by blast
    show "shuffled 51 (deck_cards NewDeck) x \<in> {cs. mset cs = mset (deck_cards NewDeck)}"
      if "x \<in> choices 51" for x
      using shuffled_mset [OF that deck(2)] by simp
    show "\<exists>x \<in> choices 51. y = shuffled 51 (deck_cards NewDeck) x"
      if "y \<in> {cs. mset cs = mset (deck_cards NewDeck)}" for y
    proof -
      have "length y = length (deck_cards NewDeck)" using that by (metis mem_Collect_eq size_mset)
      then show ?thesis using shuffled_surj [OF deck, of y] that by (auto simp: NewDeck_def Size_def)
    qed
  qed
  then show "bij_betw (shuffled 51 (deck_cards NewDeck)) (runs 51 (deck_cards NewDeck))
      {cs. mset cs = mset (deck_cards NewDeck)}"
    by (simp only: runs_choices)
  show "\<forall>n v. 2 \<le> n \<and> n \<le> Size \<and> v < n
      \<longrightarrow> card {b. b < 256 \<and> rand_Int [b] n = (Inr v, [])} = 2 ^ (8 - bit_len (n - 1))"
    by (intro allI impI, rule rand_Int_uniform) (simp_all add: Size_def)
qed

text \<open>Four bytes make the first call of the shuffle answer 7.\<close>

theorem shuffle_bijective_witness: "card {b. b < 256 \<and> rand_Int [b] 52 = (Inr 7, [])} = 4"
proof -
  have "bit_len 51 = 6" by code_simp
  then show ?thesis using conjunct2 [OF shuffle_bijective, THEN spec [of _ 52], THEN spec [of _ 7]] by (simp add: Size_def)
qed

end
