(* ===== verification/Dealer.thy ===== *)
theory Dealer
  imports Deck
begin

text \<open>
  \<open>src/internal/engine/dealer.go\<close>: the interface through which the engine gets its cards,
  and its two implementations. A Go interface value is a record of its methods over a
  state of any type; the methods return the new state. What the engine may rely on is the
  locale \<open>card_source\<close>, discharged for both dealers; \<open>fair_source\<close> adds what a shuffle
  promises and is discharged for the production dealer.
\<close>

record 'd Dealer =
  Shuffle :: "'d \<Rightarrow> go_error option \<times> 'd"
  Deal :: "'d \<Rightarrow> (go_error + card) \<times> 'd"
  Burn :: "'d \<Rightarrow> go_error option \<times> 'd"
  Remaining :: "'d \<Rightarrow> int"

section \<open>CryptoDealer\<close>

text \<open>The state is the deck and the bytes the random source has left.\<close>

type_synonym CryptoState = "Deck \<times> nat list"

definition NewCryptoDealer :: "nat list \<Rightarrow> CryptoState" where
  "NewCryptoDealer rng = (NewDeck, rng)"

definition Crypto_Shuffle :: "CryptoState \<Rightarrow> go_error option \<times> CryptoState" where
  "Crypto_Shuffle c = (case CryptoShuffle NewDeck (snd c) of (e, d, rng) \<Rightarrow> (e, (d, rng)))"

definition Crypto_Deal :: "CryptoState \<Rightarrow> (go_error + card) \<times> CryptoState" where
  "Crypto_Deal c = (case Draw (fst c) of (r, d) \<Rightarrow> (r, (d, snd c)))"

definition Crypto_Burn :: "CryptoState \<Rightarrow> go_error option \<times> CryptoState" where
  "Crypto_Burn c =
     (case Draw (fst c) of
        (Inl e, d) \<Rightarrow> (Some e, (d, snd c))
      | (Inr _, d) \<Rightarrow> (None, (d, snd c)))"

definition Crypto_Remaining :: "CryptoState \<Rightarrow> int" where
  "Crypto_Remaining c = deck_Remaining (fst c)"

definition CryptoDealer :: "CryptoState Dealer" where
  "CryptoDealer = \<lparr>Shuffle = Crypto_Shuffle, Deal = Crypto_Deal, Burn = Crypto_Burn,
     Remaining = Crypto_Remaining\<rparr>"

section \<open>FixedDealer\<close>

record FixedState =
  fd_cards :: "card list"
  fd_pos :: nat

definition NewFixedDealer :: "card list \<Rightarrow> FixedState" where
  "NewFixedDealer cs = \<lparr>fd_cards = cs, fd_pos = 0\<rparr>"

definition Fixed_Shuffle :: "FixedState \<Rightarrow> go_error option \<times> FixedState" where
  "Fixed_Shuffle f = (None, f\<lparr>fd_pos := 0\<rparr>)"

definition Fixed_Deal :: "FixedState \<Rightarrow> (go_error + card) \<times> FixedState" where
  "Fixed_Deal f =
     (if fd_pos f \<ge> length (fd_cards f) then (Inl ''fixed dealer: out of cards'', f)
      else (Inr (fd_cards f ! fd_pos f), f\<lparr>fd_pos := fd_pos f + 1\<rparr>))"

definition Fixed_Burn :: "FixedState \<Rightarrow> go_error option \<times> FixedState" where
  "Fixed_Burn f =
     (if fd_pos f \<ge> length (fd_cards f) then (Some ''fixed dealer: out of cards'', f)
      else (None, f\<lparr>fd_pos := fd_pos f + 1\<rparr>))"

definition Fixed_Remaining :: "FixedState \<Rightarrow> int" where
  "Fixed_Remaining f = int (length (fd_cards f)) - int (fd_pos f)"

definition FixedDealer :: "FixedState Dealer" where
  "FixedDealer = \<lparr>Shuffle = Fixed_Shuffle, Deal = Fixed_Deal, Burn = Fixed_Burn,
     Remaining = Fixed_Remaining\<rparr>"

section \<open>Drawing several cards\<close>

text \<open>The shape every deal of the engine has: \<open>n\<close> calls of \<open>Deal\<close>, stopping at the first
  error.\<close>

fun deal_n :: "'d Dealer \<Rightarrow> nat \<Rightarrow> 'd \<Rightarrow> (go_error + card list) \<times> 'd" where
  "deal_n dlr 0 d = (Inr [], d)"
| "deal_n dlr (Suc n) d =
     (case Deal dlr d of
        (Inl e, d1) \<Rightarrow> (Inl e, d1)
      | (Inr c, d1) \<Rightarrow>
          (case deal_n dlr n d1 of
             (Inl e, d2) \<Rightarrow> (Inl e, d2)
           | (Inr cs, d2) \<Rightarrow> (Inr (c # cs), d2)))"

section \<open>The contract\<close>

text \<open>\<open>rest d\<close> is the sequence of cards the dealer still holds, \<open>ok d\<close> its representation
  invariant (the draw position is inside the deck).\<close>

locale card_source =
  fixes dlr :: "'d Dealer"
    and rest :: "'d \<Rightarrow> card list"
    and ok :: "'d \<Rightarrow> bool"
  assumes deal_Cons:
      "ok d \<Longrightarrow> rest d = c # cs \<Longrightarrow> \<exists>d'. Deal dlr d = (Inr c, d') \<and> rest d' = cs \<and> ok d'"
    and deal_Nil: "ok d \<Longrightarrow> rest d = [] \<Longrightarrow> \<exists>e. Deal dlr d = (Inl e, d)"
    and burn_Cons:
      "ok d \<Longrightarrow> rest d = c # cs \<Longrightarrow> \<exists>d'. Burn dlr d = (None, d') \<and> rest d' = cs \<and> ok d'"
    and burn_Nil: "ok d \<Longrightarrow> rest d = [] \<Longrightarrow> \<exists>e. Burn dlr d = (Some e, d)"
    and shuffle_ok: "Shuffle dlr d = (e, d') \<Longrightarrow> ok d'"
    and remaining: "ok d \<Longrightarrow> Remaining dlr d = int (length (rest d))"
begin

lemma deal_n_ok:
  "ok d \<Longrightarrow> n \<le> length (rest d) \<Longrightarrow>
   \<exists>d'. deal_n dlr n d = (Inr (take n (rest d)), d') \<and> rest d' = drop n (rest d) \<and> ok d'"
proof (induction n arbitrary: d)
  case (Suc n)
  then obtain c cs where r: "rest d = c # cs" by (cases "rest d") auto
  then obtain d1 where "Deal dlr d = (Inr c, d1)" "rest d1 = cs" "ok d1"
    using deal_Cons Suc.prems(1) by blast
  with r Suc show ?case by (fastforce dest: Suc.IH [of d1])
qed simp

lemma deal_n_short: "ok d \<Longrightarrow> length (rest d) < n \<Longrightarrow> \<exists>e d'. deal_n dlr n d = (Inl e, d')"
proof (induction n arbitrary: d)
  case (Suc n)
  show ?case
  proof (cases "rest d")
    case Nil
    then show ?thesis using deal_Nil Suc.prems(1) by fastforce
  next
    case (Cons c cs)
    then obtain d1 where "Deal dlr d = (Inr c, d1)" "rest d1 = cs" "ok d1"
      using deal_Cons Suc.prems(1) by blast
    with Cons Suc show ?thesis by (fastforce dest: Suc.IH [of d1])
  qed
qed simp

lemma deal_n_error_iff:
  assumes "ok d"
  shows "(\<exists>e d'. deal_n dlr n d = (Inl e, d')) \<longleftrightarrow> Remaining dlr d < int n"
proof
  assume *: "\<exists>e d'. deal_n dlr n d = (Inl e, d')"
  show "Remaining dlr d < int n"
  proof (rule ccontr)
    assume "\<not> Remaining dlr d < int n"
    then have "n \<le> length (rest d)" using assms by (simp add: remaining)
    with * assms deal_n_ok [of d n] show False by auto
  qed
qed (simp add: assms remaining deal_n_short)

end

locale fair_source = card_source +
  assumes shuffle_full:
    "Shuffle dlr d = (None, d') \<Longrightarrow> distinct (rest d') \<and> set (rest d') = {0..<52}"
begin

lemma shuffle_length: "Shuffle dlr d = (None, d') \<Longrightarrow> length (rest d') = 52"
  by (metis card_atLeastLessThan diff_zero distinct_card shuffle_full)

lemma shuffle_then_deal:
  assumes "Shuffle dlr d = (None, d')" and "n \<le> 52"
  shows "\<exists>cs d''. deal_n dlr n d' = (Inr cs, d'') \<and> length cs = n \<and> distinct cs
           \<and> (\<forall>c \<in> set cs. c < 52) \<and> rest d'' = drop n (rest d') \<and> ok d''"
proof -
  have "n \<le> length (rest d')" using assms shuffle_length by simp
  then obtain d'' where "deal_n dlr n d' = (Inr (take n (rest d')), d'')"
    "rest d'' = drop n (rest d')" "ok d''" using deal_n_ok shuffle_ok [OF assms(1)] by blast
  moreover have "distinct (rest d')" "set (rest d') = {0..<52}"
    using shuffle_full [OF assms(1)] by simp_all
  ultimately show ?thesis using \<open>n \<le> length (rest d')\<close> by (fastforce dest: in_set_takeD)
qed

end

section \<open>Both dealers keep it\<close>

definition crypto_rest :: "CryptoState \<Rightarrow> card list" where
  "crypto_rest c = deck_rest (fst c)"

definition crypto_ok :: "CryptoState \<Rightarrow> bool" where
  "crypto_ok c \<longleftrightarrow> deck_pos (fst c) \<le> length (deck_cards (fst c))"

definition fixed_rest :: "FixedState \<Rightarrow> card list" where
  "fixed_rest f = drop (fd_pos f) (fd_cards f)"

definition fixed_ok :: "FixedState \<Rightarrow> bool" where
  "fixed_ok f \<longleftrightarrow> fd_pos f \<le> length (fd_cards f)"

lemma drop_Cons_nth: "drop n xs = c # cs \<Longrightarrow> n < length xs \<and> xs ! n = c \<and> drop (Suc n) xs = cs"
  by (metis Cons_nth_drop_Suc drop_eq_Nil linorder_not_less list.distinct(1) list.inject)

lemma Crypto_Shuffle_rest:
  "Crypto_Shuffle c = (e, c') \<Longrightarrow> crypto_ok c' \<and> mset (crypto_rest c') = mset [0..<Size]"
proof -
  assume "Crypto_Shuffle c = (e, c')"
  then obtain d rng where d: "CryptoShuffle NewDeck (snd c) = (e, d, rng)" "c' = (d, rng)"
    by (cases c') (auto simp: Crypto_Shuffle_def split: prod.splits)
  then show ?thesis
    using CryptoShuffle_mset [OF d(1)] CryptoShuffle_pos [OF d(1)]
    by (simp add: crypto_ok_def crypto_rest_def deck_rest_def NewDeck_def)
qed

interpretation crypto: fair_source CryptoDealer crypto_rest crypto_ok
proof unfold_locales
  fix d c cs
  assume *: "crypto_ok d" "crypto_rest d = c # cs"
  then show "\<exists>d'. Deal CryptoDealer d = (Inr c, d') \<and> crypto_rest d' = cs \<and> crypto_ok d'"
    and "\<exists>d'. Burn CryptoDealer d = (None, d') \<and> crypto_rest d' = cs \<and> crypto_ok d'"
    by (auto simp: CryptoDealer_def Crypto_Deal_def Crypto_Burn_def Draw_def crypto_rest_def
        crypto_ok_def deck_rest_def dest!: drop_Cons_nth)
next
  fix d
  assume *: "crypto_ok d" "crypto_rest d = []"
  then show "\<exists>e. Deal CryptoDealer d = (Inl e, d)" "\<exists>e. Burn CryptoDealer d = (Some e, d)"
    by (auto simp: CryptoDealer_def Crypto_Deal_def Crypto_Burn_def Draw_def crypto_rest_def
        deck_rest_def)
next
  fix d e d'
  assume "Shuffle CryptoDealer d = (e, d')"
  then show "crypto_ok d'" by (auto simp: CryptoDealer_def dest: Crypto_Shuffle_rest)
next
  fix d
  assume "crypto_ok d"
  then show "Remaining CryptoDealer d = int (length (crypto_rest d))"
    by (simp add: CryptoDealer_def Crypto_Remaining_def deck_Remaining_def crypto_rest_def
        deck_rest_def crypto_ok_def)
next
  fix d d'
  assume "Shuffle CryptoDealer d = (None, d')"
  then have "mset (crypto_rest d') = mset [0..<52]"
    by (auto simp: CryptoDealer_def Size_def dest: Crypto_Shuffle_rest)
  then show "distinct (crypto_rest d') \<and> set (crypto_rest d') = {0..<52}"
    by (metis atLeastLessThan_upt distinct_upt mset_eq_imp_distinct_iff mset_eq_setD)
qed

interpretation fixed: card_source FixedDealer fixed_rest fixed_ok
proof unfold_locales
  fix d c cs
  assume *: "fixed_ok d" "fixed_rest d = c # cs"
  then show "\<exists>d'. Deal FixedDealer d = (Inr c, d') \<and> fixed_rest d' = cs \<and> fixed_ok d'"
    and "\<exists>d'. Burn FixedDealer d = (None, d') \<and> fixed_rest d' = cs \<and> fixed_ok d'"
    by (auto simp: FixedDealer_def Fixed_Deal_def Fixed_Burn_def fixed_rest_def fixed_ok_def
        dest!: drop_Cons_nth)
next
  fix d
  assume "fixed_ok d" "fixed_rest d = []"
  then show "\<exists>e. Deal FixedDealer d = (Inl e, d)" "\<exists>e. Burn FixedDealer d = (Some e, d)"
    by (auto simp: FixedDealer_def Fixed_Deal_def Fixed_Burn_def fixed_rest_def)
next
  fix d e d'
  assume "Shuffle FixedDealer d = (e, d')"
  then show "fixed_ok d'" by (auto simp: FixedDealer_def Fixed_Shuffle_def fixed_ok_def)
next
  fix d
  assume "fixed_ok d"
  then show "Remaining FixedDealer d = int (length (fixed_rest d))"
    by (simp add: FixedDealer_def Fixed_Remaining_def fixed_rest_def fixed_ok_def)
qed

text \<open>A hand never sees the same card twice and never runs out: after a shuffle that
  succeeded, the production dealer deals any number of cards up to 52, all of them
  different and all of them cards of the deck.\<close>

theorem crypto_deals_distinct:
  assumes "Shuffle CryptoDealer c = (None, c')" and "n \<le> 52"
  shows "\<exists>cs c''. deal_n CryptoDealer n c' = (Inr cs, c'') \<and> length cs = n \<and> distinct cs
           \<and> (\<forall>k \<in> set cs. k < 52)"
  using crypto.shuffle_then_deal [OF assms] by blast

text \<open>A source of bytes that are all 0 shuffles without an error: each call of \<open>rand.Int\<close>
  takes one byte.\<close>

lemma crypto_deals_distinct_witness:
  "\<exists>c' cs c''. Shuffle CryptoDealer (NewCryptoDealer (replicate 51 0)) = (None, c')
     \<and> deal_n CryptoDealer 9 c' = (Inr cs, c'') \<and> length cs = 9 \<and> distinct cs
     \<and> (\<forall>k \<in> set cs. k < 52)"
proof -
  have "fst (Shuffle CryptoDealer (NewCryptoDealer (replicate 51 0))) = None"
    by code_simp
  then obtain c' where c': "Shuffle CryptoDealer (NewCryptoDealer (replicate 51 0)) = (None, c')"
    by (metis prod.collapse)
  show ?thesis using c' crypto_deals_distinct [OF c', of 9] by auto
qed

end
