(* ===== verification/HandEval.thy ===== *)
theory HandEval
  imports Proto "HOL-Library.Word" "HOL-Library.List_Lexorder" "HOL-Library.Sublist"
begin

text \<open>
  \<open>src/internal/engine/eval.go\<close>: ranking five cards as one 64-bit number and choosing the
  best five of two hole cards and the board. A card is \<open>suit * 13 + rank\<close>; ranks are
  0 (deuce) to 12 (ace). Go's fixed-size arrays are lists of that length.
\<close>

unbundle bit_operations_syntax

type_synonym handRank = "64 word"

datatype handCat =
    catHighCard
  | catOnePair
  | catTwoPair
  | catThreeOfAKind
  | catStraight
  | catFlush
  | catFullHouse
  | catFourOfAKind
  | catStraightFlush

text \<open>The \<open>iota\<close> of each constant.\<close>

primrec cat_code :: "handCat \<Rightarrow> nat" where
  "cat_code catHighCard = 0"
| "cat_code catOnePair = 1"
| "cat_code catTwoPair = 2"
| "cat_code catThreeOfAKind = 3"
| "cat_code catStraight = 4"
| "cat_code catFlush = 5"
| "cat_code catFullHouse = 6"
| "cat_code catFourOfAKind = 7"
| "cat_code catStraightFlush = 8"

definition newHandRank :: "handCat \<Rightarrow> int list \<Rightarrow> handRank" where
  "newHandRank cat tb =
     push_bit 60 (word_of_nat (cat_code cat))
     OR push_bit 56 (word_of_int (tb ! 0))
     OR push_bit 52 (word_of_int (tb ! 1))
     OR push_bit 48 (word_of_int (tb ! 2))
     OR push_bit 44 (word_of_int (tb ! 3))
     OR push_bit 40 (word_of_int (tb ! 4))"

definition cardRank :: "card \<Rightarrow> int" where
  "cardRank c = int (c mod 13)"

definition cardSuit :: "card \<Rightarrow> int" where
  "cardSuit c = int (c div 13)"

definition rankSingular :: "string list" where
  "rankSingular = [''2'', ''3'', ''4'', ''5'', ''6'', ''7'', ''8'', ''9'', ''10'',
     ''Jack'', ''Queen'', ''King'', ''Ace'']"

definition rankPlural :: "string list" where
  "rankPlural = [''Twos'', ''Threes'', ''Fours'', ''Fives'', ''Sixes'', ''Sevens'', ''Eights'',
     ''Nines'', ''Tens'', ''Jacks'', ''Queens'', ''Kings'', ''Aces'']"

definition rankName :: "int \<Rightarrow> string" where
  "rankName r = (if 0 \<le> r \<and> r < 13 then rankSingular ! nat r else ''?'')"

definition rankNamePlural :: "int \<Rightarrow> string" where
  "rankNamePlural r = (if 0 \<le> r \<and> r < 13 then rankPlural ! nat r else ''?'')"

section \<open>Five cards\<close>

definition detectStraight :: "int list \<Rightarrow> bool \<times> int" where
  "detectStraight ranks =
     (if ranks ! 0 - ranks ! 4 = 4
         \<and> ranks ! 0 \<noteq> ranks ! 1 \<and> ranks ! 1 \<noteq> ranks ! 2
         \<and> ranks ! 2 \<noteq> ranks ! 3 \<and> ranks ! 3 \<noteq> ranks ! 4
      then (True, ranks ! 0)
      else if ranks ! 0 = 12 \<and> ranks ! 1 = 3 \<and> ranks ! 2 = 2 \<and> ranks ! 3 = 1 \<and> ranks ! 4 = 0
      then (True, 3)
      else (False, 0))"

text \<open>\<open>for _, r := range ranks { freq[r]++ }\<close>\<close>

fun count_ranks :: "int list \<Rightarrow> nat list \<Rightarrow> nat list" where
  "count_ranks [] freq = freq"
| "count_ranks (r # rs) freq = count_ranks rs (freq[nat r := Suc (freq ! nat r)])"

text \<open>The groups \<open>(rank, count)\<close>, by count and then by rank, both descending.\<close>

definition rank_groups :: "int list \<Rightarrow> (int \<times> nat) list" where
  "rank_groups ranks =
     (let freq = count_ranks ranks (replicate 13 0);
          groups = filter (\<lambda>g. snd g > 0) (map (\<lambda>r. (int r, freq ! r)) [0..<13])
      in sort_key (\<lambda>g. (- int (snd g), - fst g)) groups)"

text \<open>Each group's rank repeated \<open>count\<close> times into the five slots of \<open>tb\<close>.\<close>

definition tie_breakers :: "(int \<times> nat) list \<Rightarrow> int list" where
  "tie_breakers groups =
     take 5 (concat (map (\<lambda>g. replicate (snd g) (fst g)) groups) @ replicate 5 0)"

definition eval5 :: "card list \<Rightarrow> handRank \<times> string" where
  "eval5 cards =
     (let ranks = rev (sort (map cardRank cards));
          suits = map cardSuit cards;
          isFlush = (suits ! 0 = suits ! 1 \<and> suits ! 1 = suits ! 2
                     \<and> suits ! 2 = suits ! 3 \<and> suits ! 3 = suits ! 4);
          (isStraight, hi) = detectStraight ranks;
          groups = rank_groups ranks;
          tb = tie_breakers groups;
          top = groups ! 0;
          second = (if length groups > 1 then groups ! 1 else (0, 0))
      in
      if isFlush \<and> isStraight then
        (if hi = 12
         then (newHandRank catStraightFlush [hi, 0, 0, 0, 0], ''Royal Flush'')
         else (newHandRank catStraightFlush [hi, 0, 0, 0, 0],
               ''Straight Flush, '' @ rankName hi @ ''-high''))
      else if snd top = 4 then
        (newHandRank catFourOfAKind tb, ''Four '' @ rankNamePlural (fst top))
      else if snd top = 3 \<and> snd second = 2 then
        (newHandRank catFullHouse tb,
         ''Full House, '' @ rankNamePlural (fst top) @ '' full of '' @ rankNamePlural (fst second))
      else if isFlush then
        (newHandRank catFlush [ranks ! 0, ranks ! 1, ranks ! 2, ranks ! 3, ranks ! 4],
         ''Flush, '' @ rankName (ranks ! 0) @ ''-high'')
      else if isStraight then
        (newHandRank catStraight [hi, 0, 0, 0, 0], ''Straight, '' @ rankName hi @ ''-high'')
      else if snd top = 3 then
        (newHandRank catThreeOfAKind tb, ''Three '' @ rankNamePlural (fst top))
      else if snd top = 2 \<and> snd second = 2 then
        (newHandRank catTwoPair tb,
         ''Two Pair, '' @ rankNamePlural (fst top) @ '' and '' @ rankNamePlural (fst second))
      else if snd top = 2 then
        (newHandRank catOnePair tb, ''Pair of '' @ rankNamePlural (fst top))
      else
        (newHandRank catHighCard tb, ''High Card, '' @ rankName (ranks ! 0)))"

section \<open>The best five\<close>

text \<open>The inner loop \<open>for i >= 0 && idx[i] == i+n-5 { i-- }\<close>; the argument is \<open>i + 1\<close>.\<close>

fun last_free :: "nat \<Rightarrow> nat list \<Rightarrow> nat \<Rightarrow> nat option" where
  "last_free n idx 0 = None"
| "last_free n idx (Suc i) = (if idx ! i = i + n - 5 then last_free n idx i else Some i)"

definition next_comb :: "nat \<Rightarrow> nat list \<Rightarrow> nat list option" where
  "next_comb n idx =
     (case last_free n idx 5 of
        None \<Rightarrow> None
      | Some i \<Rightarrow>
          Some (foldl (\<lambda>x j. x[j := x ! (j - 1) + 1]) (idx[i := idx ! i + 1]) [Suc i..<5]))"

text \<open>The variables of the outer loop: \<open>best\<close>, \<open>bestCards\<close>, \<open>bestDesc\<close>, \<open>first\<close>.\<close>

type_synonym best_state = "handRank \<times> card list \<times> string \<times> bool"

definition consider_five :: "card list \<Rightarrow> nat list \<Rightarrow> best_state \<Rightarrow> best_state" where
  "consider_five pool idx acc =
     (case acc of (best, bestCards, bestDesc, first) \<Rightarrow>
        let five = map (\<lambda>ix. pool ! ix) idx; (r, desc) = eval5 five
        in if first \<or> r > best then (r, five, desc, False) else acc)"

partial_function (option) best_loop :: "card list \<Rightarrow> nat list \<Rightarrow> best_state \<Rightarrow> best_state option"
where
  "best_loop pool idx acc =
     (let acc' = consider_five pool idx acc
      in case next_comb (length pool) idx of
           None \<Rightarrow> Some acc'
         | Some idx' \<Rightarrow> best_loop pool idx' acc')"

declare best_loop.simps [code]

definition bestHand :: "card \<Rightarrow> card \<Rightarrow> card list \<Rightarrow> (handRank \<times> card list \<times> string) option" where
  "bestHand c1 c2 board =
     (let pool = [c1, c2] @ board; n = length pool
      in if n < 5 then
           let five = pool @ replicate (5 - n) 0; (r, desc) = eval5 five
           in Some (r, five, desc)
         else
           map_option (\<lambda>(best, bestCards, bestDesc, first). (best, bestCards, bestDesc))
             (best_loop pool [0, 1, 2, 3, 4] (0, replicate 5 0, [], True)))"

end
