(* ===== verification/Pots.thy ===== *)
theory Pots
  imports Proto
begin

text \<open>
  \<open>src/internal/engine/pot.go\<close>: the main pot and the side pots out of what each player has
  committed to the hand, and the rake on an amount. The players arrive in the iteration
  order of a Go map and \<open>sort.Slice\<close> is not stable; both freedoms are the order of
  \<^const>\<open>Players\<close> here, and the theorem on permutations shows when it does not matter.
\<close>

section \<open>Definitions\<close>

record pot =
  pot_amount :: int
  pot_eligibleIDs :: "string list"

record entry =
  en_id :: string
  en_committed :: int
  en_folded :: bool

definition pot_entries :: "GameState \<Rightarrow> entry list" where
  "pot_entries st =
     map (\<lambda>(id, p). \<lparr>en_id = id, en_committed = TotalCommittedThisHand p, en_folded = IsFolded p\<rparr>)
       (filter (\<lambda>(id, p). TotalCommittedThisHand p > 0) (Players st))"

definition eligibleInOrder :: "string list \<Rightarrow> entry list \<Rightarrow> string list" where
  "eligibleInOrder actionOrder from =
     (let elig = set (map en_id (filter (\<lambda>e. \<not> en_folded e) from));
          out = filter (\<lambda>pid. pid \<in> elig) actionOrder
      in out @ map en_id (filter (\<lambda>e. \<not> en_folded e \<and> en_id e \<notin> set out) from))"

fun raw_pots :: "string list \<Rightarrow> int \<Rightarrow> entry list \<Rightarrow> pot list" where
  "raw_pots order prev [] = []"
| "raw_pots order prev (e # es) =
     (if en_committed e \<le> prev then raw_pots order prev es
      else
        let level = en_committed e;
            amount = mul64 (sub64 level prev) (int (length (e # es)));
            eligible = eligibleInOrder order (e # es);
            rest = raw_pots order level es
        in if amount > 0 then \<lparr>pot_amount = amount, pot_eligibleIDs = eligible\<rparr> # rest else rest)"

text \<open>The merge loop; the first argument is the last pot of \<open>merged\<close>.\<close>

fun merge_pots :: "pot \<Rightarrow> pot list \<Rightarrow> pot list" where
  "merge_pots lst [] = [lst]"
| "merge_pots lst (p # ps) =
     (if pot_eligibleIDs lst = pot_eligibleIDs p
      then merge_pots (lst\<lparr>pot_amount := add64 (pot_amount lst) (pot_amount p)\<rparr>) ps
      else lst # merge_pots p ps)"

definition computePots :: "GameState \<Rightarrow> pot list" where
  "computePots st =
     (let entries = sort_key en_committed (pot_entries st);
          actionOrder = (case CurrentHand st of None \<Rightarrow> [] | Some h \<Rightarrow> ActionOrder h)
      in case raw_pots actionOrder 0 entries of
           [] \<Rightarrow> []
         | p # ps \<Rightarrow> merge_pots p ps)"

definition computeRake :: "int \<Rightarrow> CashGameConfig option \<Rightarrow> int" where
  "computeRake amount cfg =
     (case cfg of
        None \<Rightarrow> 0
      | Some c \<Rightarrow>
          if RakeBps c \<le> 0 \<or> amount \<le> 0 then 0
          else let rake = mul64 amount (RakeBps c) sdiv 10000
               in if RakeCap c > 0 \<and> rake > RakeCap c then RakeCap c else rake)"

definition firstEligibleInOrder :: "GameState \<Rightarrow> string list \<Rightarrow> string" where
  "firstEligibleInOrder st eligibleIDs =
     (case CurrentHand st of
        None \<Rightarrow> []
      | Some h \<Rightarrow>
          (case find (\<lambda>pid. (case player st pid of None \<Rightarrow> False | Some p \<Rightarrow> \<not> IsFolded p)
                       \<and> pid \<in> set eligibleIDs) (ActionOrder h) of
             None \<Rightarrow> []
           | Some pid \<Rightarrow> pid))"

section \<open>The pots hold what was committed\<close>

text \<open>What the hand as a whole put in, and what a player with stake \<open>s\<close> can win of it: from
  each player at most \<open>s\<close>.\<close>

definition committed_sum :: "GameState \<Rightarrow> int" where
  "committed_sum st = asum TotalCommittedThisHand (Players st)"

definition stake :: "GameState \<Rightarrow> int \<Rightarrow> int" where
  "stake st s = asum (\<lambda>p. min (TotalCommittedThisHand p) s) (Players st)"

definition won_by :: "string \<Rightarrow> pot list \<Rightarrow> int" where
  \<comment> \<open>the pots a player is eligible for\<close>
  "won_by pid ps = sum_list (map pot_amount (filter (\<lambda>p. pid \<in> set (pot_eligibleIDs p)) ps))"

lemma set_eligibleInOrder:
  "set (eligibleInOrder order es) = en_id ` {e \<in> set es. \<not> en_folded e}
     \<union> {pid \<in> set order. \<exists>e \<in> set es. \<not> en_folded e \<and> en_id e = pid}"
  by (auto simp: eligibleInOrder_def Let_def)

lemma set_eligible [simp]:
  "set (eligibleInOrder order es) = en_id ` {e \<in> set es. \<not> en_folded e}"
  unfolding set_eligibleInOrder by auto

lemma sum_list_shift:
  "sum_list (map (\<lambda>e. f e - c) es) = sum_list (map f es) - int (length es) * c"
  for f :: "'a \<Rightarrow> int"
  by (induction es) (auto simp: algebra_simps)

text \<open>The loop without wrap-around.\<close>

fun raw_pots_exact :: "string list \<Rightarrow> int \<Rightarrow> entry list \<Rightarrow> pot list" where
  "raw_pots_exact order prev [] = []"
| "raw_pots_exact order prev (e # es) =
     (if en_committed e \<le> prev then raw_pots_exact order prev es
      else \<lparr>pot_amount = (en_committed e - prev) * int (length (e # es)),
             pot_eligibleIDs = eligibleInOrder order (e # es)\<rparr>
           # raw_pots_exact order (en_committed e) es)"

lemma level_le_sum:
  "(\<And>x. x \<in> set es \<Longrightarrow> c \<le> en_committed x) \<Longrightarrow>
   int (length es) * c \<le> sum_list (map en_committed es)"
  by (induction es) (auto simp: algebra_simps add_mono)

lemma raw_pots_eq_exact:
  assumes "sorted (map en_committed es)" and "\<forall>e \<in> set es. prev \<le> en_committed e" and "0 \<le> prev"
    and "in64 (sum_list (map en_committed es))"
  shows "raw_pots order prev es = raw_pots_exact order prev es"
  using assms
proof (induction es arbitrary: prev)
  case (Cons e es)
  let ?n = "int (length (e # es))" and ?S = "sum_list (map en_committed (e # es))"
  have nn: "0 \<le> sum_list (map en_committed es)"
    using Cons.prems by (intro sum_list_nonneg) auto
  have sub: "in64 (sum_list (map en_committed es))" "in64 (en_committed e)"
    using Cons.prems nn by (auto intro: in64_between [of ?S])
  have lvl: "?n * en_committed e \<le> ?S" using Cons.prems(1) by (intro level_le_sum) auto
  show ?case
  proof (cases "en_committed e \<le> prev")
    case True
    then show ?thesis using Cons sub by simp
  next
    case False
    then have "0 \<le> (en_committed e - prev) * ?n" by simp
    moreover have "(en_committed e - prev) * ?n \<le> ?S"
      using lvl Cons.prems(3) by (simp add: algebra_simps) (smt (verit) mult_nonneg_nonneg of_nat_0_le_iff)
    ultimately have "in64 ((en_committed e - prev) * ?n)"
      using in64_between Cons.prems(4) by blast
    moreover have "in64 (en_committed e - prev)"
      using False Cons.prems(3) by (intro in64_between [OF sub(2)]) auto
    moreover have "(en_committed e - prev) * ?n > 0" using False by simp
    moreover have "raw_pots order (en_committed e) es = raw_pots_exact order (en_committed e) es"
      using Cons.prems False sub by (intro Cons.IH) auto
    ultimately show ?thesis using False by (simp add: Let_def i64_simps)
  qed
qed simp

lemma raw_exact_sum:
  assumes "sorted (map en_committed es)" and "\<forall>e \<in> set es. prev \<le> en_committed e"
  shows "sum_list (map pot_amount (raw_pots_exact order prev es))
    = sum_list (map (\<lambda>e. en_committed e - prev) es)"
  using assms
proof (induction es arbitrary: prev)
  case (Cons e es)
  show ?case
  proof (cases "en_committed e \<le> prev")
    case False
    with Cons have "sum_list (map pot_amount (raw_pots_exact order (en_committed e) es))
        = sum_list (map (\<lambda>x. en_committed x - en_committed e) es)" by simp
    with False show ?thesis unfolding sum_list_shift by (simp add: algebra_simps)
  qed (use Cons in auto)
qed simp

text \<open>The stakes: in the pots for which a player that has not folded is eligible lies what its
  commitment covers of everybody's.\<close>

lemma raw_exact_absent:
  "pid \<notin> en_id ` set es \<Longrightarrow> won_by pid (raw_pots_exact order prev es) = 0"
  by (induction es arbitrary: prev) (auto simp: won_by_def)

lemma raw_exact_stake:
  assumes "sorted (map en_committed es)" and "\<forall>e \<in> set es. prev \<le> en_committed e"
    and "distinct (map en_id es)" and "x \<in> set es" and "\<not> en_folded x"
  shows "won_by (en_id x) (raw_pots_exact order prev es)
    = sum_list (map (\<lambda>e. min (en_committed e) (en_committed x) - prev) es)"
  using assms
proof (induction es arbitrary: prev)
  case (Cons e es)
  have mem: "en_id x \<in> en_id ` {e' \<in> set (e # es). \<not> en_folded e'}" using Cons.prems by blast
  show ?case
  proof (cases "x \<in> set es")
    case True
    then have "en_committed e \<le> en_committed x" using Cons.prems(1) by simp
    then show ?thesis
    proof (cases "en_committed e \<le> prev")
      case False
      have "won_by (en_id x) (raw_pots_exact order (en_committed e) es)
          = sum_list (map (\<lambda>e'. min (en_committed e') (en_committed x) - en_committed e) es)"
        using Cons True False by simp
      then show ?thesis using False mem \<open>en_committed e \<le> en_committed x\<close>
        unfolding sum_list_shift by (simp add: won_by_def algebra_simps)
    qed (use Cons True in auto)
  next
    case False
    with Cons.prems have x: "x = e" "en_id x \<notin> en_id ` set es" by auto
    have "map (\<lambda>e'. min (en_committed e') (en_committed x) - prev) es
        = map (\<lambda>_. en_committed x - prev) es"
      using Cons.prems(1) x(1) by auto
    then have "sum_list (map (\<lambda>e'. min (en_committed e') (en_committed x) - prev) es)
        = sum_list (map (\<lambda>_. en_committed x - prev) es)" by (rule arg_cong)
    then have s: "sum_list (map (\<lambda>e'. min (en_committed e') (en_committed x) - prev) es)
        = int (length es) * (en_committed x - prev)"
      by (simp only: sum_list_triv)
    show ?thesis
      using raw_exact_absent [OF x(2)] Cons.prems(2) mem x(1) s
      by (auto simp: won_by_def algebra_simps)
  qed
qed simp

section \<open>Merging\<close>

text \<open>Amounts that are not negative and fit together, which the merge keeps.\<close>

definition fits :: "pot list \<Rightarrow> bool" where
  "fits ps \<longleftrightarrow> (\<forall>p \<in> set ps. 0 \<le> pot_amount p) \<and> in64 (sum_list (map pot_amount ps))"

lemma sum_amounts_nonneg: "\<forall>p \<in> set ps. 0 \<le> pot_amount p \<Longrightarrow> 0 \<le> sum_list (map pot_amount ps)"
  by (intro sum_list_nonneg) auto

lemma fits_tl:
  assumes "fits (q # ps)"
  shows "fits ps"
proof -
  have "in64 (sum_list (map pot_amount ps))"
    by (rule in64_between [where b = "sum_list (map pot_amount (q # ps))"])
      (use assms sum_amounts_nonneg [of ps] in \<open>simp_all add: fits_def\<close>)
  with assms show ?thesis by (simp add: fits_def)
qed

lemma fits_merge:
  assumes "fits (q # p # ps)"
  shows "add64 (pot_amount q) (pot_amount p) = pot_amount q + pot_amount p"
    and "fits (q\<lparr>pot_amount := pot_amount q + pot_amount p\<rparr> # ps)"
proof -
  have "in64 (pot_amount q + pot_amount p)"
    by (rule in64_between [where b = "sum_list (map pot_amount (q # p # ps))"])
      (use assms sum_amounts_nonneg [of ps] in \<open>simp_all add: fits_def\<close>)
  then show "add64 (pot_amount q) (pot_amount p) = pot_amount q + pot_amount p"
    by (rule add64_exact)
  show "fits (q\<lparr>pot_amount := pot_amount q + pot_amount p\<rparr> # ps)"
    using assms by (simp add: fits_def add.assoc)
qed

lemma merge_pots_sum:
  "fits (q # ps) \<Longrightarrow>
   sum_list (map pot_amount (merge_pots q ps)) = sum_list (map pot_amount (q # ps))"
proof (induction ps arbitrary: q)
  case (Cons p ps)
  note m = fits_merge [OF Cons.prems] fits_tl [OF Cons.prems]
  show ?case using Cons.IH [OF m(2)] Cons.IH [OF m(3)] m(1) by simp
qed simp

lemma merge_pots_won:
  "fits (q # ps) \<Longrightarrow> won_by pid (merge_pots q ps) = won_by pid (q # ps)"
proof (induction ps arbitrary: q)
  case (Cons p ps)
  note m = fits_merge [OF Cons.prems] fits_tl [OF Cons.prems]
  have cons: "won_by pid (x # xs) = (if pid \<in> set (pot_eligibleIDs x) then pot_amount x else 0)
      + won_by pid xs" for x xs
    by (simp add: won_by_def)
  show ?case using Cons.IH [OF m(2)] Cons.IH [OF m(3)] m(1) by (simp add: cons)
qed simp

lemma merge_pots_elig:
  "p \<in> set (merge_pots q ps) \<Longrightarrow> \<exists>p' \<in> set (q # ps). pot_eligibleIDs p = pot_eligibleIDs p'"
  by (induction ps arbitrary: q) (fastforce split: if_splits)+

lemma merge_pots_pos:
  "fits (q # ps) \<Longrightarrow> \<forall>p \<in> set (q # ps). 0 < pot_amount p \<Longrightarrow> \<forall>p \<in> set (merge_pots q ps). 0 < pot_amount p"
proof (induction ps arbitrary: q)
  case (Cons p ps)
  note m = fits_merge [OF Cons.prems(1)] fits_tl [OF Cons.prems(1)]
  show ?case using Cons.IH [OF m(2)] Cons.IH [OF m(3)] m(1) Cons.prems(2) by simp
qed simp

lemma raw_exact_pos: "p \<in> set (raw_pots_exact order prev es) \<Longrightarrow> 0 < pot_amount p"
  by (induction es arbitrary: prev) (auto split: if_splits)

section \<open>The pots of a state\<close>

text \<open>What the code relies on: a Go map has each key once, commitments are not negative and
  the chips of a hand fit into an \<open>int64\<close>.\<close>

definition pots_ok :: "GameState \<Rightarrow> bool" where
  "pots_ok st \<longleftrightarrow> distinct (keys (Players st)) \<and> in64 (committed_sum st)
     \<and> (\<forall>(id, p) \<in> set (Players st). 0 \<le> TotalCommittedThisHand p)"

abbreviation sorted_entries :: "GameState \<Rightarrow> entry list" where
  "sorted_entries st \<equiv> sort_key en_committed (pot_entries st)"

abbreviation order_of :: "GameState \<Rightarrow> string list" where
  "order_of st \<equiv> (case CurrentHand st of None \<Rightarrow> [] | Some h \<Rightarrow> ActionOrder h)"

lemma sum_list_sort_key: "sum_list (map f (sort_key k xs)) = sum_list (map f xs)"
  for f :: "'a \<Rightarrow> int"
  by (metis mset_map mset_sort sum_mset_sum_list)

lemma list_entries_sum:
  assumes "g 0 = 0" and "\<forall>(id, p) \<in> set m. 0 \<le> TotalCommittedThisHand p"
  shows "sum_list (map (\<lambda>x. g (TotalCommittedThisHand (snd x)))
      (filter (\<lambda>(id, p). TotalCommittedThisHand p > 0) m))
    = asum (\<lambda>p. g (TotalCommittedThisHand p)) m"
  using assms by (induction m) (auto simp: order_le_less)

lemma entries_sum:
  assumes "g 0 = 0" and "pots_ok st"
  shows "sum_list (map (\<lambda>e. g (en_committed e)) (sorted_entries st))
    = asum (\<lambda>p. g (TotalCommittedThisHand p)) (Players st)"
  using list_entries_sum [of g "Players st"] assms
  by (simp add: sum_list_sort_key pot_entries_def pots_ok_def comp_def case_prod_beta)

lemma in_pot_entries:
  "e \<in> set (pot_entries st) \<longleftrightarrow> (\<exists>id p. (id, p) \<in> set (Players st)
     \<and> 0 < TotalCommittedThisHand p
     \<and> e = \<lparr>en_id = id, en_committed = TotalCommittedThisHand p, en_folded = IsFolded p\<rparr>)"
  by (force simp: pot_entries_def)

lemma distinct_pot_entries:
  assumes "distinct (keys (Players st))"
  shows "distinct (map en_id (sorted_entries st))"
proof -
  have "distinct (map en_id (pot_entries st))"
    using assms by (simp add: pot_entries_def comp_def case_prod_beta keys_def distinct_map_filter)
  then show ?thesis by (metis mset_eq_imp_distinct_iff mset_map mset_sort)
qed

lemma computePots_exact:
  assumes "pots_ok st"
  shows "computePots st = (case raw_pots_exact (order_of st) 0 (sorted_entries st) of
           [] \<Rightarrow> [] | p # ps \<Rightarrow> merge_pots p ps)"
    and "fits (raw_pots_exact (order_of st) 0 (sorted_entries st))"
    and "sum_list (map pot_amount (raw_pots_exact (order_of st) 0 (sorted_entries st)))
           = committed_sum st"
proof -
  let ?es = "sorted_entries st"
  have pos: "\<forall>e \<in> set ?es. 0 \<le> en_committed e" by (auto simp: in_pot_entries)
  have sum: "sum_list (map en_committed ?es) = committed_sum st"
    using entries_sum [of "\<lambda>x. x", OF _ assms] by (simp add: committed_sum_def)
  with assms have "in64 (sum_list (map en_committed ?es))" by (simp add: pots_ok_def)
  then show "computePots st = (case raw_pots_exact (order_of st) 0 ?es of
      [] \<Rightarrow> [] | p # ps \<Rightarrow> merge_pots p ps)"
    using raw_pots_eq_exact [of ?es 0 "order_of st"] pos by (simp add: computePots_def Let_def)
  show s: "sum_list (map pot_amount (raw_pots_exact (order_of st) 0 ?es)) = committed_sum st"
    using raw_exact_sum [of ?es 0 "order_of st"] pos sum by simp
  show "fits (raw_pots_exact (order_of st) 0 ?es)"
    using assms by (auto simp: fits_def s pots_ok_def dest!: raw_exact_pos)
qed

lemma computePots_sum: "pots_ok st \<Longrightarrow> sum_list (map pot_amount (computePots st)) = committed_sum st"
  using computePots_exact [of st] by (cases "raw_pots_exact (order_of st) 0 (sorted_entries st)")
    (simp_all add: merge_pots_sum)

lemma computePots_pos: "pots_ok st \<Longrightarrow> p \<in> set (computePots st) \<Longrightarrow> 0 < pot_amount p"
  using computePots_exact [of st] raw_exact_pos [of _ "order_of st" 0 "sorted_entries st"]
  by (cases "raw_pots_exact (order_of st) 0 (sorted_entries st)")
    (simp, metis list.simps(5) merge_pots_pos)

lemma raw_exact_elig:
  "p \<in> set (raw_pots_exact order prev es) \<Longrightarrow>
   pid \<in> set (pot_eligibleIDs p) \<Longrightarrow> \<exists>e \<in> set es. en_id e = pid \<and> \<not> en_folded e"
  by (induction es arbitrary: prev) (auto split: if_splits)

lemma computePots_elig:
  assumes "pots_ok st" and "p \<in> set (computePots st)" and "pid \<in> set (pot_eligibleIDs p)"
  shows "\<exists>q. player st pid = Some q \<and> \<not> IsFolded q \<and> 0 < TotalCommittedThisHand q"
proof -
  obtain p' where "p' \<in> set (raw_pots_exact (order_of st) 0 (sorted_entries st))"
    "pot_eligibleIDs p = pot_eligibleIDs p'"
    using assms(2) computePots_exact(1) [OF assms(1)]
    by (cases "raw_pots_exact (order_of st) 0 (sorted_entries st)") (auto dest!: merge_pots_elig)
  then obtain e where "e \<in> set (pot_entries st)" "en_id e = pid" "\<not> en_folded e"
    using raw_exact_elig assms(3) by fastforce
  then show ?thesis using assms(1)
    by (fastforce simp: in_pot_entries player_def pots_ok_def keys_def)
qed

lemma computePots_won:
  assumes "pots_ok st" and "player st pid = Some q" and "\<not> IsFolded q"
    and "0 < TotalCommittedThisHand q"
  shows "won_by pid (computePots st) = stake st (TotalCommittedThisHand q)"
proof -
  let ?es = "sorted_entries st"
    and ?x = "\<lparr>en_id = pid, en_committed = TotalCommittedThisHand q, en_folded = IsFolded q\<rparr>"
  have "?x \<in> set ?es" using assms(2-) by (auto simp: in_pot_entries player_def dest: map_of_SomeD)
  moreover have "\<forall>e \<in> set ?es. 0 \<le> en_committed e" by (auto simp: in_pot_entries)
  moreover have "distinct (map en_id ?es)"
    using assms(1) by (intro distinct_pot_entries) (simp add: pots_ok_def)
  ultimately have "won_by pid (raw_pots_exact (order_of st) 0 ?es)
      = sum_list (map (\<lambda>e. min (en_committed e) (TotalCommittedThisHand q)) ?es)"
    using raw_exact_stake [of ?es 0 ?x "order_of st"] assms(3) by simp
  also have "\<dots> = stake st (TotalCommittedThisHand q)"
    unfolding stake_def using assms(1,4) by (intro entries_sum) simp_all
  finally show ?thesis using computePots_exact [OF assms(1)]
    by (cases "raw_pots_exact (order_of st) 0 ?es") (simp_all add: merge_pots_won)
qed

section \<open>Neither iteration order nor ties matter\<close>

text \<open>The loop by levels, over any list with the same elements.\<close>

fun pots_at :: "string list \<Rightarrow> entry list \<Rightarrow> int \<Rightarrow> int list \<Rightarrow> pot list" where
  "pots_at order es prev [] = []"
| "pots_at order es prev (l # ls) =
     (let at_least = filter (\<lambda>e. l \<le> en_committed e) es;
          amount = mul64 (sub64 l prev) (int (length at_least));
          rest = pots_at order es l ls
      in if amount > 0
         then \<lparr>pot_amount = amount, pot_eligibleIDs = eligibleInOrder order at_least\<rparr> # rest
         else rest)"

definition levels :: "int \<Rightarrow> entry list \<Rightarrow> int list" where
  "levels prev es = sorted_list_of_set {l \<in> en_committed ` set es. prev < l}"

lemma pots_at_skip: "\<forall>l \<in> set ls. en_committed e < l \<Longrightarrow> pots_at order (e # es) prev ls = pots_at order es prev ls"
  by (induction ls arbitrary: prev) (auto simp: Let_def)

lemma levels_Cons:
  assumes "\<forall>x \<in> set es. en_committed e \<le> en_committed x"
  shows "levels prev (e # es) =
    (if en_committed e \<le> prev then levels prev es else en_committed e # levels (en_committed e) es)"
proof (cases "en_committed e \<le> prev")
  case True
  then have "{l \<in> en_committed ` set (e # es). prev < l} = {l \<in> en_committed ` set es. prev < l}"
    by auto
  with True show ?thesis by (simp add: levels_def)
next
  case False
  let ?A = "{l \<in> en_committed ` set (e # es). prev < l}"
  have "Min ?A = en_committed e" using False assms by (intro Min_eqI) auto
  moreover have "?A - {en_committed e} = {l \<in> en_committed ` set es. en_committed e < l}"
    using False assms by force
  moreover have "sorted_list_of_set ?A = Min ?A # sorted_list_of_set (?A - {Min ?A})"
    using False by (intro sorted_list_of_set_nonempty) auto
  ultimately show ?thesis using False by (simp add: levels_def)
qed

lemma raw_pots_levels:
  "sorted (map en_committed es) \<Longrightarrow> raw_pots order prev es = pots_at order es prev (levels prev es)"
proof (induction es arbitrary: prev)
  case (Cons e es)
  then have le: "\<forall>x \<in> set es. en_committed e \<le> en_committed x"
    and IH: "\<And>prev. raw_pots order prev es = pots_at order es prev (levels prev es)" by auto
  have all: "filter (\<lambda>x. en_committed e \<le> en_committed x) es = es" using le by simp
  have "\<forall>l \<in> set (levels (max prev (en_committed e)) es). en_committed e < l" by (auto simp: levels_def)
  then have skip: "pots_at order (e # es) q (levels (max prev (en_committed e)) es)
      = pots_at order es q (levels (max prev (en_committed e)) es)" for q
    by (rule pots_at_skip)
  show ?case
  proof (cases "en_committed e \<le> prev")
    case True
    then show ?thesis using levels_Cons [OF le, of prev] skip IH by (simp add: max_def)
  next
    case False
    then show ?thesis using levels_Cons [OF le, of prev] skip IH all
      by (simp add: max_def Let_def)
  qed
qed (simp add: levels_def)

lemma pots_at_cong:
  assumes "mset es = mset es'" and "\<forall>e \<in> set es. \<not> en_folded e \<longrightarrow> en_id e \<in> set order"
  shows "pots_at order es prev ls = pots_at order es' prev ls"
proof (induction ls arbitrary: prev)
  case (Cons l ls)
  let ?f = "filter (\<lambda>e. l \<le> en_committed e)"
  have m: "mset (?f es) = mset (?f es')" using assms(1) by simp
  then have len: "length (?f es) = length (?f es')" by (metis size_mset)
  have set: "set (?f es) = set (?f es')" using m by (metis set_mset_mset)
  have elig: "eligibleInOrder order xs
      = filter (\<lambda>pid. pid \<in> en_id ` {e \<in> set xs. \<not> en_folded e}) order"
    if "\<forall>e \<in> set xs. \<not> en_folded e \<longrightarrow> en_id e \<in> set order" for xs
    using that by (auto simp: eligibleInOrder_def Let_def filter_empty_conv)
  have "\<forall>e \<in> set (?f es). \<not> en_folded e \<longrightarrow> en_id e \<in> set order" using assms(2) by simp
  then have "eligibleInOrder order (?f es) = eligibleInOrder order (?f es')"
    using elig [of "?f es"] elig [of "?f es'"] unfolding set by simp
  with Cons len show ?case by (simp add: Let_def)
qed simp

lemma computePots_perm:
  assumes "mset (Players st) = mset (Players st')" and "CurrentHand st = CurrentHand st'"
    and "\<forall>(id, p) \<in> set (Players st). 0 < TotalCommittedThisHand p \<and> \<not> IsFolded p
           \<longrightarrow> id \<in> set (order_of st)"
  shows "computePots st = computePots st'"
proof -
  let ?es = "sorted_entries st" and ?es' = "sorted_entries st'"
  have m: "mset ?es = mset ?es'" using assms(1) by (simp add: pot_entries_def)
  then have lv: "levels 0 ?es = levels 0 ?es'" unfolding levels_def by (metis set_mset_mset)
  have "\<forall>e \<in> set ?es. \<not> en_folded e \<longrightarrow> en_id e \<in> set (order_of st)"
    using assms(3) by (auto simp: in_pot_entries simp del: not_None_eq) fastforce
  then have "raw_pots (order_of st) 0 ?es = raw_pots (order_of st) 0 ?es'"
    using raw_pots_levels [of ?es "order_of st" 0] raw_pots_levels [of ?es' "order_of st" 0]
      pots_at_cong [OF m] lv by simp
  then show ?thesis using assms(2) by (simp add: computePots_def Let_def)
qed

section \<open>The rake\<close>

lemma computeRake_None [simp]: "computeRake amount None = 0"
  by (simp add: computeRake_def)

lemma computeRake_value:
  assumes "0 \<le> amount" and "0 < RakeBps c" and "in64 (amount * RakeBps c)"
  shows "computeRake amount (Some c) =
    (if RakeCap c > 0 then min (RakeCap c) (amount * RakeBps c div 10000)
     else amount * RakeBps c div 10000)"
  using assms by (cases "amount = 0") (auto simp: computeRake_def Let_def mul64_exact sdiv_nonneg)

lemma computeRake_range:
  assumes "0 \<le> amount" and "RakeBps c \<le> 10000" and "in64 (amount * RakeBps c)"
  shows "0 \<le> computeRake amount (Some c) \<and> computeRake amount (Some c) \<le> amount"
proof (cases "0 < RakeBps c")
  case True
  have "amount * RakeBps c \<le> amount * 10000" using assms by (intro mult_left_mono) auto
  then have "amount * RakeBps c div 10000 \<le> amount" by linarith
  moreover have "0 \<le> amount * RakeBps c div 10000"
    using assms(1) True by (intro pos_imp_zdiv_nonneg_iff [THEN iffD2]) auto
  ultimately show ?thesis using computeRake_value [OF assms(1) True assms(3)] by auto
next
  case False
  then show ?thesis using assms(1) by (simp add: computeRake_def)
qed

section \<open>The first eligible player\<close>

lemma find_Some_mem: "find P xs = Some x \<Longrightarrow> P x \<and> x \<in> set xs"
  by (auto simp: find_Some_iff)

lemma firstEligible_Some:
  assumes "firstEligibleInOrder st ids \<noteq> []"
  shows "firstEligibleInOrder st ids \<in> set ids
    \<and> (\<exists>p. player st (firstEligibleInOrder st ids) = Some p \<and> \<not> IsFolded p)"
proof (cases "CurrentHand st")
  case None
  then show ?thesis using assms by (simp add: firstEligibleInOrder_def)
next
  case (Some h)
  let ?P = "\<lambda>pid. (case player st pid of None \<Rightarrow> False | Some p \<Rightarrow> \<not> IsFolded p) \<and> pid \<in> set ids"
  obtain w where w: "find ?P (ActionOrder h) = Some w"
    using assms Some by (cases "find ?P (ActionOrder h)") (simp_all add: firstEligibleInOrder_def)
  then have "firstEligibleInOrder st ids = w" using Some by (simp add: firstEligibleInOrder_def)
  with find_Some_mem [OF w] show ?thesis by (auto split: option.splits)
qed

section \<open>Properties\<close>

text \<open>No chip is lost or made when the pots are built: the amounts of the main pot and the
  side pots add up to exactly what all players, folded ones included, committed to the
  hand, and every pot holds something.\<close>

theorem computePots_total:
  assumes "pots_ok st"
  shows "sum_list (map pot_amount (computePots st)) = committed_sum st
    \<and> (\<forall>p \<in> set (computePots st). 0 < pot_amount p)"
  using computePots_sum [OF assms] computePots_pos [OF assms] by blast

text \<open>C9. The side-pot rule: the pots that a player still in the hand can win hold, from every
  player, what that player committed up to the winner's own commitment, so nobody wins more
  from an opponent than they put at risk. Only players who have not folded and have chips
  in the pot are eligible for one.\<close>

theorem computePots_side_pot_rule:
  assumes "pots_ok st" and "player st pid = Some q" and "\<not> IsFolded q"
    and "0 < TotalCommittedThisHand q"
  shows "won_by pid (computePots st)
      = asum (\<lambda>p. min (TotalCommittedThisHand p) (TotalCommittedThisHand q)) (Players st)
    \<and> (\<forall>p \<in> set (computePots st). \<forall>id \<in> set (pot_eligibleIDs p).
         \<exists>r. player st id = Some r \<and> \<not> IsFolded r \<and> 0 < TotalCommittedThisHand r)"
  using computePots_won [OF assms] computePots_elig [OF assms(1)] by (simp add: stake_def)

text \<open>The pots do not depend on the iteration order of the player map, nor on how the
  unstable sort orders equal commitments, as long as the players still in the hand are in
  the action order (those who went all in on an earlier street are not).\<close>

theorem computePots_iteration_order:
  assumes "mset (Players st) = mset (Players st')" and "CurrentHand st = CurrentHand st'"
    and "\<forall>(id, p) \<in> set (Players st). 0 < TotalCommittedThisHand p \<and> \<not> IsFolded p
           \<longrightarrow> id \<in> set (case CurrentHand st of None \<Rightarrow> [] | Some h \<Rightarrow> ActionOrder h)"
  shows "computePots st = computePots st'"
  by (rule computePots_perm [OF assms])

text \<open>The rake is the configured share rounded down, at most the cap when there is one, and
  never more than the pot, as long as the product with the basis points fits an \<open>int64\<close>.\<close>

theorem computeRake_bounds:
  assumes "0 \<le> amount" and "0 < RakeBps c" and "RakeBps c \<le> 10000"
    and "in64 (amount * RakeBps c)"
  shows "computeRake amount (Some c) =
      (if RakeCap c > 0 then min (RakeCap c) (amount * RakeBps c div 10000)
       else amount * RakeBps c div 10000)
    \<and> 0 \<le> computeRake amount (Some c) \<and> computeRake amount (Some c) \<le> amount"
  using computeRake_value [OF assms(1,2,4)] computeRake_range [OF assms(1,3,4)] by blast

section \<open>Witnesses\<close>

text \<open>Three players: \<open>a\<close> all in for 30, \<open>b\<close> and \<open>c\<close> in for 100, \<open>d\<close> folded after 40.\<close>

definition sample_player :: "string \<Rightarrow> int \<Rightarrow> int \<Rightarrow> int \<Rightarrow> bool \<Rightarrow> PlayerState" where
  "sample_player pid seat stack committed folded =
     \<lparr>PlayerId = pid, Seat = seat, SeatStatus = SEAT_STATUS_OCCUPIED, Stack = stack,
      CurrentBet = 0, TotalCommittedThisHand = committed, IsFolded = folded, IsAllIn = (stack = 0),
      IsSittingOut = False, TimeBankRemaining = None, MustPostBlind = False,
      DisconnectedAt = None, HoleCard_1 = None, HoleCard_2 = None\<rparr>"

definition sample_hand :: "string list \<Rightarrow> HandState" where
  "sample_hand order =
     \<lparr>HandId = ''h'', DealerPlayerId = ''a'', SmallBlindPlayerId = ''b'', BigBlindPlayerId = ''c'',
      Pot = 270, RakeTaken = 0, Phase = HAND_PHASE_RIVER, CurrentHighestBet = 0,
      LastRaiseAmount = 0, MinRaiseAmount = 10, RaisesThisStreet = 0, ActingPlayerId = None,
      ActionDeadline = None, FlopCard_1 = None, FlopCard_2 = None, FlopCard_3 = None,
      TurnCard = None, RiverCard = None, SecondBoard = [], SidePots = [],
      PendingActions = [], ActionOrder = order, StartedAt = None, LastFullRaiseTo = 0,
      ActionClosedFor = []\<rparr>"

definition sample_state :: "(string \<times> PlayerState) list \<Rightarrow> HandState option \<Rightarrow> GameState" where
  "sample_state ps h =
     \<lparr>GameId = ''g'', Status = GAME_STATUS_ACTIVE, Version = 1, Config = None, DealerSeat = 1,
      HandNumber = 1, CurrentHand = h, Players = ps, PlayerUserIds = [], ReservedSeats = [],
      WaitingList = []\<rparr>"

definition pots_players :: "(string \<times> PlayerState) list" where
  "pots_players = [(''a'', sample_player ''a'' 1 0 30 False), (''b'', sample_player ''b'' 2 50 100 False),
     (''c'', sample_player ''c'' 3 60 100 False), (''d'', sample_player ''d'' 4 70 40 True)]"

definition pots_state :: GameState where
  "pots_state = sample_state pots_players (Some (sample_hand [''b'', ''c'', ''d'', ''a'']))"

lemma pots_state_ok: "pots_ok pots_state"
  by code_simp

lemma computePots_total_witness:
  "sum_list (map pot_amount (computePots pots_state)) = 270"
proof -
  have "committed_sum pots_state = 270" by code_simp
  then show ?thesis using computePots_total [OF pots_state_ok] by simp
qed

lemma computePots_side_pot_rule_witness: "won_by ''a'' (computePots pots_state) = 120"
proof -
  have "player pots_state ''a'' = Some (sample_player ''a'' 1 0 30 False)" by code_simp
  moreover have "asum (\<lambda>p. min (TotalCommittedThisHand p) 30) (Players pots_state) = 120"
    by code_simp
  ultimately show ?thesis
    using computePots_side_pot_rule [OF pots_state_ok, of "''a''"] by (simp add: sample_player_def)
qed

lemma computePots_iteration_order_witness:
  "computePots pots_state = computePots (pots_state\<lparr>Players := rev pots_players\<rparr>)"
proof (rule computePots_iteration_order)
  show "\<forall>(id, p) \<in> set (Players pots_state). 0 < TotalCommittedThisHand p \<and> \<not> IsFolded p
      \<longrightarrow> id \<in> set (case CurrentHand pots_state of None \<Rightarrow> [] | Some h \<Rightarrow> ActionOrder h)"
    by code_simp
qed (simp_all add: pots_state_def sample_state_def)

definition rake_config :: CashGameConfig where
  "rake_config =
     \<lparr>TableName = ''t'', Variant = GAME_VARIANT_TEXAS_HOLDEM,
      Structure = BETTING_STRUCTURE_NO_LIMIT, Currency = ''USD'', MaxSeats = 6,
      MinPlayersToStart = 2, SmallBlind = 5, BigBlind = 10, Ante = 0, BbAnte = 0,
      StraddleAmount = 0, SmallBet = 0, BigBet = 0, MaxRaisesPerStreet = 0, UncapHeadsUp = False,
      MinBuyIn = 200, MaxBuyIn = 2000, AllowRebuy = True, AllowTopUp = True,
      AutoRebuyThreshold = 0, AutoRebuyAmount = 0, RakeBps = 500, RakeCap = 30,
      NoFlopNoDrop = True, ActionTimeout = Some 30000000000, TimeBankInitial = Some 60000000000,
      TimeBankIncrement = None, HandStartDelay = None, SeatReservationTimeout = None,
      AutoMuckLosingHands = False, AllowRunItTwice = True, AllowChat = True,
      ShowFoldedCards = False, AllowStraddle = False, AllowSeatChange = False,
      RequirePostForNewPlayer = False, IsPrivate = False, Password = []\<rparr>"

lemma computeRake_bounds_witness: "computeRake 333 (Some rake_config) = 16"
  using computeRake_bounds [of 333 rake_config] by (simp add: rake_config_def in64_def)

end
