(* ===== verification/Advance.thy ===== *)
theory Advance
  imports Dealer HandEval Pots Apply
begin

text \<open>
  \<open>src/internal/engine/advance.go\<close>: the moves the server makes on its own. \<open>advance\<close>
  looks at the state and returns the next batch of events, none when it waits for a player.
  The clock (\<open>now\<close>, 0 for Go's zero time), the identifier of a new hand (\<open>uuid.New\<close>, a
  third-party package, here any function of the state's version) and the dealer are
  arguments. A Go pair of events and error is a sum; the dealer's state is returned also on
  an error, because what it dealt stays dealt.
\<close>

section \<open>Views of the hand\<close>

definition activePlayers :: "GameState \<Rightarrow> PlayerState list" where
  "activePlayers st =
     sort_key Seat (filter (\<lambda>p. \<not> IsSittingOut p \<and> Stack p > 0) (map snd (Players st)))"

fun first_seat_after :: "PlayerState list \<Rightarrow> int \<Rightarrow> nat option" where
  "first_seat_after [] seat = None"
| "first_seat_after (p # ps) seat =
     (if Seat p > seat then Some 0 else map_option Suc (first_seat_after ps seat))"

definition newDealerIdx :: "PlayerState list \<Rightarrow> int \<Rightarrow> int \<Rightarrow> nat" where
  "newDealerIdx active dealerSeat handNumber =
     (if handNumber = 0 then 0
      else case first_seat_after active dealerSeat of Some i \<Rightarrow> i | None \<Rightarrow> 0)"

definition in_hand :: "GameState \<Rightarrow> string \<Rightarrow> bool" where
  \<comment> \<open>\<open>p := state.Players[pid]; p != nil && !p.IsFolded\<close>\<close>
  "in_hand st pid = (case player st pid of None \<Rightarrow> False | Some p \<Rightarrow> \<not> IsFolded p)"

definition nonFoldedPlayerIDs :: "GameState \<Rightarrow> string list" where
  "nonFoldedPlayerIDs st =
     (case CurrentHand st of None \<Rightarrow> [] | Some h \<Rightarrow> filter (in_hand st) (ActionOrder h))"

definition nonFoldedCount :: "GameState \<Rightarrow> nat" where
  "nonFoldedCount st =
     (case CurrentHand st of
        None \<Rightarrow> 0
      | Some h \<Rightarrow> length (filter (in_hand st) (ActionOrder h)))"

definition boardCards :: "HandState \<Rightarrow> card list" where
  "boardCards h =
     (if FlopCard_1 h \<noteq> None
      then [the (FlopCard_1 h), the (FlopCard_2 h), the (FlopCard_3 h)] else [])
     @ (case TurnCard h of None \<Rightarrow> [] | Some c \<Rightarrow> [c])
     @ (case RiverCard h of None \<Rightarrow> [] | Some c \<Rightarrow> [c])"

section \<open>Single moves\<close>

definition timeoutAction :: "GameState \<Rightarrow> GameEvent list" where
  "timeoutAction st =
     (let h = the (CurrentHand st);
          pid = the (ActingPlayerId h);
          defaultAction = (case player st pid of
              None \<Rightarrow> ''check''
            | Some p \<Rightarrow> if CurrentHighestBet h > CurrentBet p then ''fold'' else ''check'');
          action = (if defaultAction = ''fold'' then mk_event (EvPlayerFolded pid)
                    else mk_event (EvPlayerChecked pid))
      in [mk_event (EvPlayerTimedOut pid defaultAction), action])"

definition startNextAction :: "GameState \<Rightarrow> timestamp \<Rightarrow> GameEvent list" where
  "startNextAction st now =
     (let h = the (CurrentHand st);
          pid = hd (PendingActions h);
          timeout = get_cfg ActionTimeout None (Config st);
          deadline = (case timeout of
              None \<Rightarrow> None
            | Some d \<Rightarrow> if d > 0 \<and> now \<noteq> 0 then Some (now + d) else None)
      in [mk_event (EvActionStarted pid timeout deadline)])"

fun dealHoleCards ::
  "'d Dealer \<Rightarrow> PlayerState list \<Rightarrow> 'd \<Rightarrow> (go_error + GameEvent list) \<times> 'd" where
  "dealHoleCards dlr [] d = (Inr [], d)"
| "dealHoleCards dlr (p # ps) d =
     (case Deal dlr d of
        (Inl e, d1) \<Rightarrow> (Inl (''deal to '' @ PlayerId p @ '' card 1: '' @ e), d1)
      | (Inr c1, d1) \<Rightarrow>
          (case Deal dlr d1 of
             (Inl e, d2) \<Rightarrow> (Inl (''deal to '' @ PlayerId p @ '' card 2: '' @ e), d2)
           | (Inr c2, d2) \<Rightarrow>
               (case dealHoleCards dlr ps d2 of
                  (Inl e, d3) \<Rightarrow> (Inl e, d3)
                | (Inr evs, d3) \<Rightarrow>
                    (Inr (mk_event (EvHoleCardsDealt (PlayerId p))
                          # mk_event (EvHoleCardsRevealed (PlayerId p) c1 c2) # evs), d3))))"

text \<open>The indices of dealer, small and big blind among \<open>n\<close> active players.\<close>

definition blind_positions :: "nat \<Rightarrow> nat \<Rightarrow> nat \<times> nat" where
  "blind_positions n dIdx =
     (if n = 2 then (dIdx, (dIdx + 1) mod n) else ((dIdx + 1) mod n, (dIdx + 2) mod n))"

definition hand_opening ::
  "string \<Rightarrow> GameState \<Rightarrow> PlayerState list \<Rightarrow> PlayerState \<Rightarrow> PlayerState \<Rightarrow> PlayerState
     \<Rightarrow> GameEvent list" where
  \<comment> \<open>the events of \<open>startNewHand\<close> up to the blinds\<close>
  "hand_opening handID st active dealer sb bb =
     (let cfg = Config st;
          ante = get_cfg Ante 0 cfg;
          bbAnte = get_cfg BbAnte 0 cfg
      in [mk_event (EvHandStarted handID (add64 (HandNumber st) 1) (PlayerId dealer) (PlayerId sb)
             (PlayerId bb) (get_cfg SmallBlind 0 cfg) (get_cfg BigBlind 0 cfg))]
         @ (if ante > 0
            then map (\<lambda>p. mk_event (EvAntePosted (PlayerId p) (min ante (Stack p)))) active
            else [])
         @ (if bbAnte > 0
            then [mk_event (EvAntePosted (PlayerId bb) (min bbAnte (Stack bb)))] else [])
         @ [mk_event (EvBlindPosted (PlayerId sb) (min (get_cfg SmallBlind 0 cfg) (Stack sb))
              True False False),
            mk_event (EvBlindPosted (PlayerId bb) (min (get_cfg BigBlind 0 cfg) (Stack bb))
              False True False)])"

definition startNewHand ::
  "(int \<Rightarrow> string) \<Rightarrow> 'd Dealer \<Rightarrow> GameState \<Rightarrow> PlayerState list \<Rightarrow> 'd
     \<Rightarrow> (go_error + GameEvent list) \<times> 'd" where
  "startNewHand uuid_New dlr st active d =
     (let n = length active;
          dIdx = newDealerIdx active (DealerSeat st) (HandNumber st);
          (sbIdx, bbIdx) = blind_positions n dIdx;
          dealer = active ! dIdx; sb = active ! sbIdx; bb = active ! bbIdx
      in case Shuffle dlr d of
           (Some e, d1) \<Rightarrow> (Inl (''shuffle: '' @ e), d1)
         | (None, d1) \<Rightarrow>
             (case dealHoleCards dlr active d1 of
                (Inl e, d2) \<Rightarrow> (Inl e, d2)
              | (Inr holes, d2) \<Rightarrow>
                  (Inr (hand_opening (uuid_New (Version st)) st active dealer sb bb @ holes), d2)))"

section \<open>The end of a hand\<close>

definition endHandUncontested :: "GameState \<Rightarrow> GameEvent list" where
  "endHandUncontested st =
     (let h = the (CurrentHand st)
      in case find (in_hand st) (ActionOrder h) of
           None \<Rightarrow> []
         | Some winnerID \<Rightarrow>
             if winnerID = [] then []
             else
               let rake = computeRake (Pot h) (Config st)
               in (if rake > 0 then [mk_event (EvRakeTaken rake)] else [])
                  @ [mk_event (EvPotAwarded (sub64 (Pot h) rake) [winnerID] [] []),
                     mk_event (EvHandEnded (add64 (HandNumber st) 1))])"

record playerHandEval =
  pe_rank :: handRank
  pe_bestFive :: "card list"
  pe_desc :: string

text \<open>\<open>evals\<close>: one entry for each player still in the hand whose two cards are known.\<close>

definition hand_evals :: "GameState \<Rightarrow> card list \<Rightarrow> string list \<Rightarrow> (string \<times> playerHandEval) list" where
  "hand_evals st board nonFolded =
     concat (map (\<lambda>pid.
       case player st pid of
         None \<Rightarrow> []
       | Some p \<Rightarrow>
           (case (HoleCard_1 p, HoleCard_2 p) of
              (Some c1, Some c2) \<Rightarrow>
                (case the (bestHand c1 c2 board) of
                   (r, five, desc) \<Rightarrow> [(pid, \<lparr>pe_rank = r, pe_bestFive = five, pe_desc = desc\<rparr>)])
            | _ \<Rightarrow> [])) nonFolded)"

type_synonym winner_state = "handRank \<times> card list \<times> string \<times> string list"

definition consider_winner ::
  "(string \<times> playerHandEval) list \<Rightarrow> string \<Rightarrow> winner_state \<Rightarrow> winner_state" where
  "consider_winner evals pid acc =
     (case acc of (best, bestCards, bestDesc, winners) \<Rightarrow>
        (case map_of evals pid of
           None \<Rightarrow> acc
         | Some ev \<Rightarrow>
             if winners = [] \<or> pe_rank ev > best
             then (pe_rank ev, pe_bestFive ev, pe_desc ev, [pid])
             else if pe_rank ev = best
             then (best, bestCards, bestDesc, winners @ [pid])
             else acc))"

definition potWinners ::
  "(string \<times> playerHandEval) list \<Rightarrow> string list \<Rightarrow> GameState
     \<Rightarrow> string list \<times> card list \<times> string" where
  "potWinners evals eligibleIDs st =
     (case fold (consider_winner evals) eligibleIDs (0, replicate 5 0, [], []) of
        (best, bestCards, bestDesc, winners) \<Rightarrow>
          let winners' =
            (if winners = []
             then let w = firstEligibleInOrder st eligibleIDs
                  in if w \<noteq> [] then [w] else []
             else winners)
          in (winners', bestCards, bestDesc))"

definition award_pot ::
  "(string \<times> playerHandEval) list \<Rightarrow> GameState \<Rightarrow> pot \<Rightarrow> GameEvent list" where
  \<comment> \<open>one round of the loop over the pots\<close>
  "award_pot evals st p =
     (if pot_amount p \<le> 0 then []
      else case potWinners evals (pot_eligibleIDs p) st of
        (winners, bestFive, bestDesc) \<Rightarrow>
          if winners = [] then []
          else [mk_event (EvPotAwarded (pot_amount p) winners (map (\<lambda>c. c mod 256) bestFive)
                  bestDesc)])"

definition take_rake :: "int \<Rightarrow> pot list \<Rightarrow> pot list" where
  \<comment> \<open>\<open>pots[0].amount -= rake\<close>\<close>
  "take_rake rake pots =
     (case pots of
        [] \<Rightarrow> []
      | p # ps \<Rightarrow> p\<lparr>pot_amount := sub64 (pot_amount p) rake\<rparr> # ps)"

definition endHandShowdown :: "GameState \<Rightarrow> GameEvent list" where
  "endHandShowdown st =
     (let h = the (CurrentHand st); nonFolded = nonFoldedPlayerIDs st
      in if nonFolded = [] then []
         else
           let evals = hand_evals st (boardCards h) nonFolded;
               computed = computePots st;
               pots = (if computed = []
                       then [\<lparr>pot_amount = Pot h, pot_eligibleIDs = nonFolded\<rparr>] else computed);
               rake = computeRake (Pot h) (Config st);
               pots' = (if rake > 0 then take_rake rake pots else pots)
           in [mk_event (EvShowdown nonFolded)]
              @ map (\<lambda>p. mk_event (EvSidePotCreated (pot_amount p) (pot_eligibleIDs p))) (tl pots)
              @ (if rake > 0 then [mk_event (EvRakeTaken rake)] else [])
              @ concat (map (award_pot evals st) pots')
              @ [mk_event (EvHandEnded (add64 (HandNumber st) 1))])"

section \<open>Streets\<close>

text \<open>Burn one card, then deal \<open>n\<close>; \<open>street\<close> is the name in the error of the burn.\<close>

definition burn_and_deal ::
  "'d Dealer \<Rightarrow> string \<Rightarrow> nat \<Rightarrow> 'd \<Rightarrow> (go_error + card list) \<times> 'd" where
  "burn_and_deal dlr street n d =
     (case Burn dlr d of
        (Some e, d1) \<Rightarrow> (Inl (''burn ('' @ street @ ''): '' @ e), d1)
      | (None, d1) \<Rightarrow> deal_n dlr n d1)"

definition advanceStreet ::
  "'d Dealer \<Rightarrow> GameState \<Rightarrow> 'd \<Rightarrow> (go_error + GameEvent list) \<times> 'd" where
  "advanceStreet dlr st d =
     (let h = the (CurrentHand st);
          bre = mk_event (EvBettingRoundEnded (Phase h) (Pot h))
      in case Phase h of
           HAND_PHASE_PREFLOP \<Rightarrow>
             (case burn_and_deal dlr ''flop'' 3 d of
                (Inl e, d1) \<Rightarrow> (Inl e, d1)
              | (Inr cs, d1) \<Rightarrow> (Inr [bre, mk_event (EvFlopDealt (cs ! 0) (cs ! 1) (cs ! 2))], d1))
         | HAND_PHASE_FLOP \<Rightarrow>
             (case burn_and_deal dlr ''turn'' 1 d of
                (Inl e, d1) \<Rightarrow> (Inl e, d1)
              | (Inr cs, d1) \<Rightarrow> (Inr [bre, mk_event (EvTurnDealt (cs ! 0))], d1))
         | HAND_PHASE_TURN \<Rightarrow>
             (case burn_and_deal dlr ''river'' 1 d of
                (Inl e, d1) \<Rightarrow> (Inl e, d1)
              | (Inr cs, d1) \<Rightarrow> (Inr [bre, mk_event (EvRiverDealt (cs ! 0))], d1))
         | HAND_PHASE_RIVER \<Rightarrow> (Inr (bre # endHandShowdown st), d)
         | _ \<Rightarrow> (Inr [], d))"

section \<open>advance\<close>

definition advanceIdle ::
  "(int \<Rightarrow> string) \<Rightarrow> 'd Dealer \<Rightarrow> GameState \<Rightarrow> 'd \<Rightarrow> (go_error + GameEvent list) \<times> 'd" where
  "advanceIdle uuid_New dlr st d =
     (if Status st \<noteq> GAME_STATUS_WAITING \<and> Status st \<noteq> GAME_STATUS_ACTIVE then (Inr [], d)
      else
        let satOutEvents = map (\<lambda>p. mk_event (EvPlayerSatOut (PlayerId p)))
              (filter (\<lambda>p. Stack p = 0 \<and> \<not> IsSittingOut p) (map snd (Players st)))
        in if satOutEvents \<noteq> [] then (Inr satOutEvents, d)
           else
             let active = activePlayers st;
                 minP = (let m = get_cfg MinPlayersToStart 0 (Config st) in if m < 2 then 2 else m)
             in if int (length active) < minP then (Inr [], d)
                else startNewHand uuid_New dlr st active d)"

definition deadline_passed :: "HandState \<Rightarrow> timestamp \<Rightarrow> bool" where
  "deadline_passed h now \<longleftrightarrow> ActingPlayerId h \<noteq> None \<and> now \<noteq> 0
     \<and> (case ActionDeadline h of None \<Rightarrow> False | Some t \<Rightarrow> now > t)"

definition advanceHand ::
  "'d Dealer \<Rightarrow> timestamp \<Rightarrow> GameState \<Rightarrow> 'd \<Rightarrow> (go_error + GameEvent list) \<times> 'd" where
  "advanceHand dlr now st d =
     (let h = the (CurrentHand st)
      in if deadline_passed h now then (Inr (timeoutAction st), d)
         else if nonFoldedCount st \<le> 1 then (Inr (endHandUncontested st), d)
         else if PendingActions h = [] \<and> ActingPlayerId h = None then advanceStreet dlr st d
         else if ActingPlayerId h \<noteq> None then (Inr [], d)
         else (Inr (startNextAction st now), d))"

definition advance ::
  "(int \<Rightarrow> string) \<Rightarrow> 'd Dealer \<Rightarrow> timestamp \<Rightarrow> GameState \<Rightarrow> 'd
     \<Rightarrow> (go_error + GameEvent list) \<times> 'd" where
  "advance uuid_New dlr now st d =
     (if CurrentHand st = None then advanceIdle uuid_New dlr st d
      else advanceHand dlr now st d)"

end
