(* ===== verification/Rejection.thy ===== *)
theory Rejection
  imports Proto
begin

text \<open>
  \<open>src/internal/engine/rejection.go\<close>: the stable codes of a rejected command, the reason
  attached to one and the event a rejection becomes.
\<close>

datatype RejectionCode =
    CodeNotAtTable
  | CodeNotYourTurn
  | CodePlayerSittingOut
  | CodePlayerFolded
  | CodePlayerAllIn
  | CodeWrongPhase
  | CodeHandNotInProgress
  | CodeGameNotActive
  | CodeTableClosed
  | CodeIllegalAction
  | CodeCannotCheck
  | CodeCannotFold
  | CodeCannotShowYet
  | CodeCannotMuckYet
  | CodeCannotRunItTwice
  | CodeRaiseActionClosed
  | CodeIllegalAmount
  | CodeAmountBelowMinBet
  | CodeAmountBelowMinRaise
  | CodeAmountAboveStack
  | CodeRaiseCapReached
  | CodeCallAmountMismatch
  | CodeNoTimeBank
  | CodeTimeBankNotActive
  | CodeAlreadySittingOut
  | CodeAlreadySittingIn
  | CodeChatDisabled
  | CodeChatMuted
  | CodeChatMessageEmpty
  | CodeChatMessageTooLong
  | CodeMalformedCommand
  | CodeUnknownCommand

text \<open>\<open>string(code)\<close>: the text a client and a log see.\<close>

primrec code_string :: "RejectionCode \<Rightarrow> string" where
  "code_string CodeNotAtTable = ''NOT_AT_TABLE''"
| "code_string CodeNotYourTurn = ''NOT_YOUR_TURN''"
| "code_string CodePlayerSittingOut = ''PLAYER_SITTING_OUT''"
| "code_string CodePlayerFolded = ''PLAYER_FOLDED''"
| "code_string CodePlayerAllIn = ''PLAYER_ALL_IN''"
| "code_string CodeWrongPhase = ''WRONG_PHASE''"
| "code_string CodeHandNotInProgress = ''HAND_NOT_IN_PROGRESS''"
| "code_string CodeGameNotActive = ''GAME_NOT_ACTIVE''"
| "code_string CodeTableClosed = ''TABLE_CLOSED''"
| "code_string CodeIllegalAction = ''ILLEGAL_ACTION''"
| "code_string CodeCannotCheck = ''CANNOT_CHECK''"
| "code_string CodeCannotFold = ''CANNOT_FOLD''"
| "code_string CodeCannotShowYet = ''CANNOT_SHOW_YET''"
| "code_string CodeCannotMuckYet = ''CANNOT_MUCK_YET''"
| "code_string CodeCannotRunItTwice = ''CANNOT_RUN_IT_TWICE''"
| "code_string CodeRaiseActionClosed = ''RAISE_ACTION_CLOSED''"
| "code_string CodeIllegalAmount = ''ILLEGAL_AMOUNT''"
| "code_string CodeAmountBelowMinBet = ''AMOUNT_BELOW_MIN_BET''"
| "code_string CodeAmountBelowMinRaise = ''AMOUNT_BELOW_MIN_RAISE''"
| "code_string CodeAmountAboveStack = ''AMOUNT_ABOVE_STACK''"
| "code_string CodeRaiseCapReached = ''RAISE_CAP_REACHED''"
| "code_string CodeCallAmountMismatch = ''CALL_AMOUNT_MISMATCH''"
| "code_string CodeNoTimeBank = ''NO_TIME_BANK''"
| "code_string CodeTimeBankNotActive = ''TIME_BANK_NOT_ACTIVE''"
| "code_string CodeAlreadySittingOut = ''ALREADY_SITTING_OUT''"
| "code_string CodeAlreadySittingIn = ''ALREADY_SITTING_IN''"
| "code_string CodeChatDisabled = ''CHAT_DISABLED''"
| "code_string CodeChatMuted = ''CHAT_MUTED''"
| "code_string CodeChatMessageEmpty = ''CHAT_MESSAGE_EMPTY''"
| "code_string CodeChatMessageTooLong = ''CHAT_MESSAGE_TOO_LONG''"
| "code_string CodeMalformedCommand = ''MALFORMED_COMMAND''"
| "code_string CodeUnknownCommand = ''UNKNOWN_COMMAND''"

record RejectionReason =
  Code :: RejectionCode
  Reason :: string

text \<open>\<open>reject(code, format, args...)\<close>: the caller passes the formatted text. A validator
  returns \<open>*RejectionReason\<close>: \<^const>\<open>None\<close> is nil, the command is allowed.\<close>

definition reject :: "RejectionCode \<Rightarrow> string \<Rightarrow> RejectionReason" where
  "reject code reason = \<lparr>Code = code, Reason = reason\<rparr>"

definition toCommandRejectedEvent :: "RejectionReason \<Rightarrow> string \<Rightarrow> string \<Rightarrow> GameEvent" where
  "toCommandRejectedEvent r gameID commandID =
     (mk_event (EvCommandRejected commandID (Reason r) (code_string (Code r))))
       \<lparr>evt_GameId := gameID\<rparr>"

lemma toCommandRejectedEvent_sel [simp]:
  "evt_Event (toCommandRejectedEvent r g c) =
     Some (EvCommandRejected c (Reason r) (code_string (Code r)))"
  "evt_StateVersion (toCommandRejectedEvent r g c) = 0"
  by (simp_all add: toCommandRejectedEvent_def)

lemma Code_reject [simp]: "Code (reject c s) = c"
  by (simp add: reject_def)

text \<open>Clients dispatch on the text, so no two codes may share one.\<close>

lemma code_string_inj: "code_string c = code_string c' \<longleftrightarrow> c = c'"
  by (cases c; cases c') simp_all

end
