(* ===== verification/Validate.thy ===== *)
theory Validate
  imports Rejection Utf8
begin

text \<open>
  \<open>src/internal/engine/validate.go\<close>, \<open>validate_actions.go\<close>, \<open>validate_session.go\<close> and
  \<open>validate_showdown.go\<close>: whether a command is allowed. \<^const>\<open>None\<close> is the nil
  \<open>*RejectionReason\<close>. The order of the checks is the order of the code, because it
  decides which reason a client sees.
\<close>

text \<open>\<open>if r := f(); r != nil { return r }\<close> followed by the rest of the function.\<close>

definition reject_or :: "RejectionReason option \<Rightarrow> RejectionReason option \<Rightarrow> RejectionReason option" where
  "reject_or r rest = (case r of Some x \<Rightarrow> Some x | None \<Rightarrow> rest)"

lemma reject_or_None [simp]: "reject_or r rest = None \<longleftrightarrow> r = None \<and> rest = None"
  by (simp add: reject_or_def split: option.splits)

lemma reject_or_simps [simp]: "reject_or None rest = rest" "reject_or (Some x) rest = Some x"
  by (simp_all add: reject_or_def)

section \<open>Preconditions\<close>

definition requireTableOpen :: "GameState \<Rightarrow> RejectionReason option" where
  "requireTableOpen st =
     (if Status st = GAME_STATUS_CLOSED then Some (reject CodeTableClosed ''table is closed'')
      else None)"

definition requireActiveGame :: "GameState \<Rightarrow> RejectionReason option" where
  "requireActiveGame st =
     (if Status st = GAME_STATUS_CLOSED then Some (reject CodeTableClosed ''table is closed'')
      else if Status st = GAME_STATUS_ACTIVE \<or> Status st = GAME_STATUS_PAUSED then None
      else Some (reject CodeGameNotActive ''game is not currently active''))"

definition requireHandInProgress :: "GameState \<Rightarrow> RejectionReason option" where
  "requireHandInProgress st =
     (case CurrentHand st of
        None \<Rightarrow> Some (reject CodeHandNotInProgress ''no hand in progress'')
      | Some h \<Rightarrow>
          if Phase h = HAND_PHASE_HAND_OVER \<or> Phase h = HAND_PHASE_UNSPECIFIED
          then Some (reject CodeHandNotInProgress ''hand is not in a playable phase'')
          else None)"

definition requireSeated :: "GameState \<Rightarrow> string \<Rightarrow> RejectionReason + PlayerState" where
  "requireSeated st actor =
     (case player st actor of
        None \<Rightarrow> Inl (reject CodeNotAtTable (''player '' @ actor @ '' is not at this table''))
      | Some p \<Rightarrow> Inr p)"

definition with_seated ::
  "GameState \<Rightarrow> string \<Rightarrow> (PlayerState \<Rightarrow> RejectionReason option) \<Rightarrow> RejectionReason option" where
  \<comment> \<open>\<open>p, r := requireSeated(state, actor); if r != nil { return r }\<close>\<close>
  "with_seated st actor rest =
     (case requireSeated st actor of Inl r \<Rightarrow> Some r | Inr p \<Rightarrow> rest p)"

definition requireActorsTurn :: "GameState \<Rightarrow> string \<Rightarrow> RejectionReason option" where
  "requireActorsTurn st actor =
     (case ActingPlayerId (the (CurrentHand st)) of
        None \<Rightarrow> Some (reject CodeNotYourTurn ''no player is currently acting'')
      | Some a \<Rightarrow>
          if a = [] then Some (reject CodeNotYourTurn ''no player is currently acting'')
          else if a \<noteq> actor then Some (reject CodeNotYourTurn ''it is not your turn to act'')
          else None)"

definition requireCanAct :: "PlayerState \<Rightarrow> RejectionReason option" where
  "requireCanAct p =
     (if IsSittingOut p then Some (reject CodePlayerSittingOut ''player is sitting out'')
      else if IsFolded p then Some (reject CodePlayerFolded ''player has folded this hand'')
      else if IsAllIn p then Some (reject CodePlayerAllIn ''player is all-in'')
      else None)"

section \<open>Amounts\<close>

definition callAmount :: "HandState \<Rightarrow> PlayerState \<Rightarrow> int" where
  "callAmount h p =
     (if CurrentHighestBet h \<le> CurrentBet p then 0
      else let needed = sub64 (CurrentHighestBet h) (CurrentBet p)
           in if needed > Stack p then Stack p else needed)"

definition minRaiseTo :: "GameState \<Rightarrow> HandState \<Rightarrow> int" where
  "minRaiseTo st h =
     (let minRaiseBy = (case Config st of
              None \<Rightarrow> LastRaiseAmount h
            | Some c \<Rightarrow> if LastRaiseAmount h < BigBlind c then BigBlind c else LastRaiseAmount h)
      in add64 (CurrentHighestBet h) minRaiseBy)"

definition playersInHand :: "GameState \<Rightarrow> nat" where
  "playersInHand st =
     length (filter (\<lambda>(id, p). \<not> IsFolded p \<and> \<not> IsSittingOut p) (Players st))"

section \<open>Betting actions\<close>

definition validateFold :: "GameState \<Rightarrow> string \<Rightarrow> RejectionReason option" where
  "validateFold st actor =
     reject_or (requireActiveGame st)
       (reject_or (requireHandInProgress st)
         (with_seated st actor (\<lambda>p.
           reject_or (requireCanAct p) (requireActorsTurn st actor))))"

definition validateCheck :: "GameState \<Rightarrow> string \<Rightarrow> RejectionReason option" where
  "validateCheck st actor =
     reject_or (requireActiveGame st)
       (reject_or (requireHandInProgress st)
         (with_seated st actor (\<lambda>p.
           reject_or (requireCanAct p)
             (reject_or (requireActorsTurn st actor)
               (let h = the (CurrentHand st)
                in if callAmount h p > 0
                   then Some (reject CodeCannotCheck
                     (''there is a bet of '' @ show_int (CurrentHighestBet h) @ '' to call''))
                   else None)))))"

definition validateCall :: "GameState \<Rightarrow> int \<Rightarrow> string \<Rightarrow> RejectionReason option" where
  "validateCall st amount actor =
     reject_or (requireActiveGame st)
       (reject_or (requireHandInProgress st)
         (with_seated st actor (\<lambda>p.
           reject_or (requireCanAct p)
             (reject_or (requireActorsTurn st actor)
               (let needed = callAmount (the (CurrentHand st)) p
                in if needed = 0
                   then Some (reject CodeIllegalAction ''nothing to call; use check instead'')
                   else if amount > 0 \<and> amount \<noteq> needed
                   then Some (reject CodeCallAmountMismatch
                     (''call amount '' @ show_int amount @ '' does not match required ''
                       @ show_int needed))
                   else None)))))"

definition validateBet :: "GameState \<Rightarrow> int \<Rightarrow> string \<Rightarrow> RejectionReason option" where
  "validateBet st amount actor =
     reject_or (requireActiveGame st)
       (reject_or (requireHandInProgress st)
         (with_seated st actor (\<lambda>p.
           reject_or (requireCanAct p)
             (reject_or (requireActorsTurn st actor)
               (let h = the (CurrentHand st);
                    bb = get_cfg BigBlind 0 (Config st)
                in if CurrentHighestBet h > 0
                   then Some (reject CodeIllegalAction
                     (''use raise; there is already a bet of '' @ show_int (CurrentHighestBet h)))
                   else if amount \<le> 0
                   then Some (reject CodeIllegalAmount ''bet amount must be positive'')
                   else if amount < bb \<and> amount \<noteq> Stack p
                   then Some (reject CodeAmountBelowMinBet
                     (''bet must be at least '' @ show_int bb @ '' (big blind) unless going all-in''))
                   else if amount > Stack p
                   then Some (reject CodeAmountAboveStack
                     (''bet '' @ show_int amount @ '' exceeds stack '' @ show_int (Stack p)))
                   else None)))))"

text \<open>The raise cap of fixed-limit games.\<close>

definition raise_cap_reached :: "GameState \<Rightarrow> HandState \<Rightarrow> RejectionReason option" where
  "raise_cap_reached st h =
     (case Config st of
        None \<Rightarrow> None
      | Some c \<Rightarrow>
          if Structure c = BETTING_STRUCTURE_FIXED_LIMIT
          then
            let cap = (if UncapHeadsUp c \<and> playersInHand st = 2 then 0 else MaxRaisesPerStreet c)
            in if cap > 0 \<and> RaisesThisStreet h \<ge> cap
               then Some (reject CodeRaiseCapReached
                 (''raise cap of '' @ show_int cap @ '' reached for this street''))
               else None
          else None)"

definition validateRaise :: "GameState \<Rightarrow> int \<Rightarrow> string \<Rightarrow> RejectionReason option" where
  "validateRaise st to actor =
     reject_or (requireActiveGame st)
       (reject_or (requireHandInProgress st)
         (with_seated st actor (\<lambda>p.
           reject_or (requireCanAct p)
             (reject_or (requireActorsTurn st actor)
               (let h = the (CurrentHand st);
                    needed = sub64 to (CurrentBet p);
                    minTo = minRaiseTo st h
                in if CurrentHighestBet h = 0
                   then Some (reject CodeIllegalAction ''no bet to raise; use bet instead'')
                   else if actor \<in> set (ActionClosedFor h)
                   then Some (reject CodeRaiseActionClosed
                     ''a sub-minimum all-in raise did not reopen your action; you may call or fold'')
                   else if to \<le> CurrentHighestBet h
                   then Some (reject CodeIllegalAmount
                     (''raise to '' @ show_int to @ '' must exceed current bet ''
                       @ show_int (CurrentHighestBet h)))
                   else if needed > Stack p
                   then Some (reject CodeAmountAboveStack
                     (''raise to '' @ show_int to @ '' requires '' @ show_int needed
                       @ '' but stack is '' @ show_int (Stack p)))
                   else if to < minTo \<and> needed \<noteq> Stack p
                   then Some (reject CodeAmountBelowMinRaise
                     (''raise to '' @ show_int to @ '' is below minimum '' @ show_int minTo
                       @ '' (unless going all-in)''))
                   else raise_cap_reached st h)))))"

definition validateAllIn :: "GameState \<Rightarrow> string \<Rightarrow> RejectionReason option" where
  "validateAllIn st actor =
     reject_or (requireActiveGame st)
       (reject_or (requireHandInProgress st)
         (with_seated st actor (\<lambda>p.
           reject_or (requireCanAct p)
             (reject_or (requireActorsTurn st actor)
               (if Stack p \<le> 0 then Some (reject CodeIllegalAction ''stack is zero'') else None)))))"

section \<open>Sitting out, time bank, chat\<close>

definition maxChatMessageRunes :: nat where "maxChatMessageRunes = 500"

definition validateSitOut :: "GameState \<Rightarrow> string \<Rightarrow> RejectionReason option" where
  "validateSitOut st actor =
     reject_or (requireTableOpen st)
       (with_seated st actor (\<lambda>p.
         if IsSittingOut p then Some (reject CodeAlreadySittingOut ''already sitting out'') else None))"

definition validateSitIn :: "GameState \<Rightarrow> string \<Rightarrow> RejectionReason option" where
  "validateSitIn st actor =
     reject_or (requireTableOpen st)
       (with_seated st actor (\<lambda>p.
         if \<not> IsSittingOut p then Some (reject CodeAlreadySittingIn ''already sitting in'') else None))"

definition validateUseTimeBank :: "GameState \<Rightarrow> string \<Rightarrow> RejectionReason option" where
  "validateUseTimeBank st actor =
     reject_or (requireActiveGame st)
       (reject_or (requireHandInProgress st)
         (with_seated st actor (\<lambda>p.
           case requireActorsTurn st actor of
             Some r \<Rightarrow> Some (reject CodeTimeBankNotActive (Reason r))
           | None \<Rightarrow>
               (case TimeBankRemaining p of
                  None \<Rightarrow> Some (reject CodeNoTimeBank ''no time bank remaining'')
                | Some d \<Rightarrow> if d \<le> 0 then Some (reject CodeNoTimeBank ''no time bank remaining'')
                           else None))))"

definition validateChatMessage :: "GameState \<Rightarrow> string \<Rightarrow> string \<Rightarrow> RejectionReason option" where
  "validateChatMessage st txt actor =
     reject_or (requireTableOpen st)
       (if \<not> get_cfg AllowChat False (Config st)
        then Some (reject CodeChatDisabled ''chat is disabled at this table'')
        else with_seated st actor (\<lambda>_.
          if TrimSpace txt = [] then Some (reject CodeChatMessageEmpty ''chat message is empty'')
          else if RuneCountInString txt > maxChatMessageRunes
          then Some (reject CodeChatMessageTooLong
            (''chat message exceeds '' @ show_nat maxChatMessageRunes @ '' characters''))
          else None))"

definition validateEmote :: "GameState \<Rightarrow> string \<Rightarrow> string \<Rightarrow> RejectionReason option" where
  "validateEmote st emoteID actor =
     reject_or (requireTableOpen st)
       (if \<not> get_cfg AllowChat False (Config st)
        then Some (reject CodeChatDisabled ''chat is disabled at this table'')
        else with_seated st actor (\<lambda>_.
          if TrimSpace emoteID = [] then Some (reject CodeMalformedCommand ''emote_id is required'')
          else None))"

section \<open>Showdown\<close>

primrec phase_string :: "HandPhase \<Rightarrow> string" where
  "phase_string HAND_PHASE_UNSPECIFIED = ''HAND_PHASE_UNSPECIFIED''"
| "phase_string HAND_PHASE_PREFLOP = ''HAND_PHASE_PREFLOP''"
| "phase_string HAND_PHASE_FLOP = ''HAND_PHASE_FLOP''"
| "phase_string HAND_PHASE_TURN = ''HAND_PHASE_TURN''"
| "phase_string HAND_PHASE_RIVER = ''HAND_PHASE_RIVER''"
| "phase_string HAND_PHASE_SHOWDOWN = ''HAND_PHASE_SHOWDOWN''"
| "phase_string HAND_PHASE_HAND_OVER = ''HAND_PHASE_HAND_OVER''"

definition validateShowCards :: "GameState \<Rightarrow> string \<Rightarrow> RejectionReason option" where
  "validateShowCards st actor =
     reject_or (requireActiveGame st)
       (case CurrentHand st of
          None \<Rightarrow> Some (reject CodeHandNotInProgress ''no hand in progress'')
        | Some h \<Rightarrow>
            with_seated st actor (\<lambda>p.
              if IsSittingOut p then Some (reject CodePlayerSittingOut ''sitting out'')
              else if Phase h \<noteq> HAND_PHASE_SHOWDOWN \<and> Phase h \<noteq> HAND_PHASE_HAND_OVER
              then Some (reject CodeCannotShowYet ''can only show cards at showdown'')
              else None))"

definition validateMuckCards :: "GameState \<Rightarrow> string \<Rightarrow> RejectionReason option" where
  "validateMuckCards st actor =
     reject_or (requireActiveGame st)
       (case CurrentHand st of
          None \<Rightarrow> Some (reject CodeHandNotInProgress ''no hand in progress'')
        | Some h \<Rightarrow>
            with_seated st actor (\<lambda>_.
              if Phase h \<noteq> HAND_PHASE_SHOWDOWN \<and> Phase h \<noteq> HAND_PHASE_HAND_OVER
              then Some (reject CodeCannotMuckYet ''can only muck cards at showdown'')
              else None))"

definition validateRunItTwice :: "GameState \<Rightarrow> string \<Rightarrow> RejectionReason option" where
  "validateRunItTwice st actor =
     reject_or (requireActiveGame st)
       (reject_or (requireHandInProgress st)
         (with_seated st actor (\<lambda>p.
           let phase = Phase (the (CurrentHand st)) in
           if \<not> get_cfg AllowRunItTwice False (Config st)
           then Some (reject CodeCannotRunItTwice ''run-it-twice is disabled at this table'')
           else if \<not> IsAllIn p
           then Some (reject CodeCannotRunItTwice ''you must be all-in to run it twice'')
           else if phase = HAND_PHASE_RIVER \<or> phase = HAND_PHASE_SHOWDOWN
                   \<or> phase = HAND_PHASE_HAND_OVER
           then Some (reject CodeCannotRunItTwice
             (''too late to run it twice in phase '' @ phase_string phase))
           else None)))"

section \<open>Dispatch\<close>

primrec validate_payload :: "GameState \<Rightarrow> CommandPayload \<Rightarrow> string \<Rightarrow> RejectionReason option" where
  "validate_payload st CmdFold actor = validateFold st actor"
| "validate_payload st CmdCheck actor = validateCheck st actor"
| "validate_payload st (CmdCall amount) actor = validateCall st amount actor"
| "validate_payload st (CmdBet amount) actor = validateBet st amount actor"
| "validate_payload st (CmdRaise to) actor = validateRaise st to actor"
| "validate_payload st CmdAllIn actor = validateAllIn st actor"
| "validate_payload st CmdSitOut actor = validateSitOut st actor"
| "validate_payload st CmdSitIn actor = validateSitIn st actor"
| "validate_payload st CmdShowCards actor = validateShowCards st actor"
| "validate_payload st CmdMuckCards actor = validateMuckCards st actor"
| "validate_payload st CmdUseTimeBank actor = validateUseTimeBank st actor"
| "validate_payload st (CmdChatMessage txt) actor = validateChatMessage st txt actor"
| "validate_payload st (CmdEmote emoteID) actor = validateEmote st emoteID actor"
| "validate_payload st (CmdRunItTwice agree) actor = validateRunItTwice st actor"
| "validate_payload st (CmdResume n) actor =
     Some (reject CodeUnknownCommand ''unknown command type *pokerv1.PlayerCommand_Resume'')"

definition validate :: "GameState \<Rightarrow> PlayerCommand option \<Rightarrow> string \<Rightarrow> RejectionReason option" where
  "validate st cmd actor =
     (case Option.bind cmd cmd_Payload of
        None \<Rightarrow> Some (reject CodeMalformedCommand ''command payload is empty'')
      | Some p \<Rightarrow> validate_payload st p actor)"

end
