(* ===== verification/Handler.thy ===== *)
theory Handler
  imports Advance Validate
begin

text \<open>
  \<open>src/internal/engine/handler.go\<close>: a command becomes its events, then the server moves
  until it waits again. The step cap of \<open>runAdvance\<close> is the fuel of \<open>run_steps\<close>, as in the
  code. \<open>time.Now\<close> is the argument \<open>now\<close>.
\<close>

primrec build_payload_events :: "GameState \<Rightarrow> string \<Rightarrow> string \<Rightarrow> CommandPayload \<Rightarrow> GameEvent list" where
  "build_payload_events st cmdID actor CmdFold = [mk_event (EvPlayerFolded actor)]"
| "build_payload_events st cmdID actor CmdCheck = [mk_event (EvPlayerChecked actor)]"
| "build_payload_events st cmdID actor (CmdCall amount) =
     [mk_event (EvPlayerCalled actor
        (callAmount (the (CurrentHand st)) (the (player st actor))))]"
| "build_payload_events st cmdID actor (CmdBet amount) = [mk_event (EvPlayerBet actor amount)]"
| "build_payload_events st cmdID actor (CmdRaise to) =
     [mk_event (EvPlayerRaised actor to (sub64 to (CurrentHighestBet (the (CurrentHand st)))))]"
| "build_payload_events st cmdID actor CmdAllIn =
     (let p = the (player st actor)
      in [mk_event (EvPlayerAllIn actor (add64 (CurrentBet p) (Stack p)))])"
| "build_payload_events st cmdID actor CmdSitOut = [mk_event (EvPlayerSatOut actor)]"
| "build_payload_events st cmdID actor CmdSitIn = [mk_event (EvPlayerSatIn actor)]"
| "build_payload_events st cmdID actor CmdShowCards =
     (let p = the (player st actor);
          c1 = (case HoleCard_1 p of None \<Rightarrow> 0 | Some c \<Rightarrow> c);
          c2 = (case HoleCard_2 p of None \<Rightarrow> 0 | Some c \<Rightarrow> c)
      in [mk_event (EvPlayerShowedCards actor c1 c2)])"
| "build_payload_events st cmdID actor CmdMuckCards = [mk_event (EvPlayerMuckedCards actor)]"
| "build_payload_events st cmdID actor CmdUseTimeBank = [mk_event (EvCommandAccepted cmdID)]"
| "build_payload_events st cmdID actor (CmdChatMessage txt) =
     [mk_event (EvChatMessageSent actor txt)]"
| "build_payload_events st cmdID actor (CmdEmote emoteID) =
     [mk_event (EvPlayerEmoteSent actor emoteID)]"
| "build_payload_events st cmdID actor (CmdRunItTwice agree) =
     [mk_event (EvRunItTwiceAgreed [actor])]"
| "build_payload_events st cmdID actor (CmdResume n) =
     [toCommandRejectedEvent
        (reject CodeUnknownCommand ''unhandled command type *pokerv1.PlayerCommand_Resume'')
        (GameId st) cmdID]"

definition buildCommandEvents :: "GameState \<Rightarrow> PlayerCommand \<Rightarrow> string \<Rightarrow> GameEvent list" where
  "buildCommandEvents st cmd actor =
     (case cmd_Payload cmd of
        None \<Rightarrow> [toCommandRejectedEvent
          (reject CodeUnknownCommand ''unhandled command type <nil>'') (GameId st) (cmd_CommandId cmd)]
      | Some p \<Rightarrow> build_payload_events st (cmd_CommandId cmd) actor p)"

definition commandEvents :: "GameState \<Rightarrow> PlayerCommand \<Rightarrow> string \<Rightarrow> GameEvent list" where
  "commandEvents st cmd actor =
     (case validate st (Some cmd) actor of
        Some reason \<Rightarrow> [toCommandRejectedEvent reason (GameId st) (cmd_CommandId cmd)]
      | None \<Rightarrow> buildCommandEvents st cmd actor)"

definition maxSteps :: nat where "maxSteps = 64"

primrec run_steps ::
  "nat \<Rightarrow> (int \<Rightarrow> string) \<Rightarrow> 'd Dealer \<Rightarrow> timestamp \<Rightarrow> GameState \<Rightarrow> 'd
     \<Rightarrow> (go_error + GameEvent list) \<times> 'd" where
  "run_steps 0 uuid_New dlr now st d = (Inr [], d)"
| "run_steps (Suc k) uuid_New dlr now st d =
     (case advance uuid_New dlr now st d of
        (Inl e, d1) \<Rightarrow> (Inl e, d1)
      | (Inr batch, d1) \<Rightarrow>
          if batch = [] then (Inr [], d1)
          else (case run_steps k uuid_New dlr now (applyAll st batch) d1 of
                  (Inl e, d2) \<Rightarrow> (Inl e, d2)
                | (Inr rest, d2) \<Rightarrow> (Inr (batch @ rest), d2)))"

definition runAdvance ::
  "(int \<Rightarrow> string) \<Rightarrow> 'd Dealer \<Rightarrow> timestamp \<Rightarrow> GameState \<Rightarrow> 'd
     \<Rightarrow> (go_error + GameEvent list) \<times> 'd" where
  "runAdvance uuid_New dlr now st d = run_steps maxSteps uuid_New dlr now st d"

definition HandleCommand ::
  "(int \<Rightarrow> string) \<Rightarrow> timestamp \<Rightarrow> GameState \<Rightarrow> PlayerCommand \<Rightarrow> string \<Rightarrow> 'd Dealer \<Rightarrow> 'd
     \<Rightarrow> (go_error + GameEvent list) \<times> 'd" where
  "HandleCommand uuid_New now st cmd actor dlr d =
     (let cmdEvents = commandEvents st cmd actor;
          curr = applyAll st cmdEvents
      in case runAdvance uuid_New dlr now curr d of
           (Inl e, d1) \<Rightarrow> (Inl (''advance: '' @ e), d1)
         | (Inr advanceEvents, d1) \<Rightarrow> (Inr (cmdEvents @ advanceEvents), d1))"

end
