(* ===== verification/Ledger.thy ===== *)
theory Ledger
  imports Apply
begin

text \<open>
  Where the chips go. The chips of a table are the stacks of its players and the pot of the
  hand in play. \<open>ledger\<close> says for every event by how much it may change them; the theorems
  show that \<^const>\<open>Apply\<close> changes them by exactly that, in the arithmetic of the code,
  whatever the state. Two numbers that are congruent modulo \<open>2 ^ 64\<close> and both fit an \<open>int64\<close>
  are equal, so without an overflow the equalities are those of the integers.
\<close>

section \<open>Arithmetic modulo \<open>2 ^ 64\<close>\<close>

definition M64 :: int where "M64 = 18446744073709551616"

definition eq64 :: "int \<Rightarrow> int \<Rightarrow> bool" where
  "eq64 a b \<longleftrightarrow> M64 dvd a - b"

definition off64 :: "int \<Rightarrow> int" where
  "off64 x = - ((x + 9223372036854775808) div 18446744073709551616)"

lemma wrap64_off: "wrap64 x = x + M64 * off64 x"
  unfolding wrap64_def off64_def M64_def
  by (simp add: minus_div_mult_eq_mod [symmetric] algebra_simps)

lemmas arith64 = add64_def sub64_def wrap64_off eq64_def

lemma eq64_refl [simp]: "eq64 a a"
  by (simp add: eq64_def)

lemma eq64_trans: "eq64 a b \<Longrightarrow> eq64 b c \<Longrightarrow> eq64 a c"
  unfolding eq64_def using dvd_add [of M64 "a - b" "b - c"] by simp

lemma eq64_add: "eq64 a b \<Longrightarrow> eq64 c d \<Longrightarrow> eq64 (a + c) (b + d)"
  unfolding eq64_def using dvd_add [of M64 "a - b" "c - d"] by (simp add: algebra_simps)

lemma eq64_exact: "eq64 a b \<Longrightarrow> in64 a \<Longrightarrow> in64 b \<Longrightarrow> a = b"
  unfolding eq64_def in64_def M64_def
  using zdvd_imp_le [of 18446744073709551616 "a - b"] zdvd_imp_le [of 18446744073709551616 "b - a"]
    dvd_minus_iff [of 18446744073709551616 "a - b"] by fastforce

section \<open>Chips and the ledger\<close>

definition pot_of :: "GameState \<Rightarrow> int" where
  "pot_of st = (case CurrentHand st of None \<Rightarrow> 0 | Some h \<Rightarrow> Pot h)"

definition stack_of :: "GameState \<Rightarrow> string \<Rightarrow> int" where
  "stack_of st pid = (case player st pid of None \<Rightarrow> 0 | Some p \<Rightarrow> Stack p)"

definition chips :: "GameState \<Rightarrow> int" where
  "chips st = asum Stack (Players st) + pot_of st"

primrec paid :: "GameState \<Rightarrow> int \<Rightarrow> int \<Rightarrow> string list \<Rightarrow> int" where
  \<comment> \<open>what the winners who still sit at the table receive\<close>
  "paid st award share [] = 0"
| "paid st award share (pid # ws) =
     (if player st pid = None then 0 else award) + paid st share share ws"

definition ledger :: "GameState \<Rightarrow> EventPayload \<Rightarrow> int" where
  "ledger st e =
     (case e of
        EvPlayerJoined pid uid seat buyIn \<Rightarrow> buyIn - stack_of st pid
      | EvPlayerLeft pid c r \<Rightarrow> - stack_of st pid
      | EvPlayerKicked pid r \<Rightarrow> - stack_of st pid
      | EvStackToppedUp pid a n \<Rightarrow> if player st pid = None then 0 else n - stack_of st pid
      | EvAutoRebuyTriggered pid a n \<Rightarrow> if player st pid = None then 0 else n - stack_of st pid
      | EvBuyInCompleted pid a \<Rightarrow> if player st pid = None then 0 else a
      | EvHandStarted hid n d sb bb s b \<Rightarrow> - pot_of st
      | EvPlayerAllIn pid a \<Rightarrow>
          (case (CurrentHand st, player st pid) of
             (Some h, Some p) \<Rightarrow> a - CurrentBet p - Stack p
           | _ \<Rightarrow> 0)
      | EvPotAwarded a ws c d \<Rightarrow>
          if ws = [] then 0
          else paid st (a sdiv int (length ws) + a smod int (length ws)) (a sdiv int (length ws)) ws
               - (if CurrentHand st = None then 0 else a)
      | EvRakeTaken a \<Rightarrow> if CurrentHand st = None then 0 else - a
      | EvHandEnded n \<Rightarrow> - pot_of st
      | _ \<Rightarrow> 0)"

section \<open>Each handler\<close>

lemma asum_update:
  "distinct (keys m) \<Longrightarrow>
   asum f (AList.update k v m) = asum f m - (case map_of m k of None \<Rightarrow> 0 | Some x \<Rightarrow> f x) + f v"
proof (induction m)
  case (Cons x m)
  show ?case
  proof (cases "fst x = k")
    case True
    then show ?thesis by (cases x) simp
  next
    case False
    then show ?thesis using Cons by (cases x) (simp add: keys_def split: option.splits)
  qed
qed simp

lemma asum_delete_stack:
  assumes "distinct (keys (Players st))"
  shows "asum Stack (AList.delete pid (Players st)) = asum Stack (Players st) - stack_of st pid"
proof (cases "map_of (Players st) pid")
  case None
  then have "AList.delete pid (Players st) = Players st"
    by (simp add: map_of_None_keys keys_def delete_id)
  with None show ?thesis by (simp add: stack_of_def player_def)
next
  case (Some p)
  then show ?thesis using asum_delete [OF Some assms] by (simp add: stack_of_def player_def)
qed

lemma asum_upd_player:
  "asum f (Players (upd_player pid g st)) =
     asum f (Players st) + (case player st pid of None \<Rightarrow> 0 | Some p \<Rightarrow> f (g p) - f p)"
  by (cases "map_of (Players st) pid")
    (simp_all add: player_def asum_map_entry asum_map_entry_None)

lemma asum_upd_all:
  "(\<And>p. f (g p) = f p) \<Longrightarrow> asum f (Players (upd_all_players g st)) = asum f (Players st)"
  by (simp add: asum_values_upd comp_def)

lemma pot_of_upd_hand: "(\<And>h. Pot (f h) = Pot h) \<Longrightarrow> pot_of (upd_hand f st) = pot_of st"
  by (simp add: pot_of_def upd_hand_def split: option.splits)

lemma chips_upd_hand: "(\<And>h. Pot (f h) = Pot h) \<Longrightarrow> chips (upd_hand f st) = chips st"
  by (simp add: chips_def pot_of_upd_hand)

lemma chips_upd_player: "(\<And>p. Stack (f p) = Stack p) \<Longrightarrow> chips (upd_player pid f st) = chips st"
  unfolding chips_def asum_upd_player by (simp add: pot_of_def split: option.splits)

lemma chips_upd_all: "(\<And>p. Stack (f p) = Stack p) \<Longrightarrow> chips (upd_all_players f st) = chips st"
  unfolding chips_def by (simp add: asum_values_upd comp_def pot_of_def)

lemma chips_with:
  "chips (with_player_and_hand pid f st) =
     (case (CurrentHand st, player st pid) of
        (Some h, Some p) \<Rightarrow> chips st + Stack (fst (f p h)) - Stack p + Pot (snd (f p h)) - Pot h
      | _ \<Rightarrow> chips st)"
  by (auto simp: with_player_and_hand_def chips_def pot_of_def player_def asum_map_entry
      split: option.splits prod.splits)

lemma chips_reset [simp]: "chips (resetStreetState st) = chips st"
  unfolding resetStreetState_def Let_def by (simp add: chips_upd_hand chips_upd_all)

lemma chips_reopen [simp]: "chips (reopen_action pid st) = chips st"
  unfolding reopen_action_def by (simp add: chips_upd_hand)

lemma chips_all_in_raise [simp]: "chips (all_in_raise pid tot st) = chips st"
  unfolding all_in_raise_def Let_def by (simp add: chips_upd_hand)

lemma Pot_done_acting [simp]: "Pot (done_acting pid h) = Pot h"
  by (simp add: done_acting_def)

lemma chips_award:
  "eq64 (chips (award_winners award share ws st)) (chips st + paid st award share ws)"
proof (induction ws arbitrary: award st)
  case (Cons pid ws)
  let ?st = "upd_player pid (\<lambda>p. p\<lparr>Stack := add64 (Stack p) award\<rparr>) st"
  have "paid ?st a share ws = paid st a share ws" for a
    by (induction ws arbitrary: a) (auto simp: player_upd_player)
  moreover have "eq64 (chips ?st) (chips st + (if player st pid = None then 0 else award))"
    unfolding chips_def asum_upd_player
    by (auto simp: pot_of_def arith64 algebra_simps split: option.splits)
  then have "eq64 (chips ?st + paid ?st share share ws)
      (chips st + (if player st pid = None then 0 else award) + paid ?st share share ws)"
    by (intro eq64_add) simp_all
  ultimately show ?case using eq64_trans [OF Cons.IH [of share ?st]] by (simp add: add.assoc)
qed simp

lemma CurrentHand_award [simp]: "CurrentHand (award_winners a s ws st) = CurrentHand st"
  by (induction ws arbitrary: a st) simp_all

lemma paid_cong: "eq64 a a' \<Longrightarrow> eq64 (paid st a s ws) (paid st a' s ws)"
  by (cases ws) (auto intro: eq64_add)

lemma paid_present:
  "\<forall>pid \<in> set ws. player st pid \<noteq> None \<Longrightarrow>
   paid st a s ws = (if ws = [] then 0 else a + (int (length ws) - 1) * s)"
proof (induction ws arbitrary: a)
  case (Cons pid ws)
  then show ?case by (cases ws) (auto simp: algebra_simps)
qed simp

lemma sdiv_smod: "a sdiv b * b + a smod b = (a :: int)"
  by (rule sdiv_mult_smod_eq)

lemma chips_eq_intro: "Players st' = Players st \<Longrightarrow> CurrentHand st' = CurrentHand st \<Longrightarrow> chips st' = chips st"
  by (simp add: chips_def pot_of_def)

lemma chips_fields [simp]:
  "chips (st\<lparr>Version := v\<rparr>) = chips st" "chips (st\<lparr>Status := s\<rparr>) = chips st"
  "chips (st\<lparr>ReservedSeats := rs\<rparr>) = chips st" "chips (st\<lparr>WaitingList := wl\<rparr>) = chips st"
  "chips (st\<lparr>DealerSeat := ds\<rparr>) = chips st" "chips (st\<lparr>Config := c\<rparr>) = chips st"
  "chips (st\<lparr>Config := c, Status := s\<rparr>) = chips st"
  by (simp_all add: chips_def pot_of_def)

lemma Stack_mark_all_in [simp]: "Stack (if b then p\<lparr>IsAllIn := True\<rparr> else p) = Stack p"
  by simp

lemma ledger_posting:
  "eq64 (chips (apply_BlindPosted pid a big dead st)) (chips st)"
  "eq64 (chips (apply_AntePosted pid a st)) (chips st)"
  "eq64 (chips (apply_StraddlePosted pid a st)) (chips st)"
  by (auto simp: apply_BlindPosted_def apply_AntePosted_def apply_StraddlePosted_def
      chips_with Let_def arith64 algebra_simps split: option.splits)

lemma ledger_call: "eq64 (chips (apply_PlayerCalled pid a st)) (chips st)"
  unfolding apply_PlayerCalled_def Let_def
  by (cases "CurrentHand st"; cases "player st pid")
    (simp_all add: chips_with arith64 algebra_simps del: if_split)

lemma ledger_bet: "eq64 (chips (apply_PlayerBet pid a st)) (chips st)"
  by (auto simp: apply_PlayerBet_def chips_with Let_def arith64 algebra_simps split: option.splits)

lemma ledger_raise: "eq64 (chips (apply_PlayerRaised pid a b st)) (chips st)"
  unfolding apply_PlayerRaised_def Let_def
  by (cases "CurrentHand st"; cases "player st pid")
    (simp_all add: chips_with arith64 algebra_simps del: if_split)

lemma ledger_all_in:
  "eq64 (chips (apply_PlayerAllIn pid a st)) (chips st + ledger st (EvPlayerAllIn pid a))"
  by (auto simp: apply_PlayerAllIn_def ledger_def chips_with chips_upd_hand Let_def arith64
      algebra_simps split: option.splits)

lemma ledger_award:
  "eq64 (chips (apply_PotAwarded a ws st)) (chips st + ledger st (EvPotAwarded a ws c d))"
proof (cases "ws = []")
  case False
  let ?n = "int (length ws)"
  let ?sh = "a sdiv ?n" and ?re = "a smod ?n"
  let ?st = "award_winners (add64 ?sh ?re) ?sh ws st"
  have "eq64 (paid st (add64 ?sh ?re) ?sh ws) (paid st (?sh + ?re) ?sh ws)"
    by (rule paid_cong) (simp add: arith64)
  then have "eq64 (chips ?st) (chips st + paid st (?sh + ?re) ?sh ws)"
    using eq64_trans [OF chips_award] eq64_add [OF eq64_refl] by blast
  moreover have "eq64 (chips (apply_PotAwarded a ws st))
      (chips ?st + (- (if CurrentHand st = None then 0 else a)))"
    using False by (auto simp: apply_PotAwarded_def Let_def chips_def pot_of_def upd_hand_def arith64
        algebra_simps split: option.splits)
  ultimately have "eq64 (chips (apply_PotAwarded a ws st))
      (chips st + paid st (?sh + ?re) ?sh ws + (- (if CurrentHand st = None then 0 else a)))"
    using eq64_trans eq64_add [OF _ eq64_refl] by blast
  with False show ?thesis by (cases "CurrentHand st") (simp_all add: ledger_def algebra_simps)
qed (simp add: apply_PotAwarded_def ledger_def)

lemma ledger_hand_started:
  "chips (apply_HandStarted hid n d sb bb s b t st) = chips st - pot_of st"
  by (auto simp: apply_HandStarted_def Let_def chips_def pot_of_def asum_values_upd comp_def
      player_def split: option.splits)

lemma ledger_hand_ended: "chips (apply_HandEnded n st) = chips st - pot_of st"
  by (simp add: apply_HandEnded_def Let_def chips_def pot_of_def split: option.splits)

lemma ledger_joined:
  "distinct (keys (Players st)) \<Longrightarrow>
   chips (apply_PlayerJoined pid uid seat buyIn st) = chips st + (buyIn - stack_of st pid)"
  by (simp add: apply_PlayerJoined_def chips_def pot_of_def asum_update stack_of_def player_def
      split: option.splits)

lemma ledger_left:
  "distinct (keys (Players st)) \<Longrightarrow> chips (apply_PlayerLeft pid st) = chips st - stack_of st pid"
  by (simp add: apply_PlayerLeft_def chips_def pot_of_def asum_delete_stack)

lemma ledger_stack_set:
  "chips (upd_player pid (\<lambda>p. p\<lparr>Stack := n\<rparr>) st) =
     chips st + (if player st pid = None then 0 else n - stack_of st pid)"
  unfolding chips_def asum_upd_player by (auto simp: pot_of_def stack_of_def split: option.splits)

lemma ledger_buy_in:
  "eq64 (chips (upd_player pid (\<lambda>p. p\<lparr>Stack := add64 (Stack p) a\<rparr>) st))
     (chips st + (if player st pid = None then 0 else a))"
  unfolding chips_def asum_upd_player
  by (auto simp: pot_of_def arith64 algebra_simps split: option.splits)

lemma ledger_rake:
  "eq64 (chips (apply_RakeTaken a st)) (chips st + (if CurrentHand st = None then 0 else - a))"
  by (auto simp: apply_RakeTaken_def chips_def pot_of_def upd_hand_def arith64 algebra_simps
      split: option.splits)

lemma ledger_neutral [simp]:
  "chips (apply_TableCreated cfg st) = chips st"
  "chips (apply_TableResumed st) = chips st"
  "chips (apply_PlayerSatOut pid st) = chips st"
  "chips (apply_PlayerSatIn pid st) = chips st"
  "chips (apply_PlayerDisconnected pid t st) = chips st"
  "chips (apply_PlayerReconnected pid st) = chips st"
  "chips (apply_ShownCards pid c1 c2 st) = chips st"
  "chips (apply_FlopDealt c1 c2 c3 st) = chips st"
  "chips (apply_TurnDealt c1 st) = chips st"
  "chips (apply_RiverDealt c1 st) = chips st"
  "chips (apply_SecondBoardDealt c1 c2 st) = chips st"
  "chips (apply_PlayerFolded pid st) = chips st"
  "chips (apply_PlayerChecked pid st) = chips st"
  "chips (apply_PlayerMuckedCards pid st) = chips st"
  "chips (apply_ActionStarted pid t st) = chips st"
  "chips (apply_BettingRoundEnded st) = chips st"
  "chips (apply_SidePotCreated a el st) = chips st"
  "chips (apply_Showdown st) = chips st"
  by (simp_all add: apply_TableCreated_def apply_TableResumed_def apply_PlayerSatOut_def
      apply_PlayerSatIn_def apply_PlayerDisconnected_def apply_PlayerReconnected_def
      apply_ShownCards_def apply_FlopDealt_def apply_TurnDealt_def apply_RiverDealt_def
      apply_SecondBoardDealt_def apply_PlayerFolded_def apply_PlayerChecked_def
      apply_PlayerMuckedCards_def apply_ActionStarted_def apply_BettingRoundEnded_def
      apply_SidePotCreated_def apply_Showdown_def Let_def chips_upd_hand chips_upd_player
      chips_upd_all)

lemma apply_payload_ledger:
  assumes "distinct (keys (Players st))"
  shows "eq64 (chips (apply_payload e t st)) (chips st + ledger st e)"
proof (cases e)
  case (EvPlayerAllIn pid a)
  then show ?thesis using ledger_all_in by simp
next
  case (EvPotAwarded a ws c d)
  then show ?thesis using ledger_award by simp
next
  case (EvBuyInCompleted pid a)
  then show ?thesis using ledger_buy_in [of pid a st] by (simp add: ledger_def)
next
  case (EvRakeTaken a)
  then show ?thesis using ledger_rake [of a st] by (simp add: ledger_def)
qed (use assms ledger_posting ledger_call ledger_bet ledger_raise in
    \<open>simp_all add: ledger_def ledger_hand_started ledger_hand_ended ledger_joined ledger_left
       ledger_stack_set chips_upd_player\<close>)

lemma ledger_Version [simp]: "ledger (st\<lparr>Version := v\<rparr>) e = ledger st e"
proof -
  have "paid (st\<lparr>Version := v\<rparr>) a s ws = paid st a s ws" for a s ws
    by (induction ws arbitrary: a) (simp_all add: player_def)
  then show ?thesis
    by (cases e) (auto simp: ledger_def stack_of_def player_def pot_of_def)
qed

text \<open>C32. No event creates or destroys chips except as the ledger says: buying in, leaving,
  topping up and the rake are the only events that change what is on the table, apart from
  \<open>HandStarted\<close> and \<open>HandEnded\<close>, which drop what is still in the pot. All betting, dealing and
  seat events move chips between stacks and pot only. It holds for every event in every
  state, up to the wrap-around of \<open>int64\<close>.\<close>

theorem Apply_ledger:
  assumes "distinct (keys (Players st))" and "evt_Event evt = Some e"
  shows "eq64 (chips (Apply st evt)) (chips st + ledger st e)"
proof -
  let ?v = "if evt_StateVersion evt > 0 then evt_StateVersion evt else add64 (Version st) 1"
  have "Apply st evt = apply_payload e (evt_OccurredAt evt) (st\<lparr>Version := ?v\<rparr>)"
    using assms(2) by (simp add: Apply_def)
  with apply_payload_ledger [of "st\<lparr>Version := ?v\<rparr>" e "evt_OccurredAt evt"] assms(1)
  show ?thesis by simp
qed

definition ledger_state :: GameState where
  "ledger_state =
     \<lparr>GameId = ''g'', Status = GAME_STATUS_ACTIVE, Version = 7, Config = None, DealerSeat = 1,
      HandNumber = 3,
      CurrentHand = Some
        \<lparr>HandId = ''h'', DealerPlayerId = ''a'', SmallBlindPlayerId = ''b'', BigBlindPlayerId = ''c'',
         Pot = 101, RakeTaken = 0, Phase = HAND_PHASE_RIVER, CurrentHighestBet = 0,
         LastRaiseAmount = 0, MinRaiseAmount = 10, RaisesThisStreet = 0, ActingPlayerId = None,
         ActionDeadline = None, FlopCard_1 = None, FlopCard_2 = None, FlopCard_3 = None,
         TurnCard = None, RiverCard = None, SecondBoard = [], SidePots = [], PendingActions = [],
         ActionOrder = [''b'', ''c'', ''a''], StartedAt = None, LastFullRaiseTo = 0,
         ActionClosedFor = []\<rparr>,
      Players =
        [(''a'', empty_PlayerState\<lparr>PlayerId := ''a'', Seat := 1, Stack := 500\<rparr>),
         (''b'', empty_PlayerState\<lparr>PlayerId := ''b'', Seat := 2, Stack := 300\<rparr>),
         (''c'', empty_PlayerState\<lparr>PlayerId := ''c'', Seat := 3, Stack := 200\<rparr>)],
      PlayerUserIds = [], ReservedSeats = [], WaitingList = []\<rparr>"

lemma Apply_ledger_witness:
  "eq64 (chips (Apply ledger_state (mk_event (EvPlayerCalled ''b'' 40)))) 1101
   \<and> eq64 (chips (Apply ledger_state (mk_event (EvRakeTaken 5)))) 1096"
proof -
  have d: "distinct (keys (Players ledger_state))"
    and "chips ledger_state + ledger ledger_state (EvPlayerCalled ''b'' 40) = 1101"
    and "chips ledger_state + ledger ledger_state (EvRakeTaken 5) = 1096"
    by code_simp+
  with Apply_ledger [OF d, of "mk_event (EvPlayerCalled ''b'' 40)"]
    Apply_ledger [OF d, of "mk_event (EvRakeTaken 5)"]
  show ?thesis by simp
qed

section \<open>Splitting a pot\<close>

lemma stack_upd_player:
  "stack_of (upd_player pid f st) q =
     (if q = pid then (case player st pid of None \<Rightarrow> 0 | Some p \<Rightarrow> Stack (f p)) else stack_of st q)"
  by (auto simp: stack_of_def player_upd_player split: option.splits)

lemma player_upd_None [simp]: "player (upd_player pid f st) q = None \<longleftrightarrow> player st q = None"
  by (simp add: player_upd_player)

lemma award_stack_absent: "q \<notin> set ws \<Longrightarrow> stack_of (award_winners a s ws st) q = stack_of st q"
  by (induction ws arbitrary: a st) (simp_all add: stack_upd_player)

lemma award_stack:
  assumes "distinct ws" and "i < length ws" and "player st (ws ! i) \<noteq> None"
  shows "stack_of (award_winners a s ws st) (ws ! i)
    = add64 (stack_of st (ws ! i)) (if i = 0 then a else s)"
  using assms
proof (induction ws arbitrary: a st i)
  case (Cons pid ws)
  let ?st = "upd_player pid (\<lambda>p. p\<lparr>Stack := add64 (Stack p) a\<rparr>) st"
  show ?case
  proof (cases i)
    case 0
    then show ?thesis using Cons.prems
      by (auto simp: award_stack_absent stack_upd_player) (auto simp: stack_of_def)
  next
    case (Suc j)
    then have "ws ! j \<noteq> pid" using Cons.prems by auto
    then show ?thesis using Cons.IH [of j ?st s] Cons.prems Suc by (simp add: stack_upd_player)
  qed
qed simp

lemma stack_of_upd_hand [simp]: "stack_of (upd_hand f st) pid = stack_of st pid"
  by (simp add: stack_of_def)

lemma pot_split_stack:
  assumes "distinct ws" and "i < length ws" and "0 \<le> a" and "player st (ws ! i) \<noteq> None"
    and "0 \<le> stack_of st (ws ! i)" and "in64 (stack_of st (ws ! i) + a)"
  shows "stack_of (apply_PotAwarded a ws st) (ws ! i) = stack_of st (ws ! i)
      + a div int (length ws) + (if i = 0 then a mod int (length ws) else 0)"
proof -
  let ?n = "int (length ws)" and ?s = "stack_of st (ws ! i)"
  have n: "0 < ?n" using assms(2) by linarith
  note dm = sdiv_nonneg [OF assms(3) n] smod_nonneg [OF assms(3) n]
  have sh: "0 \<le> a div ?n" "0 \<le> a mod ?n"
    using assms(3) n by (simp_all add: pos_imp_zdiv_nonneg_iff)
  have "a div ?n * 1 \<le> a div ?n * ?n" using n sh(1) by (intro mult_left_mono) linarith+
  then have le: "a div ?n + a mod ?n \<le> a" using div_mult_mod_eq [of a ?n] by linarith
  have fit: "in64 (?s + x)" if "0 \<le> x" "x \<le> a" for x
    using assms(5,6) that by (auto simp: in64_def)
  have "in64 (a div ?n + a mod ?n)"
    using fit [of "a div ?n + a mod ?n"] sh le assms(5,6) by (auto simp: in64_def)
  then have share: "add64 (a sdiv ?n) (a smod ?n) = a div ?n + a mod ?n"
    unfolding dm by (rule add64_exact)
  have "stack_of (apply_PotAwarded a ws st) (ws ! i)
      = add64 ?s (if i = 0 then add64 (a sdiv ?n) (a smod ?n) else a sdiv ?n)"
    using award_stack [OF assms(1,2,4)] assms(2) by (auto simp: apply_PotAwarded_def Let_def)
  also have "\<dots> = ?s + (if i = 0 then a div ?n + a mod ?n else a div ?n)"
    unfolding dm share [unfolded dm] using sh le fit by (cases "i = 0") (simp_all add: add64_exact)
  finally show ?thesis by simp
qed

text \<open>A pot is split evenly: with \<open>n\<close> distinct seated winners each stack grows by the pot
  divided by \<open>n\<close>, the first winner gets the odd chips too, other stacks stay as they are, and
  the pot of the hand shrinks by exactly what was paid out.\<close>

theorem pot_split:
  assumes "distinct ws" and "ws \<noteq> []" and "0 \<le> a" and "CurrentHand st = Some h"
    and "\<forall>pid \<in> set ws. player st pid \<noteq> None \<and> 0 \<le> stack_of st pid \<and> in64 (stack_of st pid + a)"
    and "a \<le> Pot h" and "in64 (Pot h)"
  shows "(\<forall>i < length ws. stack_of (apply_PotAwarded a ws st) (ws ! i) = stack_of st (ws ! i)
        + a div int (length ws) + (if i = 0 then a mod int (length ws) else 0))
    \<and> (\<forall>pid. pid \<notin> set ws \<longrightarrow> stack_of (apply_PotAwarded a ws st) pid = stack_of st pid)
    \<and> pot_of (apply_PotAwarded a ws st) = Pot h - a"
proof -
  have "sub64 (Pot h) a = Pot h - a"
    using assms(3,6,7) by (intro sub64_exact) (auto simp: in64_def)
  then have "pot_of (apply_PotAwarded a ws st) = Pot h - a"
    using assms(2,4) by (simp add: apply_PotAwarded_def Let_def pot_of_def)
  moreover have "stack_of (apply_PotAwarded a ws st) pid = stack_of st pid" if "pid \<notin> set ws" for pid
    using that assms(2) by (simp add: apply_PotAwarded_def Let_def award_stack_absent)
  moreover have "stack_of (apply_PotAwarded a ws st) (ws ! i) = stack_of st (ws ! i)
      + a div int (length ws) + (if i = 0 then a mod int (length ws) else 0)" if "i < length ws" for i
    using assms(1,3,5) nth_mem [OF that] by (intro pot_split_stack [OF _ that]) blast+
  ultimately show ?thesis by blast
qed

lemma pot_split_witness:
  "stack_of (apply_PotAwarded 101 [''b'', ''c''] ledger_state) ''b'' = 351
   \<and> stack_of (apply_PotAwarded 101 [''b'', ''c''] ledger_state) ''c'' = 250"
proof -
  have "\<forall>pid \<in> set [''b'', ''c'']. player ledger_state pid \<noteq> None
      \<and> 0 \<le> stack_of ledger_state pid \<and> in64 (stack_of ledger_state pid + 101)"
    and "stack_of ledger_state ''b'' = 300" "stack_of ledger_state ''c'' = 200"
    and "in64 101"
    by code_simp+
  with pot_split [of "[''b'', ''c'']" 101 ledger_state "the (CurrentHand ledger_state)"]
  show ?thesis by (simp add: ledger_state_def All_less_Suc2 nth_Cons')
qed

end
