(* ===== verification/Betting.thy ===== *)
theory Betting
  imports Handler Ledger
begin

text \<open>
  What a player's command may do. The first part characterises the commands that the
  validators let through by the rules of the game; the second shows that an accepted command
  keeps the books of the hand; the third states who has to act after it.
\<close>

section \<open>The rules\<close>

text \<open>The actor may act: the table is in play, a hand runs, it is the actor's turn and the actor
  still decides something.\<close>

definition can_act :: "GameState \<Rightarrow> string \<Rightarrow> HandState \<Rightarrow> PlayerState \<Rightarrow> bool" where
  "can_act st actor h p \<longleftrightarrow>
     Status st \<in> {GAME_STATUS_ACTIVE, GAME_STATUS_PAUSED}
     \<and> CurrentHand st = Some h \<and> Phase h \<notin> {HAND_PHASE_HAND_OVER, HAND_PHASE_UNSPECIFIED}
     \<and> player st actor = Some p \<and> \<not> IsSittingOut p \<and> \<not> IsFolded p \<and> \<not> IsAllIn p
     \<and> ActingPlayerId h = Some actor \<and> actor \<noteq> []"

lemma can_act_sel:
  "can_act st actor h p \<Longrightarrow> CurrentHand st = Some h"
  "can_act st actor h p \<Longrightarrow> player st actor = Some p"
  by (simp_all add: can_act_def)

lemma requireActiveGame_None:
  "requireActiveGame st = None \<longleftrightarrow> Status st \<in> {GAME_STATUS_ACTIVE, GAME_STATUS_PAUSED}"
  by (cases "Status st") (simp_all add: requireActiveGame_def)

lemma requireHandInProgress_None:
  "requireHandInProgress st = None \<longleftrightarrow>
     (\<exists>h. CurrentHand st = Some h \<and> Phase h \<notin> {HAND_PHASE_HAND_OVER, HAND_PHASE_UNSPECIFIED})"
  by (auto simp: requireHandInProgress_def split: option.splits)

lemma with_seated_None:
  "with_seated st actor k = None \<longleftrightarrow> (\<exists>p. player st actor = Some p \<and> k p = None)"
  by (simp add: with_seated_def requireSeated_def split: option.splits)

lemma requireCanAct_None:
  "requireCanAct p = None \<longleftrightarrow> \<not> IsSittingOut p \<and> \<not> IsFolded p \<and> \<not> IsAllIn p"
  by (simp add: requireCanAct_def)

lemma requireActorsTurn_None:
  "requireActorsTurn st actor = None \<longleftrightarrow>
     ActingPlayerId (the (CurrentHand st)) = Some actor \<and> actor \<noteq> []"
  by (auto simp: requireActorsTurn_def split: option.splits)

lemmas require_None = requireActiveGame_None requireHandInProgress_None with_seated_None
  requireCanAct_None requireActorsTurn_None

lemma gate_None:
  "reject_or (requireActiveGame st) (reject_or (requireHandInProgress st)
     (with_seated st actor (\<lambda>p. reject_or (requireCanAct p)
        (reject_or (requireActorsTurn st actor) (k p))))) = None \<longleftrightarrow>
   (\<exists>h p. can_act st actor h p \<and> k p = None)"
  unfolding reject_or_None require_None can_act_def by auto

lemma fold_None: "validateFold st actor = None \<longleftrightarrow> (\<exists>h p. can_act st actor h p)"
  using gate_None [of st actor "\<lambda>_. None"] unfolding validateFold_def
  by (simp add: require_None can_act_def)

lemma if_Some_None [simp]:
  "(if b then Some x else r) = None \<longleftrightarrow> \<not> b \<and> r = None"
  by simp

lemma ex_hand_of_cong:
  "(\<exists>h p. can_act st actor h p \<and> k (the (CurrentHand st)) p) \<longleftrightarrow> (\<exists>h p. can_act st actor h p \<and> k h p)"
  by (metis can_act_sel(1) option.sel)

text \<open>The amounts of a hand that has not overflowed.\<close>

definition amounts_ok :: "GameState \<Rightarrow> HandState \<Rightarrow> PlayerState \<Rightarrow> bool" where
  "amounts_ok st h p \<longleftrightarrow>
     0 \<le> Stack p \<and> 0 \<le> CurrentBet p \<and> 0 \<le> CurrentHighestBet h \<and> 0 \<le> LastRaiseAmount h
     \<and> Stack p < 2 ^ 61 \<and> CurrentBet p < 2 ^ 61 \<and> CurrentHighestBet h < 2 ^ 61
     \<and> LastRaiseAmount h < 2 ^ 61
     \<and> 0 \<le> get_cfg BigBlind 0 (Config st) \<and> get_cfg BigBlind 0 (Config st) < 2 ^ 61"

text \<open>What the rules of no-limit let a player do whose turn it is. Amounts of a call may be left out (0);
  a bet or raise below the minimum is an all-in. A player whose last chips went into a blind, an ante
  or a bet is not marked as all-in and gets a turn: there is nothing to call with, so the player checks,
  whatever the bet is.\<close>

definition fixed_limit_cap :: "GameState \<Rightarrow> HandState \<Rightarrow> bool" where
  \<comment> \<open>the number of raises of a fixed-limit street is used up\<close>
  "fixed_limit_cap st h \<longleftrightarrow>
     (\<exists>c. Config st = Some c \<and> Structure c = BETTING_STRUCTURE_FIXED_LIMIT
        \<and> \<not> (UncapHeadsUp c \<and> playersInHand st = 2)
        \<and> 0 < MaxRaisesPerStreet c \<and> MaxRaisesPerStreet c \<le> RaisesThisStreet h)"

primrec legal :: "GameState \<Rightarrow> HandState \<Rightarrow> PlayerState \<Rightarrow> string \<Rightarrow> CommandPayload \<Rightarrow> bool" where
  "legal st h p actor CmdFold \<longleftrightarrow> True"
| "legal st h p actor CmdCheck \<longleftrightarrow> CurrentHighestBet h \<le> CurrentBet p \<or> Stack p = 0"
| "legal st h p actor (CmdCall a) \<longleftrightarrow>
     CurrentBet p < CurrentHighestBet h \<and> 0 < Stack p
     \<and> (a \<le> 0 \<or> a = min (CurrentHighestBet h - CurrentBet p) (Stack p))"
| "legal st h p actor (CmdBet a) \<longleftrightarrow>
     CurrentHighestBet h = 0 \<and> 0 < a \<and> a \<le> Stack p
     \<and> (get_cfg BigBlind 0 (Config st) \<le> a \<or> a = Stack p)"
| "legal st h p actor (CmdRaise to) \<longleftrightarrow>
     CurrentHighestBet h \<noteq> 0 \<and> actor \<notin> set (ActionClosedFor h)
     \<and> CurrentHighestBet h < to \<and> to - CurrentBet p \<le> Stack p
     \<and> (CurrentHighestBet h + max (LastRaiseAmount h) (get_cfg BigBlind 0 (Config st)) \<le> to
        \<or> to - CurrentBet p = Stack p)"
| "legal st h p actor CmdAllIn \<longleftrightarrow> 0 < Stack p"
| "legal st h p actor CmdSitOut \<longleftrightarrow> False"
| "legal st h p actor CmdSitIn \<longleftrightarrow> False"
| "legal st h p actor CmdShowCards \<longleftrightarrow> False"
| "legal st h p actor CmdMuckCards \<longleftrightarrow> False"
| "legal st h p actor CmdUseTimeBank \<longleftrightarrow> False"
| "legal st h p actor (CmdChatMessage txt) \<longleftrightarrow> False"
| "legal st h p actor (CmdEmote e) \<longleftrightarrow> False"
| "legal st h p actor (CmdRunItTwice b) \<longleftrightarrow> False"
| "legal st h p actor (CmdResume n) \<longleftrightarrow> False"

definition is_betting :: "CommandPayload \<Rightarrow> bool" where
  "is_betting c \<longleftrightarrow> (case c of CmdFold \<Rightarrow> True | CmdCheck \<Rightarrow> True | CmdCall a \<Rightarrow> True | CmdBet a \<Rightarrow> True
     | CmdRaise to \<Rightarrow> in64 to | CmdAllIn \<Rightarrow> True | _ \<Rightarrow> False)"

lemma callAmount_value:
  "amounts_ok st h p \<Longrightarrow> callAmount h p =
     (if CurrentHighestBet h \<le> CurrentBet p then 0
      else min (CurrentHighestBet h - CurrentBet p) (Stack p))"
  by (auto simp: callAmount_def Let_def amounts_ok_def in64_def i64_simps)

lemma raise_cap_None: "raise_cap_reached st h = None \<longleftrightarrow> \<not> fixed_limit_cap st h"
  by (auto simp: raise_cap_reached_def fixed_limit_cap_def Let_def split: option.splits)

lemma minRaiseTo_value:
  "amounts_ok st h p \<Longrightarrow> minRaiseTo st h =
     CurrentHighestBet h + max (LastRaiseAmount h) (get_cfg BigBlind 0 (Config st))"
  by (auto simp: minRaiseTo_def amounts_ok_def get_cfg_def in64_def i64_simps split: option.splits)

lemma check_None: "validateCheck st actor = None \<longleftrightarrow>
    (\<exists>h p. can_act st actor h p \<and> callAmount h p \<le> 0)"
  unfolding validateCheck_def Let_def gate_None
  using ex_hand_of_cong [of st actor "\<lambda>h p. callAmount h p \<le> 0"] by (simp add: not_less)

lemma call_None: "validateCall st a actor = None \<longleftrightarrow>
    (\<exists>h p. can_act st actor h p \<and> callAmount h p \<noteq> 0 \<and> (a \<le> 0 \<or> a = callAmount h p))"
  unfolding validateCall_def Let_def gate_None
  using ex_hand_of_cong [of st actor "\<lambda>h p. callAmount h p \<noteq> 0 \<and> (a \<le> 0 \<or> a = callAmount h p)"]
  by (simp add: not_less)

lemma bet_None: "validateBet st a actor = None \<longleftrightarrow>
    (\<exists>h p. can_act st actor h p \<and> CurrentHighestBet h \<le> 0 \<and> 0 < a
       \<and> (get_cfg BigBlind 0 (Config st) \<le> a \<or> a = Stack p) \<and> a \<le> Stack p)"
  unfolding validateBet_def Let_def gate_None
  using ex_hand_of_cong [of st actor "\<lambda>h p. CurrentHighestBet h \<le> 0 \<and> 0 < a
       \<and> (get_cfg BigBlind 0 (Config st) \<le> a \<or> a = Stack p) \<and> a \<le> Stack p"]
  by (simp add: not_less not_le)

lemma raise_None: "validateRaise st to actor = None \<longleftrightarrow>
    (\<exists>h p. can_act st actor h p \<and> CurrentHighestBet h \<noteq> 0 \<and> actor \<notin> set (ActionClosedFor h)
       \<and> CurrentHighestBet h < to \<and> sub64 to (CurrentBet p) \<le> Stack p
       \<and> (minRaiseTo st h \<le> to \<or> sub64 to (CurrentBet p) = Stack p) \<and> \<not> fixed_limit_cap st h)"
  unfolding validateRaise_def Let_def gate_None
  using ex_hand_of_cong [of st actor "\<lambda>h p. CurrentHighestBet h \<noteq> 0 \<and> actor \<notin> set (ActionClosedFor h)
       \<and> CurrentHighestBet h < to \<and> sub64 to (CurrentBet p) \<le> Stack p
       \<and> (minRaiseTo st h \<le> to \<or> sub64 to (CurrentBet p) = Stack p) \<and> \<not> fixed_limit_cap st h"]
  by (simp add: not_less not_le raise_cap_None)

lemma all_in_None: "validateAllIn st actor = None \<longleftrightarrow> (\<exists>h p. can_act st actor h p \<and> 0 < Stack p)"
  unfolding validateAllIn_def gate_None by (simp add: not_le)

lemmas betting_None = fold_None check_None call_None bet_None raise_None all_in_None

lemma ex_can_act_cong:
  assumes "CurrentHand st = Some h" and "player st actor = Some p"
  shows "(\<exists>h p. can_act st actor h p \<and> Q h p) \<longleftrightarrow> can_act st actor h p \<and> Q h p"
  using assms by (metis can_act_sel option.inject)

definition raise_capped :: "GameState \<Rightarrow> HandState \<Rightarrow> CommandPayload \<Rightarrow> bool" where
  "raise_capped st h c \<longleftrightarrow> (case c of CmdRaise to \<Rightarrow> fixed_limit_cap st h | _ \<Rightarrow> False)"

lemma validate_betting:
  assumes "is_betting c" and "CurrentHand st = Some h" and "player st actor = Some p"
    and "amounts_ok st h p"
  shows "validate_payload st c actor = None \<longleftrightarrow> can_act st actor h p \<and> legal st h p actor c \<and> \<not> raise_capped st h c"
proof -
  note ex = ex_can_act_cong [OF assms(2,3)]
  note val = callAmount_value [OF assms(4)] minRaiseTo_value [OF assms(4)]
  have nn: "0 \<le> CurrentHighestBet h" "0 \<le> Stack p" using assms(4) by (simp_all add: amounts_ok_def)
  have sub: "sub64 to (CurrentBet p) = to - CurrentBet p"
    if "CurrentHighestBet h < to" "in64 to" for to
    using that assms(4) by (intro sub64_exact) (auto simp: amounts_ok_def in64_def)
  show ?thesis
  proof (cases c)
    case CmdFold
    then show ?thesis using ex [of "\<lambda>_ _. True"] by (simp add: fold_None raise_capped_def)
  next
    case CmdCheck
    then show ?thesis using nn by (auto simp: check_None ex val raise_capped_def)
  next
    case (CmdCall a)
    then show ?thesis using nn by (auto simp: call_None ex val raise_capped_def)
  next
    case (CmdBet a)
    then show ?thesis using nn by (auto simp: bet_None ex raise_capped_def)
  next
    case (CmdRaise to)
    then show ?thesis using assms(1) sub [of to] by (auto simp: raise_None ex val is_betting_def raise_capped_def)
  next
    case CmdAllIn
    then show ?thesis by (simp add: all_in_None ex raise_capped_def)
  qed (use assms(1) in \<open>simp_all add: is_betting_def\<close>)
qed

lemma betting_turn':
  assumes "is_betting c" and "validate_payload st c actor = None"
  shows "\<exists>h p. can_act st actor h p"
  using assms by (cases c) (auto simp: is_betting_def betting_None)

section \<open>The books of a hand\<close>

text \<open>No stack is negative; during a hand the pot is what the players committed, nobody's bet on
  this street exceeds what they committed to the hand, and all chips of the table together
  stay far below the range of \<open>int64\<close>.\<close>

definition hand_books :: "GameState \<Rightarrow> HandState \<Rightarrow> bool" where
  "hand_books st h \<longleftrightarrow>
     Pot h = committed_sum st
     \<and> (\<forall>(i, p) \<in> set (Players st). 0 \<le> CurrentBet p \<and> CurrentBet p \<le> TotalCommittedThisHand p)
     \<and> 0 \<le> CurrentHighestBet h \<and> CurrentHighestBet h < 2 ^ 61
     \<and> 0 \<le> LastRaiseAmount h \<and> LastRaiseAmount h < 2 ^ 61"

definition books_ok :: "GameState \<Rightarrow> bool" where
  "books_ok st \<longleftrightarrow>
     distinct (keys (Players st)) \<and> (\<forall>(i, p) \<in> set (Players st). 0 \<le> Stack p)
     \<and> chips st < 2 ^ 61 \<and> (\<forall>h. CurrentHand st = Some h \<longrightarrow> hand_books st h)"

definition blind_ok :: "GameState \<Rightarrow> bool" where
  "blind_ok st \<longleftrightarrow> 0 \<le> get_cfg BigBlind 0 (Config st) \<and> get_cfg BigBlind 0 (Config st) < 2 ^ 61"

lemma books_player:
  assumes "books_ok st" and "player st pid = Some p"
  shows "0 \<le> Stack p"
    and "CurrentHand st = Some h \<Longrightarrow> 0 \<le> CurrentBet p \<and> CurrentBet p \<le> TotalCommittedThisHand p"
  using assms by (auto simp: books_ok_def hand_books_def player_def dest!: map_of_SomeD)

lemma committed_nonneg: "hand_books st h \<Longrightarrow> (i, p) \<in> set (Players st) \<Longrightarrow> 0 \<le> TotalCommittedThisHand p"
  by (fastforce simp: hand_books_def)

lemma books_player_sum:
  assumes "books_ok st" and "CurrentHand st = Some h" and "player st pid = Some p"
  shows "Stack p + TotalCommittedThisHand p \<le> chips st" and "0 \<le> Pot h" and "Pot h \<le> chips st"
    and "Stack p \<le> asum Stack (Players st)"
proof -
  have hb: "hand_books st h" using assms by (simp add: books_ok_def)
  have "TotalCommittedThisHand p \<le> committed_sum st"
    unfolding committed_sum_def using committed_nonneg [OF hb] assms(3)
    by (intro asum_member_le) (auto simp: player_def)
  moreover show "Stack p \<le> asum Stack (Players st)"
    using assms(1,3) by (intro asum_member_le) (auto simp: books_ok_def player_def)
  moreover have "Pot h = committed_sum st" using hb by (simp add: hand_books_def)
  moreover have "0 \<le> asum Stack (Players st)"
    using assms(1) by (intro asum_nonneg) (auto simp: books_ok_def)
  moreover have "0 \<le> committed_sum st"
    unfolding committed_sum_def using committed_nonneg [OF hb] by (intro asum_nonneg) auto
  ultimately show "Stack p + TotalCommittedThisHand p \<le> chips st" "0 \<le> Pot h" "Pot h \<le> chips st"
    using assms(2) by (auto simp: chips_def pot_of_def)
qed

lemma books_amounts:
  assumes "books_ok st" and "blind_ok st" and "CurrentHand st = Some h" and "player st pid = Some p"
  shows "amounts_ok st h p"
  using books_player [OF assms(1,4)] books_player_sum [OF assms(1,3,4)] assms
  by (auto simp: amounts_ok_def books_ok_def hand_books_def blind_ok_def)

subsection \<open>Moving chips from a stack to the pot\<close>

lemma players_map_entry:
  assumes "distinct (keys m)" and "(i, p) \<in> set (AList.map_entry k f m)"
  shows "\<exists>q. (i, q) \<in> set m \<and> p = (if i = k then f q else q)"
proof -
  have "distinct (keys (AList.map_entry k f m))" using assms(1) by simp
  then have "map_of (AList.map_entry k f m) i = Some p"
    using assms(2) by (simp add: keys_def)
  then show ?thesis
    by (auto simp: map_of_map_entry dest!: map_of_SomeD split: if_splits)
qed

lemma books_move:
  assumes "books_ok st" and "CurrentHand st = Some h" and "player st pid = Some p"
    and "0 \<le> x" and "x \<le> Stack p"
    and "Stack p' = Stack p - x" and "TotalCommittedThisHand p' = TotalCommittedThisHand p + x"
    and "0 \<le> CurrentBet p'" and "CurrentBet p' \<le> CurrentBet p + x" and "Pot h' = Pot h + x"
    and "0 \<le> CurrentHighestBet h'" and "CurrentHighestBet h' < 2 ^ 61"
    and "0 \<le> LastRaiseAmount h'" and "LastRaiseAmount h' < 2 ^ 61"
  shows "books_ok (upd_player pid (\<lambda>_. p') (st\<lparr>CurrentHand := Some h'\<rparr>))" (is "books_ok ?st")
    and "chips (upd_player pid (\<lambda>_. p') (st\<lparr>CurrentHand := Some h'\<rparr>)) = chips st"
proof -
  have hb: "hand_books st h" using assms(1,2) by (simp add: books_ok_def)
  have pl: "Players ?st = AList.map_entry pid (\<lambda>_. p') (Players st)" by simp
  have mp: "map_of (Players st) pid = Some p" using assms(3) by (simp add: player_def)
  have d: "distinct (keys (Players st))" using assms(1) by (simp add: books_ok_def)
  show c: "chips ?st = chips st"
    using assms(2,6,10) by (simp add: chips_def pot_of_def asum_map_entry [OF mp])
  have "committed_sum ?st = committed_sum st + x"
    using assms(7) by (simp add: committed_sum_def asum_map_entry [OF mp])
  moreover have "0 \<le> Stack q \<and> 0 \<le> CurrentBet q \<and> CurrentBet q \<le> TotalCommittedThisHand q"
    if q: "(i, q) \<in> set (Players ?st)" for i q
  proof -
    obtain r where r: "(i, r) \<in> set (Players st)" "q = (if i = pid then p' else r)"
      using players_map_entry [OF d q [unfolded pl]] by blast
    have "0 \<le> Stack r" "0 \<le> CurrentBet r" "CurrentBet r \<le> TotalCommittedThisHand r"
      using r(1) assms(1) hb by (auto simp: books_ok_def hand_books_def)
    moreover have "i = pid \<Longrightarrow> r = p" using r(1) mp d by (simp add: keys_def)
    ultimately show ?thesis using r(2) assms(4-9) by (cases "i = pid") auto
  qed
  ultimately show "books_ok ?st"
    using assms(1,10-14) c hb d by (auto simp: books_ok_def hand_books_def)
qed

lemma books_cong:
  assumes "books_ok st" and "Players st' = Players st" and "CurrentHand st' = CurrentHand st"
  shows "books_ok st'"
  using assms by (simp add: books_ok_def hand_books_def chips_def pot_of_def committed_sum_def)

lemma books_upd_hand:
  assumes "books_ok st" and "\<And>h. Pot (f h) = Pot h"
    and "\<And>h. CurrentHand st = Some h \<Longrightarrow> 0 \<le> CurrentHighestBet h \<Longrightarrow> CurrentHighestBet h < 2 ^ 61 \<Longrightarrow>
      0 \<le> LastRaiseAmount h \<Longrightarrow> LastRaiseAmount h < 2 ^ 61 \<Longrightarrow>
      0 \<le> CurrentHighestBet (f h) \<and> CurrentHighestBet (f h) < 2 ^ 61
      \<and> 0 \<le> LastRaiseAmount (f h) \<and> LastRaiseAmount (f h) < 2 ^ 61"
  shows "books_ok (upd_hand f st)"
  using assms by (cases "CurrentHand st")
    (auto simp: books_ok_def hand_books_def chips_upd_hand committed_sum_def)

lemma books_upd_player:
  assumes "books_ok st"
    and "\<And>p. Stack (f p) = Stack p \<and> TotalCommittedThisHand (f p) = TotalCommittedThisHand p"
    and "\<And>p. CurrentBet (f p) = CurrentBet p \<or> CurrentBet (f p) = 0"
  shows "books_ok (upd_player pid f st)"
proof -
  have d: "distinct (keys (Players st))" using assms(1) by (simp add: books_ok_def)
  have "committed_sum (upd_player pid f st) = committed_sum st"
    using assms(2) by (simp add: committed_sum_def asum_map_entry_same)
  moreover have "chips (upd_player pid f st) = chips st" using assms(2) by (simp add: chips_upd_player)
  moreover have "0 \<le> Stack q \<and> (\<forall>h. CurrentHand st = Some h \<longrightarrow> 0 \<le> CurrentBet q
      \<and> CurrentBet q \<le> TotalCommittedThisHand q)"
    if q: "(i, q) \<in> set (Players (upd_player pid f st))" for i q
  proof -
    obtain r where r: "(i, r) \<in> set (Players st)" "q = (if i = pid then f r else r)"
      using players_map_entry [OF d] q by (metis upd_sel(6))
    then show ?thesis using assms(1) assms(2,3) [of r]
      by (fastforce simp: books_ok_def hand_books_def)
  qed
  ultimately show ?thesis using assms(1) by (auto simp: books_ok_def hand_books_def)
qed

lemma books_exact:
  assumes "books_ok st" and "CurrentHand st = Some h" and "player st pid = Some p"
    and "0 \<le> x" and "x \<le> Stack p"
  shows "sub64 (Stack p) x = Stack p - x" "add64 (Pot h) x = Pot h + x"
    and "add64 (CurrentBet p) x = CurrentBet p + x"
    and "add64 (TotalCommittedThisHand p) x = TotalCommittedThisHand p + x"
    and "CurrentBet p + x < 2 ^ 61" and "0 \<le> CurrentBet p + x" and "Pot h + x < 2 ^ 62"
proof -
  note b = books_player [OF assms(1,3)] books_player_sum [OF assms(1-3)]
  have c: "chips st < 2 ^ 61" using assms(1) by (simp add: books_ok_def)
  show "sub64 (Stack p) x = Stack p - x" "add64 (Pot h) x = Pot h + x"
    "add64 (CurrentBet p) x = CurrentBet p + x"
    "add64 (TotalCommittedThisHand p) x = TotalCommittedThisHand p + x"
    "CurrentBet p + x < 2 ^ 61" "0 \<le> CurrentBet p + x" "Pot h + x < 2 ^ 62"
    using b(1) b(2) [OF assms(2)] b(3-6) c assms(4,5)
    by (auto intro!: sub64_exact add64_exact simp: in64_def)
qed

lemma with_player_and_hand_Some:
  "CurrentHand st = Some h \<Longrightarrow> player st pid = Some p \<Longrightarrow>
   with_player_and_hand pid f st = upd_player pid (\<lambda>_. fst (f p h)) (st\<lparr>CurrentHand := Some (snd (f p h))\<rparr>)"
  by (simp add: with_player_and_hand_def case_prod_beta)

lemma mark_all_in_sel [simp]:
  "CurrentBet (if b then p\<lparr>IsAllIn := True\<rparr> else p) = CurrentBet p"
  "TotalCommittedThisHand (if b then p\<lparr>IsAllIn := True\<rparr> else p) = TotalCommittedThisHand p"
  by simp_all

lemma done_acting_sel [simp]:
  "CurrentHighestBet (done_acting pid h) = CurrentHighestBet h"
  "LastRaiseAmount (done_acting pid h) = LastRaiseAmount h"
  by (simp_all add: done_acting_def)

lemma books_with:
  assumes "books_ok st" and "CurrentHand st = Some h" and "player st pid = Some p"
    and "0 \<le> x" and "x \<le> Stack p"
    and "Stack (fst (f p h)) = Stack p - x"
    and "TotalCommittedThisHand (fst (f p h)) = TotalCommittedThisHand p + x"
    and "CurrentBet (fst (f p h)) = CurrentBet p + x" and "Pot (snd (f p h)) = Pot h + x"
    and "0 \<le> CurrentHighestBet (snd (f p h))" and "CurrentHighestBet (snd (f p h)) < 2 ^ 61"
    and "0 \<le> LastRaiseAmount (snd (f p h))" and "LastRaiseAmount (snd (f p h)) < 2 ^ 61"
  shows "books_ok (with_player_and_hand pid f st) \<and> chips (with_player_and_hand pid f st) = chips st"
  unfolding with_player_and_hand_Some [OF assms(2,3)]
  using books_move [OF assms(1-7) _ _ assms(9-)] assms(4,8) books_player(2) [OF assms(1,3,2)] by simp

lemma books_hand_range:
  assumes "books_ok st" and "CurrentHand st = Some h"
  shows "0 \<le> CurrentHighestBet h" "CurrentHighestBet h < 2 ^ 61" "0 \<le> LastRaiseAmount h"
    "LastRaiseAmount h < 2 ^ 61"
  using assms by (auto simp: books_ok_def hand_books_def)

lemma books_call:
  assumes "books_ok st" and "CurrentHand st = Some h" and "player st pid = Some p"
    and "0 \<le> x" and "x \<le> Stack p"
  shows "books_ok (apply_PlayerCalled pid x st) \<and> chips (apply_PlayerCalled pid x st) = chips st"
  unfolding apply_PlayerCalled_def Let_def
  using books_hand_range [OF assms(1,2)]
  by (intro books_with [OF assms]) (simp_all add: books_exact [OF assms] del: if_split)

lemma books_reopen: "books_ok st \<Longrightarrow> books_ok (reopen_action pid st)"
  unfolding reopen_action_def by (rule books_upd_hand) simp_all

text \<open>A bet or raise to \<open>a\<close>: what it adds is covered by the stack and it is not below the bet.\<close>

definition covers :: "PlayerState \<Rightarrow> HandState \<Rightarrow> int \<Rightarrow> bool" where
  "covers p h a \<longleftrightarrow> CurrentBet p \<le> a \<and> a - CurrentBet p \<le> Stack p \<and> CurrentHighestBet h \<le> a"

lemma covers_exact:
  assumes "books_ok st" and "CurrentHand st = Some h" and "player st pid = Some p" and "covers p h a"
  shows "sub64 a (CurrentBet p) = a - CurrentBet p" "0 \<le> a - CurrentBet p" "a - CurrentBet p \<le> Stack p"
    and "sub64 a (CurrentHighestBet h) = a - CurrentHighestBet h" "0 \<le> a - CurrentHighestBet h"
    and "a - CurrentHighestBet h < 2 ^ 61" "0 \<le> a" "a < 2 ^ 61"
proof -
  have x: "0 \<le> a - CurrentBet p" "a - CurrentBet p \<le> Stack p" "CurrentHighestBet h \<le> a"
    using assms(4) by (simp_all add: covers_def)
  note e = books_exact [OF assms(1-3) x(1,2)] and r = books_hand_range [OF assms(1,2)]
  have cb: "0 \<le> CurrentBet p" using books_player(2) [OF assms(1,3,2)] by simp
  show "sub64 a (CurrentBet p) = a - CurrentBet p" "0 \<le> a - CurrentBet p" "a - CurrentBet p \<le> Stack p"
    "sub64 a (CurrentHighestBet h) = a - CurrentHighestBet h" "0 \<le> a - CurrentHighestBet h"
    "a - CurrentHighestBet h < 2 ^ 61" "0 \<le> a" "a < 2 ^ 61"
    using r cb e(5) x by (auto intro!: sub64_exact simp: in64_def)
qed

lemma books_bet:
  assumes "books_ok st" and "CurrentHand st = Some h" and "player st pid = Some p" and "covers p h a"
  shows "books_ok (apply_PlayerBet pid a st) \<and> chips (apply_PlayerBet pid a st) = chips st"
proof -
  note c = covers_exact [OF assms]
  note e = books_exact [OF assms(1-3) c(2,3)]
  have "books_ok (with_player_and_hand pid (\<lambda>p h.
        let delta = sub64 a (CurrentBet p); raiseBy = sub64 a (CurrentHighestBet h)
        in (p\<lparr>Stack := sub64 (Stack p) delta, CurrentBet := a,
              TotalCommittedThisHand := add64 (TotalCommittedThisHand p) delta\<rparr>,
            h\<lparr>Pot := add64 (Pot h) delta, CurrentHighestBet := a,
              LastRaiseAmount := raiseBy, MinRaiseAmount := raiseBy, LastFullRaiseTo := a,
              ActionClosedFor := [], RaisesThisStreet := add32 (RaisesThisStreet h) 1\<rparr>)) st)
      \<and> chips (with_player_and_hand pid (\<lambda>p h.
        let delta = sub64 a (CurrentBet p); raiseBy = sub64 a (CurrentHighestBet h)
        in (p\<lparr>Stack := sub64 (Stack p) delta, CurrentBet := a,
              TotalCommittedThisHand := add64 (TotalCommittedThisHand p) delta\<rparr>,
            h\<lparr>Pot := add64 (Pot h) delta, CurrentHighestBet := a,
              LastRaiseAmount := raiseBy, MinRaiseAmount := raiseBy, LastFullRaiseTo := a,
              ActionClosedFor := [], RaisesThisStreet := add32 (RaisesThisStreet h) 1\<rparr>)) st) = chips st"
    unfolding Let_def by (rule books_with [OF assms(1-3) c(2,3)]) (use c e in simp_all)
  then show ?thesis using assms(2,3) by (simp add: apply_PlayerBet_def books_reopen)
qed

lemma books_raise:
  assumes "books_ok st" and "CurrentHand st = Some h" and "player st pid = Some p" and "covers p h a"
    and "by' = a - CurrentHighestBet h"
  shows "books_ok (apply_PlayerRaised pid a by' st) \<and> chips (apply_PlayerRaised pid a by' st) = chips st"
proof -
  note c = covers_exact [OF assms(1-4)]
  note e = books_exact [OF assms(1-3) c(2,3)]
  have "books_ok (with_player_and_hand pid (\<lambda>p h.
        let delta = sub64 a (CurrentBet p);
            p1 = p\<lparr>Stack := sub64 (Stack p) delta, CurrentBet := a,
                   TotalCommittedThisHand := add64 (TotalCommittedThisHand p) delta\<rparr>
        in (if Stack p1 = 0 then p1\<lparr>IsAllIn := True\<rparr> else p1,
            h\<lparr>Pot := add64 (Pot h) delta, CurrentHighestBet := a,
              LastRaiseAmount := by', MinRaiseAmount := by', LastFullRaiseTo := a,
              ActionClosedFor := [], RaisesThisStreet := add32 (RaisesThisStreet h) 1\<rparr>)) st)"
    unfolding Let_def
    by (rule books_with [OF assms(1-3) c(2,3), THEN conjunct1])
      (use c e assms(5) in \<open>simp_all del: if_split\<close>)
  moreover have "chips (apply_PlayerRaised pid a by' st) = chips st"
    using assms(2,3) unfolding apply_PlayerRaised_def Let_def
    by (simp add: chips_with c e del: if_split)
  ultimately show ?thesis using assms(2,3) by (simp add: apply_PlayerRaised_def books_reopen)
qed

lemma books_all_in_raise:
  assumes "books_ok st" and "0 \<le> a" and "a < 2 ^ 61"
    and "\<And>h. CurrentHand st = Some h \<Longrightarrow> CurrentHighestBet h < a"
  shows "books_ok (all_in_raise pid a st)"
proof -
  have "sub64 a (CurrentHighestBet h) = a - CurrentHighestBet h"
    if "0 \<le> CurrentHighestBet h" "CurrentHighestBet h < 2 ^ 61" for h
    using that assms(2,3) by (simp add: sub64_exact in64_def)
  then show ?thesis unfolding all_in_raise_def Let_def
    using assms(1-3) assms(4) [THEN less_imp_le] by (intro books_upd_hand) (auto, fastforce+)
qed

lemma books_all_in:
  assumes "books_ok st" and "CurrentHand st = Some h" and "player st pid = Some p"
    and "a = CurrentBet p + Stack p"
  shows "books_ok (apply_PlayerAllIn pid a st) \<and> chips (apply_PlayerAllIn pid a st) = chips st"
proof -
  let ?f = "\<lambda>p h. let delta = sub64 a (CurrentBet p)
                  in (p\<lparr>Stack := 0, CurrentBet := a,
                        TotalCommittedThisHand := add64 (TotalCommittedThisHand p) delta,
                        IsAllIn := True\<rparr>,
                      h\<lparr>Pot := add64 (Pot h) delta\<rparr>)"
  let ?st = "with_player_and_hand pid ?f st"
  note r = books_hand_range [OF assms(1,2)]
  have x: "0 \<le> Stack p" "Stack p \<le> Stack p" using books_player(1) [OF assms(1,3)] by simp_all
  note e = books_exact [OF assms(1-3) x]
  have d: "sub64 a (CurrentBet p) = Stack p" using e(5) assms(4) x books_player(2) [OF assms(1,3,2)]
    by (simp add: sub64_exact in64_def)
  have 1: "books_ok ?st \<and> chips ?st = chips st"
    by (rule books_with [OF assms(1-3) x]) (use d e r assms(4) in \<open>simp_all add: Let_def\<close>)
  have h': "CurrentHand ?st = Some (h\<lparr>Pot := Pot h + Stack p\<rparr>)"
    using d e by (simp add: with_player_and_hand_Some [OF assms(2,3)] Let_def)
  have "books_ok (all_in_raise pid a ?st)" if "CurrentHighestBet h < a"
    using 1 h' that e(5,6) assms(4) by (intro books_all_in_raise) auto
  moreover have "books_ok (upd_hand (done_acting pid) ?st)" using 1 by (intro books_upd_hand) auto
  ultimately have "books_ok (apply_PlayerAllIn pid a st)"
    using assms(2,3) by (simp add: apply_PlayerAllIn_def Let_def)
  moreover have "chips (apply_PlayerAllIn pid a st) = chips st"
    using 1 assms(2,3) by (auto simp: apply_PlayerAllIn_def Let_def chips_upd_hand)
  ultimately show ?thesis by simp
qed

lemma books_fold: "books_ok st \<Longrightarrow> books_ok (apply_PlayerFolded pid st)"
  unfolding apply_PlayerFolded_def by (intro books_upd_hand books_upd_player) simp_all

lemma books_check: "books_ok st \<Longrightarrow> books_ok (apply_PlayerChecked pid st)"
  unfolding apply_PlayerChecked_def by (intro books_upd_hand) simp_all

subsection \<open>Nobody has bet more than the highest bet\<close>

definition bets_below :: "GameState \<Rightarrow> int \<Rightarrow> bool" where
  "bets_below st b \<longleftrightarrow> (\<forall>(i, p) \<in> set (Players st). CurrentBet p \<le> b)"

definition bets_capped :: "GameState \<Rightarrow> bool" where
  "bets_capped st \<longleftrightarrow> (\<forall>h. CurrentHand st = Some h \<longrightarrow> bets_below st (CurrentHighestBet h))"

lemma bets_belowD: "bets_below st b \<Longrightarrow> player st pid = Some p \<Longrightarrow> CurrentBet p \<le> b"
  by (auto simp: bets_below_def player_def dest: map_of_SomeD)

lemma bets_cappedD:
  "bets_capped st \<Longrightarrow> CurrentHand st = Some h \<Longrightarrow> player st pid = Some p \<Longrightarrow>
   CurrentBet p \<le> CurrentHighestBet h"
  by (auto simp: bets_capped_def dest: bets_belowD)

lemma below_upd_player:
  assumes "bets_below st b" and "distinct (keys (Players st))" and "b \<le> b'"
    and "\<And>p. player st pid = Some p \<Longrightarrow> CurrentBet (f p) \<le> b'"
  shows "bets_below (upd_player pid f st) b'"
  unfolding bets_below_def
proof clarify
  fix i p assume "(i, p) \<in> set (Players (upd_player pid f st))"
  then obtain q where q: "(i, q) \<in> set (Players st)" "p = (if i = pid then f q else q)"
    using players_map_entry [OF assms(2)] by (metis upd_sel(6))
  moreover have "player st i = Some q" using q(1) assms(2) by (simp add: player_def keys_def)
  ultimately show "CurrentBet p \<le> b'" using assms(1,3,4) by (auto dest: bets_belowD)
qed

lemma capped_upd_hand:
  "bets_capped st \<Longrightarrow> (\<And>h. CurrentHighestBet (f h) = CurrentHighestBet h) \<Longrightarrow> bets_capped (upd_hand f st)"
  by (auto simp: bets_capped_def bets_below_def)

lemma capped_with:
  assumes "bets_capped st" and "distinct (keys (Players st))" and "CurrentHand st = Some h"
    and "player st pid = Some p" and "CurrentHighestBet h \<le> CurrentHighestBet (snd (f p h))"
    and "CurrentBet (fst (f p h)) \<le> CurrentHighestBet (snd (f p h))"
  shows "bets_capped (with_player_and_hand pid f st)"
proof -
  have "bets_below (st\<lparr>CurrentHand := Some (snd (f p h))\<rparr>) (CurrentHighestBet h)"
    using assms(1,3) by (simp add: bets_capped_def bets_below_def)
  then have "bets_below (upd_player pid (\<lambda>_. fst (f p h)) (st\<lparr>CurrentHand := Some (snd (f p h))\<rparr>))
      (CurrentHighestBet (snd (f p h)))"
    using assms(2,5,6) by (intro below_upd_player) simp_all
  then show ?thesis
    by (simp add: bets_capped_def with_player_and_hand_Some [OF assms(3,4)])
qed

lemma capped_reopen: "bets_capped st \<Longrightarrow> bets_capped (reopen_action pid st)"
  unfolding reopen_action_def by (rule capped_upd_hand) simp_all

lemma capped_upd_player:
  assumes "bets_capped st" and "distinct (keys (Players st))"
    and "\<And>p. CurrentBet (f p) \<le> CurrentBet p"
  shows "bets_capped (upd_player pid f st)"
  unfolding bets_capped_def
proof clarify
  fix h assume "CurrentHand (upd_player pid f st) = Some h"
  then have b: "bets_below st (CurrentHighestBet h)" using assms(1) by (simp add: bets_capped_def)
  then show "bets_below (upd_player pid f st) (CurrentHighestBet h)"
    by (rule below_upd_player [OF _ assms(2) order.refl])
      (use assms(3) bets_belowD [OF b] in \<open>blast intro: order.trans\<close>)
qed

lemma capped_call:
  assumes "bets_capped st" and "books_ok st" and "CurrentHand st = Some h" and "player st pid = Some p"
    and "0 \<le> x" and "x \<le> Stack p" and "x \<le> CurrentHighestBet h - CurrentBet p"
  shows "bets_capped (apply_PlayerCalled pid x st)"
  unfolding apply_PlayerCalled_def Let_def
  using assms books_exact(3) [OF assms(2-6)]
  by (intro capped_with [OF assms(1) _ assms(3,4)]) (simp_all add: books_ok_def del: if_split)

lemma capped_bet:
  assumes "bets_capped st" and "books_ok st" and "CurrentHand st = Some h" and "player st pid = Some p"
    and "CurrentHighestBet h \<le> a"
  shows "bets_capped (apply_PlayerBet pid a st)" "bets_capped (apply_PlayerRaised pid a b st)"
  using assms(3,4) unfolding apply_PlayerBet_def apply_PlayerRaised_def Let_def
  by (simp_all del: if_split)
    (use assms in \<open>intro capped_reopen capped_with [OF assms(1) _ assms(3,4)];
      simp add: books_ok_def del: if_split\<close>)+

lemma capped_all_in:
  assumes "bets_capped st" and "books_ok st" and "CurrentHand st = Some h" and "player st pid = Some p"
  shows "bets_capped (apply_PlayerAllIn pid a st)"
proof -
  let ?f = "\<lambda>p h. let delta = sub64 a (CurrentBet p)
                  in (p\<lparr>Stack := 0, CurrentBet := a,
                        TotalCommittedThisHand := add64 (TotalCommittedThisHand p) delta,
                        IsAllIn := True\<rparr>,
                      h\<lparr>Pot := add64 (Pot h) delta\<rparr>)"
  let ?st = "with_player_and_hand pid ?f st"
  have d: "distinct (keys (Players st))" using assms(2) by (simp add: books_ok_def)
  have "bets_below ?st (max a (CurrentHighestBet h))"
    unfolding with_player_and_hand_Some [OF assms(3,4)]
    by (rule below_upd_player [where b = "CurrentHighestBet h"])
      (use assms(1,3) d in \<open>simp_all add: bets_capped_def bets_below_def Let_def\<close>)
  moreover have "\<exists>x. CurrentHand ?st = Some (h\<lparr>Pot := x\<rparr>)"
    by (intro exI [of _ "add64 (Pot h) (sub64 a (CurrentBet p))"])
      (simp add: with_player_and_hand_Some [OF assms(3,4)] Let_def)
  ultimately show ?thesis using assms(3,4)
    by (auto simp: apply_PlayerAllIn_def all_in_raise_def Let_def bets_capped_def bets_below_def
        done_acting_def max_def split: if_splits)
qed

subsection \<open>A whole command\<close>

lemma applyAll_single:
  "applyAll st [mk_event e] = apply_payload e None (st\<lparr>Version := add64 (Version st) 1\<rparr>)"
  by (simp add: applyAll_def Apply_def)

lemma legal_books:
  assumes "books_ok st" and "bets_capped st" and "blind_ok st" and "can_act st actor h p"
    and "legal st h p actor c" and "is_betting c"
  shows "books_ok (applyAll st (build_payload_events st cid actor c))
    \<and> bets_capped (applyAll st (build_payload_events st cid actor c))
    \<and> chips (applyAll st (build_payload_events st cid actor c)) = chips st"
proof -
  let ?st = "st\<lparr>Version := add64 (Version st) 1\<rparr>"
  have h: "CurrentHand st = Some h" "player st actor = Some p"
    "CurrentHand ?st = Some h" "player ?st actor = Some p"
    using can_act_sel [OF assms(4)] by (simp_all add: player_def)
  have b: "books_ok ?st" using assms(1) by (rule books_cong) simp_all
  have bc: "bets_capped ?st" using assms(2) by (simp add: bets_capped_def bets_below_def)
  note am = books_amounts [OF assms(1,3) h(1,2)]
  note s = books_player(1) [OF assms(1) h(2)] and cb = books_player(2) [OF assms(1) h(2,1)]
    and cap = bets_cappedD [OF assms(2) h(1,2)] and leg = assms(5)
  show ?thesis
  proof (cases c)
    case CmdFold
    have "bets_capped (apply_PlayerFolded actor ?st)"
      unfolding apply_PlayerFolded_def using b
      by (intro capped_upd_hand capped_upd_player bc) (simp_all add: books_ok_def)
    then show ?thesis using CmdFold books_fold [OF b] by (simp add: applyAll_single)
  next
    case CmdCheck
    then show ?thesis using books_check [OF b] bc
      by (simp add: applyAll_single) (simp add: apply_PlayerChecked_def capped_upd_hand)
  next
    case (CmdCall a)
    let ?x = "min (CurrentHighestBet h - CurrentBet p) (Stack p)"
    have "callAmount h p = ?x" using leg CmdCall by (simp add: callAmount_value [OF am])
    then show ?thesis
      using books_call [OF b h(3,4), of ?x] capped_call [OF bc b h(3,4), of ?x] leg CmdCall h(1,2)
      by (simp add: applyAll_single)
  next
    case (CmdBet a)
    then have "covers p h a" using leg cap cb by (simp add: covers_def)
    then show ?thesis using books_bet [OF b h(3,4)] capped_bet(1) [OF bc b h(3,4)] CmdBet
      by (simp add: applyAll_single covers_def)
  next
    case (CmdRaise to)
    then have cov: "covers p h to" using leg cap by (simp add: covers_def)
    have "sub64 to (CurrentHighestBet h) = to - CurrentHighestBet h"
      using covers_exact(4) [OF assms(1) h(1,2) cov] .
    then show ?thesis using books_raise [OF b h(3,4) cov refl] capped_bet(2) [OF bc b h(3,4)] CmdRaise cov h(1)
      by (simp add: applyAll_single covers_def)
  next
    case CmdAllIn
    have "add64 (CurrentBet p) (Stack p) = CurrentBet p + Stack p"
      using books_exact(3) [OF assms(1) h(1,2) s] by simp
    then show ?thesis using books_all_in [OF b h(3,4)] capped_all_in [OF bc b h(3,4)] CmdAllIn h(2)
      by (simp add: applyAll_single Let_def)
  qed (use assms(6) in \<open>simp_all add: is_betting_def\<close>)
qed

section \<open>Who acts after it\<close>

text \<open>The players other than \<open>pid\<close> who still decide something, in the order of the hand.\<close>

definition live_others :: "GameState \<Rightarrow> HandState \<Rightarrow> string \<Rightarrow> string list" where
  "live_others st h pid =
     filter (\<lambda>q. q \<noteq> pid \<and> (\<exists>p. player st q = Some p \<and> \<not> IsFolded p \<and> \<not> IsAllIn p)) (ActionOrder h)"

lemma othersInOrder_upd:
  assumes "CurrentHand st' = Some h'" and "ActionOrder h' = ActionOrder h"
    and "\<And>q. q \<noteq> pid \<Longrightarrow> player st' q = player st q"
  shows "othersInOrder st' pid = live_others st h pid"
  unfolding othersInOrder_def live_others_def
  using assms by (auto intro!: filter_cong split: option.splits)

lemma bet_hand:
  assumes "CurrentHand st = Some h" and "player st pid = Some p"
  shows "\<exists>h'. CurrentHand (apply_PlayerBet pid a st) = Some h' \<and> CurrentHighestBet h' = a
      \<and> PendingActions h' = live_others st h pid \<and> ActionOrder h' = ActionOrder h
      \<and> ActionClosedFor h' = [] \<and> ActingPlayerId h' = None"
    and "\<exists>h'. CurrentHand (apply_PlayerRaised pid a b st) = Some h' \<and> CurrentHighestBet h' = a
      \<and> PendingActions h' = live_others st h pid \<and> ActionOrder h' = ActionOrder h
      \<and> ActionClosedFor h' = [] \<and> ActingPlayerId h' = None"
  using assms unfolding apply_PlayerBet_def apply_PlayerRaised_def
  by (simp_all add: reopen_action_def with_player_and_hand_Some Let_def del: if_split)
    (simp_all add: othersInOrder_upd [where h = h and st = st] player_upd_player player_def map_of_map_entry
      del: if_split)

lemma all_in_hand:
  assumes "CurrentHand st = Some h" and "player st pid = Some p" and "CurrentHighestBet h < a"
    and "sub64 a (CurrentHighestBet h) = a - CurrentHighestBet h"
  shows "\<exists>h'. CurrentHand (apply_PlayerAllIn pid a st) = Some h' \<and> CurrentHighestBet h' = a
      \<and> PendingActions h' = live_others st h pid \<and> ActionOrder h' = ActionOrder h
      \<and> ActingPlayerId h' = None
      \<and> ActionClosedFor h' =
          (if LastRaiseAmount h = 0 \<or> LastRaiseAmount h \<le> a - CurrentHighestBet h then []
           else filter (\<lambda>q. q \<notin> set (PendingActions h)) (live_others st h pid))"
  using assms unfolding apply_PlayerAllIn_def all_in_raise_def
  by (simp add: with_player_and_hand_Some Let_def)
    (auto simp: othersInOrder_upd [where h = h and st = st] player_upd_player player_def
      map_of_map_entry live_others_def intro!: filter_cong)

lemma gate_open:
  assumes "can_act st actor h p"
  shows "reject_or (requireActiveGame st) (reject_or (requireHandInProgress st)
     (with_seated st actor (\<lambda>p. reject_or (requireCanAct p)
        (reject_or (requireActorsTurn st actor) (k p))))) = k p"
proof -
  have "requireActiveGame st = None" "requireHandInProgress st = None" "requireCanAct p = None"
    "requireActorsTurn st actor = None" "player st actor = Some p"
    using assms unfolding require_None by (auto simp: can_act_def)
  then show ?thesis by (simp add: with_seated_def requireSeated_def)
qed

lemma raise_closed_iff:
  assumes "can_act st actor h p"
  shows "(\<exists>r. validateRaise st to actor = Some r \<and> Code r = CodeRaiseActionClosed) \<longleftrightarrow>
     CurrentHighestBet h \<noteq> 0 \<and> actor \<in> set (ActionClosedFor h)"
  using can_act_sel(1) [OF assms] unfolding validateRaise_def Let_def gate_open [OF assms]
  by (simp add: reject_def raise_cap_reached_def Let_def split: option.split)

text \<open>The events of players who answer a bet without raising it, and the turns they get.\<close>

definition answering :: "EventPayload \<Rightarrow> bool" where
  "answering e \<longleftrightarrow> (case e of EvPlayerFolded q \<Rightarrow> True | EvPlayerChecked q \<Rightarrow> True | EvPlayerCalled q a \<Rightarrow> True
     | EvActionStarted q t d \<Rightarrow> True | EvPlayerTimedOut q d \<Rightarrow> True | EvTimeBankUsed q u r \<Rightarrow> True | _ \<Rightarrow> False)"

lemma answer_keeps:
  assumes "answering e" and "CurrentHand st = Some h"
  shows "\<exists>h'. CurrentHand (apply_payload e t st) = Some h' \<and> CurrentHighestBet h' = CurrentHighestBet h
    \<and> ActionClosedFor h' = ActionClosedFor h"
proof (cases e)
  case (EvPlayerCalled q a)
  then show ?thesis using assms(2)
    by (cases "player st q")
      (simp_all add: apply_PlayerCalled_def with_player_and_hand_Some Let_def done_acting_def,
       simp add: with_player_and_hand_def)
qed (use assms in \<open>simp_all add: answering_def apply_PlayerFolded_def apply_PlayerChecked_def
      apply_ActionStarted_def done_acting_def\<close>)

lemma answers_keep:
  "\<forall>e \<in> set evs. \<exists>p. evt_Event e = Some p \<and> answering p \<Longrightarrow> CurrentHand st = Some h \<Longrightarrow>
   \<exists>h'. CurrentHand (applyAll st evs) = Some h' \<and> CurrentHighestBet h' = CurrentHighestBet h
     \<and> ActionClosedFor h' = ActionClosedFor h"
proof (induction evs arbitrary: st h)
  case (Cons e evs)
  let ?v = "if 0 < evt_StateVersion e then evt_StateVersion e else add64 (Version st) 1"
  obtain p where e: "evt_Event e = Some p" "answering p" using Cons.prems(1) by auto
  then have p: "answering p" "Apply st e = apply_payload p (evt_OccurredAt e) (st\<lparr>Version := ?v\<rparr>)"
    by (simp_all add: Apply_def)
  have "CurrentHand (st\<lparr>Version := ?v\<rparr>) = Some h" using Cons.prems(2) by simp
  from answer_keeps [OF p(1) this] obtain h1 where h1: "CurrentHand (Apply st e) = Some h1"
    "CurrentHighestBet h1 = CurrentHighestBet h" "ActionClosedFor h1 = ActionClosedFor h"
    unfolding p(2) by blast
  have "applyAll st (e # evs) = applyAll (Apply st e) evs" by (simp add: applyAll_def)
  then show ?case using Cons.IH [OF _ h1(1)] Cons.prems(1) h1(2,3) by simp
qed (simp add: applyAll_def)

section \<open>Properties\<close>


text \<open>C25. What the code does at tables of another betting structure: it plays no-limit. Whatever the
  configuration says, a betting command is accepted exactly when the table would accept it as a
  no-limit table, but for the number of raises of a fixed-limit street. There is no pot-limit maximum,
  and \<open>small_bet\<close> and \<open>big_bet\<close> of a fixed-limit table limit nothing.\<close>

theorem structures_play_no_limit:
  assumes "cmd_Payload cmd = Some c" and "is_betting c" and "Config st = Some cfg" and "CurrentHand st = Some h"
  shows "validate st (Some cmd) actor = None \<longleftrightarrow>
      validate (st\<lparr>Config := Some (cfg\<lparr>Structure := BETTING_STRUCTURE_NO_LIMIT\<rparr>)\<rparr>) (Some cmd) actor = None
    \<and> \<not> (Structure cfg = BETTING_STRUCTURE_FIXED_LIMIT \<and> (\<exists>to. c = CmdRaise to) \<and> 0 < MaxRaisesPerStreet cfg
         \<and> MaxRaisesPerStreet cfg \<le> RaisesThisStreet h \<and> \<not> (UncapHeadsUp cfg \<and> playersInHand st = 2))"
proof -
  let ?st = "st\<lparr>Config := Some (cfg\<lparr>Structure := BETTING_STRUCTURE_NO_LIMIT\<rparr>)\<rparr>"
  have act: "can_act ?st actor h p \<longleftrightarrow> can_act st actor h p" for h p by (simp add: can_act_def player_def)
  have eq: "get_cfg BigBlind 0 (Config ?st) = get_cfg BigBlind 0 (Config st)" "minRaiseTo ?st h = minRaiseTo st h" for h
    using assms(3) by (simp_all add: get_cfg_def minRaiseTo_def)
  have cap: "\<not> fixed_limit_cap ?st h" "fixed_limit_cap st h \<longleftrightarrow> Structure cfg = BETTING_STRUCTURE_FIXED_LIMIT
      \<and> 0 < MaxRaisesPerStreet cfg \<and> MaxRaisesPerStreet cfg \<le> RaisesThisStreet h
      \<and> \<not> (UncapHeadsUp cfg \<and> playersInHand st = 2)" for h
    using assms(3) by (auto simp: fixed_limit_cap_def)
  have hand: "can_act st actor h' p \<Longrightarrow> h' = h" for h' p using assms(4) by (simp add: can_act_def)
  have "validate_payload st c actor = None \<longleftrightarrow> validate_payload ?st c actor = None \<and> \<not> (\<exists>to. c = CmdRaise to \<and> fixed_limit_cap st h)"
  proof (cases c)
    case (CmdRaise to)
    then show ?thesis using cap(1) hand by (auto simp: raise_None act eq get_cfg_def assms(3)) (metis order.refl)+
  qed (use assms(2) in \<open>simp_all add: is_betting_def fold_None check_None call_None bet_None all_in_None act get_cfg_def assms(3)\<close>)
  then show ?thesis using assms(1) cap(2) by (auto simp: validate_def)
qed

text \<open>Nobody acts out of turn: an accepted betting command comes from a seated player of a
  table in play with a hand in a playable phase, whose turn it is and who has neither folded
  nor gone all-in nor is sitting out.\<close>

theorem betting_in_turn:
  assumes "cmd_Payload cmd = Some c" and "is_betting c" and "validate st (Some cmd) actor = None"
  shows "\<exists>h p. can_act st actor h p"
  using betting_turn' [OF assms(2)] assms(1,3) by (simp add: validate_def)

text \<open>C2. An accepted betting command keeps the books: no stack becomes negative, the pot stays
  the sum of what the players committed, no bet exceeds the highest bet, and the chips on the
  table are the same as before, with no wrap-around anywhere.\<close>

theorem command_keeps_books:
  assumes "books_ok st" and "bets_capped st" and "blind_ok st"
    and "cmd_Payload cmd = Some c" and "is_betting c" and "validate st (Some cmd) actor = None"
  shows "books_ok (applyAll st (commandEvents st cmd actor))
    \<and> bets_capped (applyAll st (commandEvents st cmd actor))
    \<and> chips (applyAll st (commandEvents st cmd actor)) = chips st"
proof -
  have v: "validate_payload st c actor = None" using assms(4,6) by (simp add: validate_def)
  obtain h p where c: "can_act st actor h p" using betting_turn' [OF assms(5) v] by blast
  have "legal st h p actor c"
    using validate_betting [OF assms(5) can_act_sel [OF c] books_amounts [OF assms(1,3) can_act_sel [OF c]]]
      v by simp
  then show ?thesis using legal_books [OF assms(1-3) c _ assms(5)] assms(4,6)
    by (simp add: commandEvents_def buildCommandEvents_def)
qed

text \<open>A rejected command changes nothing but the version counter, and the player gets exactly
  one event with the reason and its stable code.\<close>

theorem rejected_changes_nothing:
  assumes "validate st (Some cmd) actor = Some r"
  shows "map evt_Event (commandEvents st cmd actor)
      = [Some (EvCommandRejected (cmd_CommandId cmd) (Reason r) (code_string (Code r)))]
    \<and> applyAll st (commandEvents st cmd actor) = st\<lparr>Version := add64 (Version st) 1\<rparr>"
  using assms by (simp add: commandEvents_def applyAll_def Apply_def)

text \<open>A bet or a raise reopens the action: everybody else in the order of the hand who has not
  folded and is not all-in has to act again, in that order, raising is open to all of them,
  and the amount is the bet to match.\<close>

theorem aggression_reopens:
  assumes "CurrentHand st = Some h" and "player st pid = Some p"
    and "e = EvPlayerBet pid a \<or> e = EvPlayerRaised pid a b"
  shows "\<exists>h'. CurrentHand (apply_payload e t st) = Some h' \<and> CurrentHighestBet h' = a
      \<and> PendingActions h' = live_others st h pid \<and> ActionOrder h' = ActionOrder h
      \<and> ActionClosedFor h' = [] \<and> ActingPlayerId h' = None"
  using assms(3) bet_hand [OF assms(1,2)] by auto

text \<open>C35. A short all-in and who may raise after it: let an all-in raise by less than the last raise. Among
  the players who have to answer it, and while they answer with folds, checks and calls, a raise of
  any size is rejected with \<open>CodeRaiseActionClosed\<close> for those, and only those, who had no action
  pending when the all-in came. So those who had acted stay closed; but a second short all-in finds
  them pending, because they still have to answer the first, and opens the raise to them again,
  although no full raise has come. And it is only the raise that is closed: an all-in is accepted
  from any of them who has chips, also when it raises.\<close>

theorem short_all_in_closes:
  assumes "CurrentHand st = Some h" and "player st actor = Some p" and "0 \<le> CurrentHighestBet h"
    and "CurrentHighestBet h < a" and "sub64 a (CurrentHighestBet h) = a - CurrentHighestBet h"
    and "a - CurrentHighestBet h < LastRaiseAmount h" and "q \<in> set (live_others st h actor)"
    and "\<forall>e \<in> set evs. \<exists>p. evt_Event e = Some p \<and> answering p"
    and "can_act (applyAll (apply_PlayerAllIn actor a st) evs) q h2 p2"
  shows "((\<exists>r. validateRaise (applyAll (apply_PlayerAllIn actor a st) evs) to q = Some r
          \<and> Code r = CodeRaiseActionClosed) \<longleftrightarrow> q \<notin> set (PendingActions h))
    \<and> (validateAllIn (applyAll (apply_PlayerAllIn actor a st) evs) q = None \<longleftrightarrow> 0 < Stack p2)"
proof -
  obtain h1 where h1: "CurrentHand (apply_PlayerAllIn actor a st) = Some h1" "CurrentHighestBet h1 = a"
    "ActionClosedFor h1 = filter (\<lambda>q. q \<notin> set (PendingActions h)) (live_others st h actor)"
    using all_in_hand [OF assms(1,2,4,5)] assms(4,6) by auto
  have "CurrentHighestBet h2 = a \<and> ActionClosedFor h2 = ActionClosedFor h1"
    using answers_keep [OF assms(8) h1(1)] can_act_sel(1) [OF assms(9)] h1(2) by simp
  then show ?thesis
    using raise_closed_iff [OF assms(9), of to] ex_can_act_cong [OF can_act_sel [OF assms(9)], of "\<lambda>_ p. 0 < Stack p"]
      h1(3) assms(3,4,7,9) by (simp add: all_in_None)
qed

section \<open>Witnesses\<close>

text \<open>The flop with three players: \<open>b\<close> bet 40, \<open>c\<close> called, \<open>a\<close> has 60 left and is to act.\<close>

definition flop_player :: "string \<Rightarrow> int \<Rightarrow> int \<Rightarrow> int \<Rightarrow> int \<Rightarrow> PlayerState" where
  "flop_player pid seat stack bet committed =
     empty_PlayerState\<lparr>PlayerId := pid, Seat := seat, SeatStatus := SEAT_STATUS_OCCUPIED,
       Stack := stack, CurrentBet := bet, TotalCommittedThisHand := committed\<rparr>"

definition flop_hand :: HandState where
  "flop_hand = (sample_hand [''b'', ''c'', ''a''])
     \<lparr>Pot := 380, Phase := HAND_PHASE_FLOP, CurrentHighestBet := 40, LastRaiseAmount := 40,
      MinRaiseAmount := 40, RaisesThisStreet := 1, PendingActions := [''a''],
      ActingPlayerId := Some ''a''\<rparr>"

definition flop_state :: GameState where
  "flop_state = (sample_state
     [(''a'', flop_player ''a'' 1 60 0 100), (''b'', flop_player ''b'' 2 360 40 140),
      (''c'', flop_player ''c'' 3 360 40 140)] (Some flop_hand))\<lparr>Config := Some rake_config\<rparr>"

definition command_of :: "CommandPayload \<Rightarrow> PlayerCommand" where
  "command_of c = \<lparr>cmd_CommandId = ''k'', cmd_GameId = ''g'', cmd_ClientStateVersion = 0,
     cmd_Payload = Some c\<rparr>"

lemma flop_facts:
  "CurrentHand flop_state = Some flop_hand"
  "player flop_state ''a'' = Some (flop_player ''a'' 1 60 0 100)"
  "books_ok flop_state" "bets_capped flop_state" "blind_ok flop_state"
proof -
  show h: "CurrentHand flop_state = Some flop_hand" by (simp add: flop_state_def sample_state_def)
  show "player flop_state ''a'' = Some (flop_player ''a'' 1 60 0 100)"
    "blind_ok flop_state" by code_simp+
  have "hand_books flop_state flop_hand" "distinct (keys (Players flop_state))"
    "\<forall>(i, p) \<in> set (Players flop_state). 0 \<le> Stack p" "chips flop_state < 2 ^ 61"
    by code_simp+
  then show "books_ok flop_state" by (simp add: books_ok_def h)
  have "bets_below flop_state (CurrentHighestBet flop_hand)" by code_simp
  then show "bets_capped flop_state" by (simp add: bets_capped_def h)
qed



text \<open>A pot-limit table whose pot is 15: the bet of 500 is accepted.\<close>

definition pot_limit_state :: GameState where
  "pot_limit_state = (sample_state
     [(''a'', flop_player ''a'' 1 500 0 5), (''b'', flop_player ''b'' 2 360 0 5), (''c'', flop_player ''c'' 3 360 0 5)]
     (Some (flop_hand\<lparr>Pot := 15, CurrentHighestBet := 0, LastRaiseAmount := 0\<rparr>)))
     \<lparr>Config := Some (rake_config\<lparr>Structure := BETTING_STRUCTURE_POT_LIMIT\<rparr>)\<rparr>"

lemma structures_play_no_limit_witness:
  "Pot (the (CurrentHand pot_limit_state)) = 15
   \<and> validate pot_limit_state (Some (command_of (CmdBet 500))) ''a'' = None"
proof -
  let ?cfg = "rake_config\<lparr>Structure := BETTING_STRUCTURE_POT_LIMIT\<rparr>"
    and ?h = "flop_hand\<lparr>Pot := 15, CurrentHighestBet := 0, LastRaiseAmount := 0\<rparr>"
  have c: "cmd_Payload (command_of (CmdBet 500)) = Some (CmdBet 500)" "is_betting (CmdBet 500)"
    "Config pot_limit_state = Some ?cfg" "CurrentHand pot_limit_state = Some ?h" "Structure ?cfg \<noteq> BETTING_STRUCTURE_FIXED_LIMIT"
    by (simp_all add: command_of_def is_betting_def pot_limit_state_def sample_state_def)
  have "validate (pot_limit_state\<lparr>Config := Some (?cfg\<lparr>Structure := BETTING_STRUCTURE_NO_LIMIT\<rparr>)\<rparr>)
      (Some (command_of (CmdBet 500))) ''a'' = None" by code_simp
  then show ?thesis using structures_play_no_limit [OF c(1-4), of "''a''"] c(4,5) by simp
qed

lemma betting_in_turn_witness: "\<exists>h p. can_act flop_state ''a'' h p"
proof (rule betting_in_turn)
  show "cmd_Payload (command_of CmdFold) = Some CmdFold" "is_betting CmdFold"
    by (simp_all add: command_of_def is_betting_def)
  show "validate flop_state (Some (command_of CmdFold)) ''a'' = None" by code_simp
qed

lemma command_keeps_books_witness:
  "chips (applyAll flop_state (commandEvents flop_state (command_of CmdAllIn) ''a'')) = 1160"
proof -
  have "validate flop_state (Some (command_of CmdAllIn)) ''a'' = None" "chips flop_state = 1160"
    by code_simp+
  then show ?thesis
    using command_keeps_books [OF flop_facts(3-5), of "command_of CmdAllIn" CmdAllIn "''a''"]
    by (simp add: command_of_def is_betting_def)
qed

lemma rejected_changes_nothing_witness:
  "applyAll flop_state (commandEvents flop_state (command_of CmdCheck) ''a'') = flop_state\<lparr>Version := 2\<rparr>"
proof -
  have "validate flop_state (Some (command_of CmdCheck)) ''a'' \<noteq> None" by code_simp
  then obtain r where "validate flop_state (Some (command_of CmdCheck)) ''a'' = Some r" by blast
  moreover have "add64 (Version flop_state) 1 = 2" by code_simp
  ultimately show ?thesis using rejected_changes_nothing by simp
qed

lemma aggression_reopens_witness:
  "\<exists>h'. CurrentHand (apply_payload (EvPlayerRaised ''a'' 60 20) None flop_state) = Some h'
    \<and> PendingActions h' = [''b'', ''c'']"
proof -
  have "live_others flop_state flop_hand ''a'' = [''b'', ''c'']"
    by (simp add: live_others_def flop_hand_def sample_hand_def flop_state_def sample_state_def
        player_def flop_player_def empty_PlayerState_def)
  then show ?thesis
    using aggression_reopens [OF flop_facts(1,2), of "EvPlayerRaised ''a'' 60 20" 60 20 None] by auto
qed

text \<open>On the flop \<open>b\<close> has bet 40 and \<open>c\<close> has called. \<open>a\<close> goes all-in for 60, which is short: \<open>b\<close> cannot raise.
  So is \<open>c\<close>, who goes all-in for 70 all the same, before \<open>b\<close> has answered; that is short as well, and now \<open>b\<close>
  may raise.\<close>

definition after_short :: GameState where
  "after_short = apply_PlayerAllIn ''a'' 60
     (flop_state\<lparr>Players := AList.update ''c'' (flop_player ''c'' 3 30 40 140) (Players flop_state)\<rparr>)"

lemma short_all_in_closes_witness:
  "(\<exists>r. validateRaise (applyAll (apply_PlayerAllIn ''a'' 60 flop_state) [mk_event (EvActionStarted ''b'' None None)])
      200 ''b'' = Some r \<and> Code r = CodeRaiseActionClosed)
   \<and> validateRaise (applyAll (apply_PlayerAllIn ''c'' 70 after_short) [mk_event (EvActionStarted ''b'' None None)])
      200 ''b'' = None"
proof -
  let ?evs = "[mk_event (EvActionStarted ''b'' None None)]"
  let ?st = "applyAll (apply_PlayerAllIn ''a'' 60 flop_state) ?evs"
  have evs: "\<forall>e \<in> set ?evs. \<exists>p. evt_Event e = Some p \<and> answering p" by (simp add: mk_event_def answering_def)
  have v: "validateFold ?st ''b'' = None"
    "validateRaise (applyAll (apply_PlayerAllIn ''c'' 70 after_short) ?evs) 200 ''b'' = None" by code_simp+
  then obtain h2 p2 where c: "can_act ?st ''b'' h2 p2" by (auto simp: fold_None)
  have "''b'' \<in> set (live_others flop_state flop_hand ''a'')"
    by (simp add: live_others_def flop_hand_def sample_hand_def flop_state_def sample_state_def
        player_def flop_player_def empty_PlayerState_def)
  then show ?thesis
    using short_all_in_closes [OF flop_facts(1,2) _ _ _ _ _ evs c, of 200] v(2)
    by (simp add: flop_hand_def sample_hand_def sub64_exact in64_def)
qed

end
