(* ===== verification/HandEval_Correct.thy ===== *)
theory HandEval_Correct
  imports HandEval
begin

text \<open>
  What the hand evaluator computes. The abstract side is the rules of the game: how often a
  rank occurs, whether five cards share a suit or are in sequence, the category that follows
  and the tie-breakers, with no bit layout, no frequency table and no sorting of groups.
  The lemmas connect \<open>eval5\<close> with it, show that comparing two 64-bit ranks compares
  category first and tie-breakers next, and that the combination loop of \<open>bestHand\<close> visits
  every choice of five cards.
\<close>

unbundle bit_operations_syntax

section \<open>The order of the ranks\<close>

text \<open>The categories are ordered by their \<open>iota\<close>.\<close>

instantiation handCat :: linorder
begin

definition less_eq_handCat :: "handCat \<Rightarrow> handCat \<Rightarrow> bool" where
  "less_eq_handCat c d \<longleftrightarrow> cat_code c \<le> cat_code d"

definition less_handCat :: "handCat \<Rightarrow> handCat \<Rightarrow> bool" where
  "less_handCat c d \<longleftrightarrow> cat_code c < cat_code d"

instance
proof
  fix c d :: handCat
  show "c \<le> d \<Longrightarrow> d \<le> c \<Longrightarrow> c = d"
    unfolding less_eq_handCat_def by (cases c; cases d) simp_all
qed (auto simp: less_eq_handCat_def less_handCat_def)

end

definition tb_ok :: "int list \<Rightarrow> bool" where
  "tb_ok tb \<longleftrightarrow> length tb = 5 \<and> (\<forall>t \<in> set tb. 0 \<le> t \<and> t < 16)"

lemma or_digit:
  assumes "2 ^ (k + 4) dvd (w :: 64 word)" and "0 \<le> t" "t < 16"
  shows "w OR push_bit k (word_of_int t) = w + push_bit k (word_of_int t)"
proof -
  have t: "take_bit 4 t = t" using assms(2,3) by (simp add: take_bit_eq_mod)
  have low: "bit t m \<Longrightarrow> m < 4" for m using t by (metis bit_take_bit_iff)
  obtain v where v: "w = push_bit (k + 4) v"
    using assms(1) by (auto simp: dvd_def push_bit_eq_mult mult.commute)
  have "w AND push_bit k (word_of_int t) = 0"
    by (rule bit_eqI) (auto simp: v bit_and_iff bit_push_bit_iff bit_word_of_int_iff dest!: low)
  then show ?thesis by (simp add: disjunctive_add_eq_or)
qed

lemma newHandRank_sum:
  assumes "tb_ok tb"
  shows "newHandRank cat tb =
    word_of_int (int (cat_code cat) * 2 ^ 60 + tb ! 0 * 2 ^ 56 + tb ! 1 * 2 ^ 52 + tb ! 2 * 2 ^ 48
      + tb ! 3 * 2 ^ 44 + tb ! 4 * 2 ^ 40)"
proof -
  have b: "0 \<le> tb ! i" "tb ! i < 16" if "i < 5" for i
    using assms that by (auto simp: tb_ok_def)
  have p: "push_bit k (word_of_int t) = (word_of_int (t * 2 ^ k) :: 64 word)" for k t
    by (simp add: push_bit_eq_mult)
  let ?w0 = "push_bit 60 (word_of_nat (cat_code cat)) :: 64 word"
  have d: "(2::64 word) ^ 60 dvd ?w0" by (simp add: push_bit_eq_mult)
  have dd: "2 ^ k dvd w + push_bit k (word_of_int t)" if "2 ^ (k + 4) dvd w" for w :: "64 word" and k t
  proof (rule dvd_add)
    show "2 ^ k dvd w" using that by (metis dvd_trans le_add1 le_imp_power_dvd)
    show "2 ^ k dvd (push_bit k (word_of_int t) :: 64 word)" by (simp add: push_bit_eq_mult)
  qed
  define w1 where "w1 = ?w0 + push_bit 56 (word_of_int (tb ! 0))"
  define w2 where "w2 = w1 + push_bit 52 (word_of_int (tb ! 1))"
  define w3 where "w3 = w2 + push_bit 48 (word_of_int (tb ! 2))"
  define w4 where "w4 = w3 + push_bit 44 (word_of_int (tb ! 3))"
  define w5 where "w5 = w4 + push_bit 40 (word_of_int (tb ! 4))"
  note ds = w1_def w2_def w3_def w4_def w5_def
  have d1: "2 ^ 56 dvd w1" unfolding w1_def using dd [of 56] d by simp
  have d2: "2 ^ 52 dvd w2" unfolding w2_def using dd [of 52] d1 by simp
  have d3: "2 ^ 48 dvd w3" unfolding w3_def using dd [of 48] d2 by simp
  have d4: "2 ^ 44 dvd w4" unfolding w4_def using dd [of 44] d3 by simp
  have o1: "?w0 OR push_bit 56 (word_of_int (tb ! 0)) = w1"
    unfolding w1_def by (rule or_digit) (use d b in auto)
  have o2: "w1 OR push_bit 52 (word_of_int (tb ! 1)) = w2"
    unfolding w2_def by (rule or_digit) (use d1 b in auto)
  have o3: "w2 OR push_bit 48 (word_of_int (tb ! 2)) = w3"
    unfolding w3_def by (rule or_digit) (use d2 b in auto)
  have o4: "w3 OR push_bit 44 (word_of_int (tb ! 3)) = w4"
    unfolding w4_def by (rule or_digit) (use d3 b in auto)
  have o5: "w4 OR push_bit 40 (word_of_int (tb ! 4)) = w5"
    unfolding w5_def by (rule or_digit) (use d4 b in auto)
  have "newHandRank cat tb = w5"
    unfolding newHandRank_def or.assoc [symmetric] by (simp only: o1 o2 o3 o4 o5)
  also have "\<dots> = word_of_int (int (cat_code cat) * 2 ^ 60 + tb ! 0 * 2 ^ 56 + tb ! 1 * 2 ^ 52
      + tb ! 2 * 2 ^ 48 + tb ! 3 * 2 ^ 44 + tb ! 4 * 2 ^ 40)"
    unfolding ds by (simp add: push_bit_eq_mult)
  finally show ?thesis .
qed

lemma cat_code_le: "cat_code cat \<le> 8"
  by (cases cat) simp_all

lemma cat_code_inj: "cat_code c = cat_code c' \<longleftrightarrow> c = c'"
  by (cases c; cases c') simp_all

lemma tb_okD: "tb_ok tb \<Longrightarrow> i < 5 \<Longrightarrow> 0 \<le> tb ! i \<and> tb ! i < 16"
  by (auto simp: tb_ok_def)

lemma newHandRank_uint:
  assumes "tb_ok tb"
  shows "uint (newHandRank cat tb) = int (cat_code cat) * 2 ^ 60 + tb ! 0 * 2 ^ 56 + tb ! 1 * 2 ^ 52
      + tb ! 2 * 2 ^ 48 + tb ! 3 * 2 ^ 44 + tb ! 4 * 2 ^ 40" (is "_ = ?n")
proof -
  note b = tb_okD [OF assms, of 0] tb_okD [OF assms, of 1] tb_okD [OF assms, of 2]
    tb_okD [OF assms, of 3] tb_okD [OF assms, of 4]
  have "0 \<le> ?n" "?n < 2 ^ 64" using b cat_code_le [of cat] by (simp, simp)
  then show ?thesis unfolding newHandRank_sum [OF assms] uint_word_of_int
    by (intro mod_pos_pos_trivial) simp_all
qed

lemma newHandRank_less_iff:
  assumes "tb_ok t" and "tb_ok t'"
  shows "newHandRank c t < newHandRank c' t' \<longleftrightarrow>
    (c, t) < (c', t')"
proof -
  note b = tb_okD [OF assms(1), of 0] tb_okD [OF assms(1), of 1] tb_okD [OF assms(1), of 2]
    tb_okD [OF assms(1), of 3] tb_okD [OF assms(1), of 4]
    tb_okD [OF assms(2), of 0] tb_okD [OF assms(2), of 1] tb_okD [OF assms(2), of 2]
    tb_okD [OF assms(2), of 3] tb_okD [OF assms(2), of 4]
  obtain a0 a1 a2 a3 a4 where t: "t = [a0, a1, a2, a3, a4]"
    using assms(1) by (auto simp: tb_ok_def numeral_eq_Suc length_Suc_conv)
  obtain b0 b1 b2 b3 b4 where t': "t' = [b0, b1, b2, b3, b4]"
    using assms(2) by (auto simp: tb_ok_def numeral_eq_Suc length_Suc_conv)
  have "newHandRank c t < newHandRank c' t' \<longleftrightarrow> uint (newHandRank c t) < uint (newHandRank c' t')"
    by (simp add: word_less_def)
  also have "\<dots> \<longleftrightarrow> cat_code c < cat_code c' \<or> cat_code c = cat_code c' \<and> t < t'"
    unfolding newHandRank_uint [OF assms(1)] newHandRank_uint [OF assms(2)]
    using b unfolding t t' by simp linarith
  also have "\<dots> \<longleftrightarrow> (c, t) < (c', t')"     using cat_code_inj [of c c'] by (auto simp: less_handCat_def less_eq_handCat_def)
  finally show ?thesis .
qed

section \<open>The rules of the game\<close>

definition ranks_of :: "card list \<Rightarrow> int list" where
  "ranks_of cs = map cardRank cs"

definition mult :: "card list \<Rightarrow> int \<Rightarrow> nat" where
  "mult cs r = count (mset (ranks_of cs)) r"

definition same_suit :: "card list \<Rightarrow> bool" where
  "same_suit cs \<longleftrightarrow> (\<forall>c \<in> set cs. \<forall>c' \<in> set cs. cardSuit c = cardSuit c')"

definition wheel :: "card list \<Rightarrow> bool" where
  "wheel cs \<longleftrightarrow> set (ranks_of cs) = {12, 0, 1, 2, 3}"

definition in_sequence :: "card list \<Rightarrow> bool" where
  "in_sequence cs \<longleftrightarrow> (\<exists>h \<in> set (ranks_of cs). set (ranks_of cs) = {h - 4..h}) \<or> wheel cs"

definition of_a_kind :: "card list \<Rightarrow> nat \<Rightarrow> bool" where
  "of_a_kind cs k \<longleftrightarrow> (\<exists>r \<in> set (ranks_of cs). mult cs r = k)"

definition two_pairs :: "card list \<Rightarrow> bool" where
  "two_pairs cs \<longleftrightarrow> (\<exists>r \<in> set (ranks_of cs). \<exists>r' \<in> set (ranks_of cs).
     r \<noteq> r' \<and> mult cs r = 2 \<and> mult cs r' = 2)"

definition hand_category :: "card list \<Rightarrow> handCat" where
  "hand_category cs =
     (if same_suit cs \<and> in_sequence cs then catStraightFlush
      else if of_a_kind cs 4 then catFourOfAKind
      else if of_a_kind cs 3 \<and> of_a_kind cs 2 then catFullHouse
      else if same_suit cs then catFlush
      else if in_sequence cs then catStraight
      else if of_a_kind cs 3 then catThreeOfAKind
      else if two_pairs cs then catTwoPair
      else if of_a_kind cs 2 then catOnePair
      else catHighCard)"

definition by_kind :: "card list \<Rightarrow> int list" where
  "by_kind cs = rev (sort_key (\<lambda>r. (mult cs r, r)) (ranks_of cs))"

definition hand_ties :: "card list \<Rightarrow> int list" where
  "hand_ties cs =
     (if hand_category cs \<in> {catStraightFlush, catStraight}
      then [if wheel cs then 3 else Max (set (ranks_of cs)), 0, 0, 0, 0]
      else if hand_category cs = catFlush then rev (sort (ranks_of cs))
      else by_kind cs)"

subsection \<open>Frequencies and groups\<close>

lemma cardRank_bounds: "0 \<le> cardRank c \<and> cardRank c < 13"
  by (simp add: cardRank_def)

lemma ranks_of_bounds: "r \<in> set (ranks_of cs) \<Longrightarrow> 0 \<le> r \<and> r < 13"
  using cardRank_bounds by (auto simp: ranks_of_def)

lemma count_ranks_nth:
  "\<forall>r \<in> set rs. 0 \<le> r \<and> r < 13 \<Longrightarrow> length f = 13 \<Longrightarrow> k < 13 \<Longrightarrow>
   count_ranks rs f ! k = f ! k + count (mset rs) (int k)"
proof (induction rs arbitrary: f)
  case (Cons r rs)
  then show ?case by (cases "nat r = k") auto
qed simp

definition raw_groups :: "int list \<Rightarrow> (int \<times> nat) list" where
  "raw_groups rs = filter (\<lambda>g. snd g > 0) (map (\<lambda>r. (int r, count (mset rs) (int r))) [0..<13])"

lemma rank_groups_raw:
  assumes "\<forall>r \<in> set rs. 0 \<le> r \<and> r < 13"
  shows "rank_groups rs = sort_key (\<lambda>g. (- int (snd g), - fst g)) (raw_groups rs)"
proof -
  have "map (\<lambda>r. (int r, count_ranks rs (replicate 13 0) ! r)) [0..<13]
      = map (\<lambda>r. (int r, count (mset rs) (int r))) [0..<13]"
    using count_ranks_nth [OF assms, of "replicate 13 0"] by (intro map_cong) auto
  then show ?thesis unfolding rank_groups_def raw_groups_def by (simp only: Let_def)
qed

lemma set_raw_groups:
  assumes "\<forall>r \<in> set rs. 0 \<le> r \<and> r < 13"
  shows "set (raw_groups rs) = (\<lambda>r. (r, count (mset rs) r)) ` set rs"
proof (rule set_eqI, clarify)
  fix r n
  have "(r, n) \<in> set (raw_groups rs) \<longleftrightarrow>
      (\<exists>k < 13. r = int k \<and> n = count (mset rs) (int k) \<and> n > 0)"
    by (auto simp: raw_groups_def)
  also have "\<dots> \<longleftrightarrow> n = count (mset rs) r \<and> r \<in> set rs"
  proof
    assume "\<exists>k < 13. r = int k \<and> n = count (mset rs) (int k) \<and> n > 0"
    then show "n = count (mset rs) r \<and> r \<in> set rs"
      by (auto simp: count_greater_zero_iff)
  next
    assume *: "n = count (mset rs) r \<and> r \<in> set rs"
    then have "0 \<le> r" "r < 13" using assms by auto
    then show "\<exists>k < 13. r = int k \<and> n = count (mset rs) (int k) \<and> n > 0"
      using * by (intro exI [of _ "nat r"]) (auto simp: count_greater_zero_iff)
  qed
  finally show "((r, n) \<in> set (raw_groups rs)) = ((r, n) \<in> (\<lambda>r. (r, count (mset rs) r)) ` set rs)"
    by auto
qed

lemma distinct_fst_raw_groups: "distinct (map fst (raw_groups rs))"
proof -
  have "distinct (map fst (map (\<lambda>r. (int r, count (mset rs) (int r))) [0..<13]))"
    by (simp add: comp_def distinct_map inj_on_def)
  then show ?thesis unfolding raw_groups_def by (rule distinct_map_filter)
qed

text \<open>What the sorted groups are.\<close>

definition expand :: "(int \<times> nat) list \<Rightarrow> int list" where
  "expand gs = concat (map (\<lambda>g. replicate (snd g) (fst g)) gs)"

lemma mset_expand:
  "mset (expand gs) = sum_mset (image_mset (\<lambda>g. replicate_mset (snd g) (fst g)) (mset gs))"
  unfolding expand_def by (induction gs) auto

lemma mset_expand_cong: "mset gs = mset gs' \<Longrightarrow> mset (expand gs) = mset (expand gs')"
  by (simp add: mset_expand)

lemma count_expand:
  "distinct (map fst gs) \<Longrightarrow> count (mset (expand gs)) r = (case map_of gs r of None \<Rightarrow> 0 | Some n \<Rightarrow> n)"
proof (induction gs)
  case (Cons g gs)
  have "fst g \<notin> fst ` set gs" using Cons.prems by simp
  then have "map_of gs (fst g) = None" by (simp add: map_of_eq_None_iff)
  then show ?case using Cons by (cases g) (auto simp: expand_def)
qed (simp add: expand_def)

lemma mset_expand_raw:
  assumes "\<forall>r \<in> set rs. 0 \<le> r \<and> r < 13"
  shows "mset (expand (raw_groups rs)) = mset rs"
proof (rule multiset_eqI)
  fix r
  show "count (mset (expand (raw_groups rs))) r = count (mset rs) r"
  proof (cases "r \<in> set rs")
    case True
    then have "(r, count (mset rs) r) \<in> set (raw_groups rs)" using set_raw_groups [OF assms] by auto
    then have "map_of (raw_groups rs) r = Some (count (mset rs) r)"
      using distinct_fst_raw_groups by (simp add: map_of_is_SomeI)
    then show ?thesis by (simp add: count_expand distinct_fst_raw_groups)
  next
    case False
    then have "r \<notin> fst ` set (raw_groups rs)" using set_raw_groups [OF assms] by auto
    then have "map_of (raw_groups rs) r = None" by (simp add: map_of_eq_None_iff)
    then show ?thesis using False
      by (simp add: count_expand distinct_fst_raw_groups count_eq_zero_iff [symmetric] not_in_iff)
  qed
qed


lemma set_expand: "x \<in> set (expand gs) \<Longrightarrow> \<exists>g \<in> set gs. x = fst g"
  by (auto simp: expand_def)

lemma sorted_wrt_expand:
  assumes "\<And>x. P x x" and "sorted_wrt (\<lambda>g h. P (fst g) (fst h)) gs"
  shows "sorted_wrt P (expand gs)"
  using assms(2)
proof (induction gs)
  case (Cons g gs)
  have "sorted_wrt P (replicate n x)" for n x using assms(1) by (induction n) auto
  moreover have "P (fst g) y" if "y \<in> set (expand gs)" for y
    using that Cons.prems by (auto dest: set_expand)
  moreover have "expand (g # gs) = replicate (snd g) (fst g) @ expand gs" by (simp add: expand_def)
  ultimately show ?case using Cons by (auto simp: sorted_wrt_append)
qed (simp add: expand_def)

lemma expand_groups:
  assumes "\<forall>r \<in> set rs. 0 \<le> r \<and> r < 13"
  shows "expand (rank_groups rs) = rev (sort_key (\<lambda>r. (count (mset rs) r, r)) rs)"
proof -
  let ?k = "\<lambda>g. (- int (snd g), - fst g)" and ?G = "rank_groups rs"
  have G: "?G = sort_key ?k (raw_groups rs)" by (rule rank_groups_raw [OF assms])
  have ms: "mset (rev (expand ?G)) = mset rs"
    using mset_expand_cong [of ?G "raw_groups rs"] mset_expand_raw [OF assms] G by simp
  have cnt: "snd g = count (mset rs) (fst g)" if "g \<in> set ?G" for g
    using that set_raw_groups [OF assms] G by auto
  have "sorted (map ?k ?G)" unfolding G by simp
  then have "sorted_wrt (\<lambda>g h. (snd h, fst h) \<le> (snd g, fst g)) ?G"
    unfolding sorted_map by (rule sorted_wrt_mono_rel [rotated]) auto
  then have "sorted_wrt (\<lambda>g h. (count (mset rs) (fst h), fst h) \<le> (count (mset rs) (fst g), fst g)) ?G"
    by (rule sorted_wrt_mono_rel [rotated]) (use cnt in auto)
  then have "sorted_wrt (\<lambda>x y. (count (mset rs) y, y) \<le> (count (mset rs) x, x)) (expand ?G)"
    by (rule sorted_wrt_expand [rotated]) simp
  then have "sorted (map (\<lambda>r. (count (mset rs) r, r)) (rev (expand ?G)))"
    by (simp add: sorted_map sorted_wrt_rev rev_map)
  then have "sort_key (\<lambda>r. (count (mset rs) r, r)) rs = rev (expand ?G)"
    by (intro sort_key_inj_key_eq) (use ms in \<open>auto simp: inj_on_def\<close>)
  then show ?thesis by simp
qed


subsection \<open>The counts of five cards\<close>

fun partitions :: "nat \<Rightarrow> nat \<Rightarrow> nat list list" where
  "partitions n m = (if n = 0 then [[]]
     else concat (map (\<lambda>a. map (Cons a) (partitions (n - a) a)) [1..<Suc (min n m)]))"

declare partitions.simps [simp del]

lemma in_partitions:
  "sorted_wrt (\<ge>) xs \<Longrightarrow> \<forall>x \<in> set xs. 0 < x \<and> x \<le> m \<Longrightarrow> xs \<in> set (partitions (sum_list xs) m)"
proof (induction xs arbitrary: m)
  case (Cons x xs)
  then have "xs \<in> set (partitions (sum_list xs) x)" by auto
  then show ?case using Cons.prems
    by (subst partitions.simps) (auto simp del: upt_Suc intro!: bexI [of _ x])
qed (simp add: partitions.simps)

lemma partition_of_five:
  assumes "sorted_wrt (\<ge>) xs" "\<forall>x \<in> set xs. 0 < x" "sum_list xs = (5 :: nat)"
  shows "xs \<in> {[5], [4, 1], [3, 2], [3, 1, 1], [2, 2, 1], [2, 1, 1, 1], [1, 1, 1, 1, 1]}"
proof -
  have "\<forall>x \<in> set xs. 0 < x \<and> x \<le> 5" using assms(2,3) member_le_sum_list by fastforce
  then have "xs \<in> set (partitions 5 5)" using in_partitions [OF assms(1), of 5] assms(3) by simp
  moreover have "partitions 5 5 = [[1, 1, 1, 1, 1], [2, 1, 1, 1], [2, 2, 1], [3, 1, 1], [3, 2],
      [4, 1], [5]]"
    by code_simp
  ultimately show ?thesis by auto
qed

lemma groups_counts:
  assumes "length rs = 5" "\<forall>r \<in> set rs. 0 \<le> r \<and> r < 13"
  shows "map snd (rank_groups rs) \<in>
    {[5], [4, 1], [3, 2], [3, 1, 1], [2, 2, 1], [2, 1, 1, 1], [1, 1, 1, 1, 1]}"
proof (rule partition_of_five)
  let ?k = "\<lambda>g. (- int (snd g), - fst g)" and ?G = "rank_groups rs"
  have G: "?G = sort_key ?k (raw_groups rs)" by (rule rank_groups_raw [OF assms(2)])
  have "sorted (map ?k ?G)" unfolding G by simp
  then have "sorted_wrt (\<lambda>g h. snd g \<ge> snd h) ?G"
    unfolding sorted_map by (rule sorted_wrt_mono_rel [rotated]) (auto simp: less_eq_prod_def)
  then show "sorted_wrt (\<ge>) (map snd ?G)" by (simp add: sorted_wrt_map)
  show "\<forall>x \<in> set (map snd ?G). 0 < x" unfolding G by (auto simp: raw_groups_def)
  have "length (expand gs) = sum_list (map snd gs)" for gs
    unfolding expand_def by (induction gs) auto
  then have "sum_list (map snd ?G) = length (expand ?G)" by simp
  also have "\<dots> = length rs" by (simp add: expand_groups [OF assms(2)])
  finally show "sum_list (map snd ?G) = 5" using assms(1) by simp
qed

lemma set_groups:
  assumes "\<forall>r \<in> set rs. 0 \<le> r \<and> r < 13"
  shows "set (rank_groups rs) = (\<lambda>r. (r, count (mset rs) r)) ` set rs"
    and "distinct (map fst (rank_groups rs))"
proof -
  have "mset (rank_groups rs) = mset (raw_groups rs)" by (simp add: rank_groups_raw [OF assms])
  then show "set (rank_groups rs) = (\<lambda>r. (r, count (mset rs) r)) ` set rs"
    using set_raw_groups [OF assms] by (metis set_mset_mset)
  show "distinct (map fst (rank_groups rs))"
    using distinct_fst_raw_groups [of rs] \<open>mset (rank_groups rs) = mset (raw_groups rs)\<close>
    by (metis mset_eq_imp_distinct_iff mset_map)
qed

subsection \<open>The category\<close>

lemma of_a_kind_groups:
  assumes "length cs = 5"
  shows "of_a_kind cs k \<longleftrightarrow> k \<in> set (map snd (rank_groups (ranks_of cs)))"
proof -
  have "\<forall>r \<in> set (ranks_of cs). 0 \<le> r \<and> r < 13" using ranks_of_bounds by blast
  then show ?thesis by (auto simp: of_a_kind_def mult_def set_groups image_image)
qed

lemma two_pairs_groups:
  assumes "length cs = 5"
  shows "two_pairs cs \<longleftrightarrow> map snd (rank_groups (ranks_of cs)) = [2, 2, 1]"
proof -
  let ?G = "rank_groups (ranks_of cs)"
  have b: "\<forall>r \<in> set (ranks_of cs). 0 \<le> r \<and> r < 13" using ranks_of_bounds by blast
  have len: "length (ranks_of cs) = 5" using assms by (simp add: ranks_of_def)
  have "two_pairs cs \<longleftrightarrow> (\<exists>g \<in> set ?G. \<exists>h \<in> set ?G. fst g \<noteq> fst h \<and> snd g = 2 \<and> snd h = 2)"
    by (auto simp: two_pairs_def mult_def set_groups [OF b])
  also have "\<dots> \<longleftrightarrow> map snd ?G = [2, 2, 1]"
    using groups_counts [OF len b] set_groups(2) [OF b]
    by (auto simp: map_eq_Cons_conv)
  finally show ?thesis .
qed


lemma length5: "length xs = 5 \<Longrightarrow> \<exists>a b c d e. xs = [a, b, c, d, e]"
  by (auto simp: numeral_eq_Suc length_Suc_conv)

lemma run_of_five:
  assumes "a \<ge> b" "b \<ge> c" "c \<ge> d" "d \<ge> (e :: int)"
  shows "(a - e = 4 \<and> a \<noteq> b \<and> b \<noteq> c \<and> c \<noteq> d \<and> d \<noteq> e)
    \<longleftrightarrow> (\<exists>h \<in> {a, b, c, d, e}. {a, b, c, d, e} = {h - 4..h})" (is "?L \<longleftrightarrow> ?R")
proof
  assume ?L
  then have "b = a - 1" "c = a - 2" "d = a - 3" "e = a - 4" using assms by linarith+
  moreover have "{a - 4..a} = {a, a - 1, a - 2, a - 3, a - 4}" by auto
  ultimately show ?R by auto
next
  assume ?R
  then obtain h where h: "{a, b, c, d, e} = {h - 4..h}" by blast
  then have "h \<in> {a, b, c, d, e}" "h - 4 \<in> {a, b, c, d, e}" "a \<in> {h - 4..h}" "e \<in> {h - 4..h}"
    by auto
  then have ae: "a = h" "e = h - 4" using assms by auto
  have "card {a, b, c, d, e} = 5" using h by simp
  then have "distinct [a, b, c, d, e]" by (intro card_distinct) simp
  then show ?L using ae by auto
qed

lemma detectStraight_spec:
  assumes "length cs = 5"
  shows "detectStraight (rev (sort (ranks_of cs))) =
    (in_sequence cs,
     if in_sequence cs then if wheel cs then 3 else Max (set (ranks_of cs)) else 0)"
proof -
  let ?rs = "rev (sort (ranks_of cs))"
  have "length ?rs = 5" using assms by (simp add: ranks_of_def)
  then obtain a b c d e where rs: "?rs = [a, b, c, d, e]" using length5 by blast
  have "sorted (rev ?rs)" by simp
  then have o: "a \<ge> b" "b \<ge> c" "c \<ge> d" "d \<ge> e" unfolding rs by auto
  have set: "set (ranks_of cs) = {a, b, c, d, e}"
    using arg_cong [OF rs, of set] by simp
  have max: "Max {a, b, c, d, e} = a" using o by (intro Max_eqI) auto
  have w: "wheel cs \<longleftrightarrow> a = 12 \<and> b = 3 \<and> c = 2 \<and> d = 1 \<and> e = 0"
  proof
    assume "wheel cs"
    then have eq: "{a, b, c, d, e} = {12, 0, 1, 2, 3}" unfolding wheel_def set by simp
    then have "card {a, b, c, d, e} = 5" by simp
    then have "distinct [a, b, c, d, e]" by (intro card_distinct) simp
    moreover have "set [e, d, c, b, a] = {a, b, c, d, e}" "set [0, 1, 2, 3, 12] = {12, 0, 1, 2, 3 :: int}"
      by auto
    moreover from calculation(1) have "distinct [e, d, c, b, a]" by auto
    ultimately have "[e, d, c, b, a] = [0, 1, 2, 3, 12]"
      using o eq by (intro sorted_distinct_set_unique) simp_all
    then show "a = 12 \<and> b = 3 \<and> c = 2 \<and> d = 1 \<and> e = 0" by simp
  qed (auto simp: wheel_def set)
  show ?thesis
    unfolding in_sequence_def set run_of_five [OF o, symmetric] w max rs detectStraight_def
    by auto
qed

lemma same_suit_spec:
  assumes "length cs = 5"
  shows "same_suit cs \<longleftrightarrow> (let s = map cardSuit cs in
    s ! 0 = s ! 1 \<and> s ! 1 = s ! 2 \<and> s ! 2 = s ! 3 \<and> s ! 3 = s ! 4)"
proof -
  obtain a b c d e where "cs = [a, b, c, d, e]"
    using assms by (auto simp: numeral_eq_Suc length_Suc_conv)
  then show ?thesis by (auto simp: same_suit_def)
qed

lemma rank_groups_sorted:
  assumes "\<forall>r \<in> set rs. 0 \<le> r \<and> r < 13"
  shows "rank_groups (rev (sort rs)) = rank_groups rs"
proof -
  have "\<forall>r \<in> set (rev (sort rs)). 0 \<le> r \<and> r < 13" using assms by simp
  then show ?thesis by (simp add: rank_groups_raw [OF assms] rank_groups_raw raw_groups_def)
qed

lemma tie_breakers_spec:
  assumes "length cs = 5"
  shows "tie_breakers (rank_groups (ranks_of cs)) = by_kind cs"
proof -
  have b: "\<forall>r \<in> set (ranks_of cs). 0 \<le> r \<and> r < 13" using ranks_of_bounds by blast
  have "expand (rank_groups (ranks_of cs)) = by_kind cs"
    using expand_groups [OF b] by (simp add: by_kind_def mult_def)
  moreover have "length (by_kind cs) = 5" using assms by (simp add: by_kind_def ranks_of_def)
  ultimately show ?thesis by (simp add: tie_breakers_def expand_def)
qed

lemma sorted_ranks_list: "length rs = 5 \<Longrightarrow> [rs ! 0, rs ! 1, rs ! 2, rs ! 3, rs ! 4] = rs"
  by (auto simp: numeral_eq_Suc length_Suc_conv)

lemma eval5_value':
  assumes "length cs = 5"
  shows "fst (eval5 cs) = newHandRank (hand_category cs) (hand_ties cs)"
proof -
  let ?G = "rank_groups (ranks_of cs)" and ?rs = "rev (sort (ranks_of cs))"
  have b: "\<forall>r \<in> set (ranks_of cs). 0 \<le> r \<and> r < 13" using ranks_of_bounds by blast
  have len: "length (ranks_of cs) = 5" using assms by (simp add: ranks_of_def)
  have G: "map snd ?G \<in> {[5], [4, 1], [3, 2], [3, 1, 1], [2, 2, 1], [2, 1, 1, 1], [1, 1, 1, 1, 1]}"
    by (rule groups_counts [OF len b])
  have top: "snd (?G ! 0) = map snd ?G ! 0"
    and second: "snd (if length ?G > 1 then ?G ! 1 else (0, 0)) =
      (if length (map snd ?G) > 1 then map snd ?G ! 1 else 0)"
    using G by (auto intro!: nth_map [symmetric])
  have flush: "[?rs ! 0, ?rs ! 1, ?rs ! 2, ?rs ! 3, ?rs ! 4] = ?rs"
    using len by (intro sorted_ranks_list) simp
  note kinds = of_a_kind_groups [OF assms] two_pairs_groups [OF assms]
  note facts = same_suit_spec [OF assms, unfolded Let_def, symmetric] detectStraight_spec [OF assms]
    tie_breakers_spec [OF assms] ranks_of_def [symmetric] rank_groups_sorted [OF b] flush
  have "fst (eval5 cs) = (let s1 = snd (?G ! 0); s2 = snd (if length ?G > 1 then ?G ! 1 else (0, 0));
      hi = (if wheel cs then 3 else Max (set (ranks_of cs))) in
      if same_suit cs \<and> in_sequence cs then newHandRank catStraightFlush [hi, 0, 0, 0, 0]
      else if s1 = 4 then newHandRank catFourOfAKind (by_kind cs)
      else if s1 = 3 \<and> s2 = 2 then newHandRank catFullHouse (by_kind cs)
      else if same_suit cs then newHandRank catFlush ?rs
      else if in_sequence cs then newHandRank catStraight [hi, 0, 0, 0, 0]
      else if s1 = 3 then newHandRank catThreeOfAKind (by_kind cs)
      else if s1 = 2 \<and> s2 = 2 then newHandRank catTwoPair (by_kind cs)
      else if s1 = 2 then newHandRank catOnePair (by_kind cs)
      else newHandRank catHighCard (by_kind cs))"
    unfolding eval5_def Let_def facts by (cases "in_sequence cs") simp_all
  also have "\<dots> = newHandRank (hand_category cs) (hand_ties cs)"
    using G unfolding Let_def top second hand_ties_def hand_category_def kinds
    by (elim insertE emptyE) simp_all
  finally show ?thesis .
qed

lemma tb_ok_hand_ties:
  assumes "length cs = 5"
  shows "tb_ok (hand_ties cs)"
proof -
  have b: "0 \<le> r \<and> r < 16" if "r \<in> set (ranks_of cs)" for r using ranks_of_bounds [OF that] by simp
  have len: "length (ranks_of cs) = 5" using assms by (simp add: ranks_of_def)
  then have "Max (set (ranks_of cs)) \<in> set (ranks_of cs)" by (intro Max_in) auto
  with b len show ?thesis by (auto simp: tb_ok_def hand_ties_def by_kind_def)
qed

section \<open>The combination loop\<close>

definition comb :: "nat \<Rightarrow> nat list \<Rightarrow> bool" where
  "comb n x \<longleftrightarrow> length x = 5 \<and> sorted_wrt (<) x \<and> (\<forall>i \<in> set x. i < n)"

lemma comb_list: "comb n x \<Longrightarrow>
  \<exists>a b c d e. x = [a, b, c, d, e] \<and> a < b \<and> b < c \<and> c < d \<and> d < e \<and> e < n"
  by (auto simp: comb_def numeral_eq_Suc length_Suc_conv)

lemma combI: "a < b \<Longrightarrow> b < c \<Longrightarrow> c < d \<Longrightarrow> d < e \<Longrightarrow> e < n \<Longrightarrow> comb n [a, b, c, d, e]"
  by (auto simp: comb_def)

lemma next_comb_eq:
  "next_comb (m + 5) [a, b, c, d, e] =
    (if e \<noteq> m + 4 then Some [a, b, c, d, e + 1]
     else if d \<noteq> m + 3 then Some [a, b, c, d + 1, d + 2]
     else if c \<noteq> m + 2 then Some [a, b, c + 1, c + 2, c + 3]
     else if b \<noteq> m + 1 then Some [a, b + 1, b + 2, b + 3, b + 4]
     else if a \<noteq> m then Some [a + 1, a + 2, a + 3, a + 4, a + 5]
     else None)"
  unfolding next_comb_def by (simp add: numeral_eq_Suc upt_rec)

lemma comb_cases:
  assumes "comb n x"
  obtains m a b c d e where "n = m + 5" "x = [a, b, c, d, e]" "a < b" "b < c" "c < d" "d < e"
    "e < m + 5"
proof -
  obtain a b c d e where x: "x = [a, b, c, d, e]" "a < b" "b < c" "c < d" "d < e" "e < n"
    using comb_list [OF assms] by blast
  moreover have "n = n - 5 + 5" using x by linarith
  ultimately show thesis using that by metis
qed

lemma next_comb_None:
  assumes "comb n x" "next_comb n x = None" "comb n y" "x \<le> y"
  shows "y = x"
  using assms(1)
proof (cases rule: comb_cases)
  case x: (1 m a b c d e)
  obtain a' b' c' d' e' where y: "y = [a', b', c', d', e']" "a' < b'" "b' < c'" "c' < d'"
    "d' < e'" "e' < n"
    using comb_list [OF assms(3)] by blast
  have "a = m" "b = m + 1" "c = m + 2" "d = m + 3" "e = m + 4"
    using assms(2) unfolding x(1,2) next_comb_eq by (auto split: if_splits)
  then show ?thesis using assms(4) y(2-) unfolding x(1,2) y(1) by auto
qed

lemma next_comb_Some:
  assumes "comb n x" "next_comb n x = Some z"
  shows "comb n z \<and> x < z \<and> (\<forall>y. comb n y \<and> x < y \<longrightarrow> z \<le> y)"
  using assms(1)
proof (cases rule: comb_cases)
  case x: (1 m a b c d e)
  have z: "comb n z \<and> x < z"
    using assms(2) x(3-) unfolding x(1,2) next_comb_eq
    by (auto intro!: combI split: if_splits)
  have "z \<le> y" if cy: "comb n y" and xy: "x < y" for y
  proof -
    obtain a' b' c' d' e' where y: "y = [a', b', c', d', e']" "a' < b'" "b' < c'" "c' < d'"
      "d' < e'" "e' < n"
      using comb_list [OF cy] by blast
    show ?thesis using assms(2) x(3-) y(2-) xy unfolding x(1,2) y(1) next_comb_eq
      by (auto split: if_splits)
  qed
  with z show ?thesis by blast
qed

text \<open>The loop visits exactly the combinations from \<open>idx\<close> on.\<close>

lemma finite_comb: "finite {y. comb n y}"
proof -
  have "{y. comb n y} \<subseteq> {y. set y \<subseteq> {..<n} \<and> length y = 5}" by (auto simp: comb_def)
  then show ?thesis by (rule finite_subset) (simp add: finite_lists_length_eq)
qed

lemma best_loop_fold:
  assumes "comb (length pool) idx"
  shows "\<exists>enum. set enum = {y. comb (length pool) y \<and> idx \<le> y} \<and>
    best_loop pool idx acc = Some (fold (consider_five pool) enum acc)"
  using assms
proof (induction "card {y. comb (length pool) y \<and> idx < y}" arbitrary: idx acc rule: less_induct)
  case less
  let ?n = "length pool" and ?acc = "consider_five pool idx acc"
  show ?case
  proof (cases "next_comb ?n idx")
    case None
    have "{y. comb ?n y \<and> idx \<le> y} = {idx}"
      using next_comb_None [OF less.prems None] less.prems by auto
    then show ?thesis using None
      by (intro exI [of _ "[idx]"]) (subst best_loop.simps, simp)
  next
    case (Some z)
    note z = next_comb_Some [OF less.prems Some]
    have "{y. comb ?n y \<and> z < y} \<subset> {y. comb ?n y \<and> idx < y}" using z by auto
    then have "card {y. comb ?n y \<and> z < y} < card {y. comb ?n y \<and> idx < y}"
      by (intro psubset_card_mono) (rule finite_subset [OF _ finite_comb], auto)
    then obtain enum where e: "set enum = {y. comb ?n y \<and> z \<le> y}"
      "best_loop pool z ?acc = Some (fold (consider_five pool) enum ?acc)"
      using less.hyps z by blast
    have "{y. comb ?n y \<and> idx \<le> y} = insert idx {y. comb ?n y \<and> z \<le> y}"
      using z less.prems by (auto simp: order_le_less)
    then show ?thesis using e Some
      by (intro exI [of _ "idx # enum"]) (subst best_loop.simps, simp)
  qed
qed


text \<open>Its result is the best of what it visits.\<close>

lemma fold_consider_five:
  "\<exists>r five desc. fold (consider_five pool) enum (b, cs, d, False) = (r, five, desc, False)
     \<and> b \<le> r \<and> (\<forall>x \<in> set enum. fst (eval5 (map ((!) pool) x)) \<le> r)
     \<and> ((r, five, desc) = (b, cs, d)
        \<or> (\<exists>x \<in> set enum. five = map ((!) pool) x \<and> eval5 five = (r, desc)))"
proof (induction enum arbitrary: b cs d)
  case (Cons x enum)
  let ?five = "map ((!) pool) x"
  obtain r0 d0 where e: "eval5 ?five = (r0, d0)" by fastforce
  show ?case
  proof (cases "r0 > b")
    case True
    then have "consider_five pool x (b, cs, d, False) = (r0, ?five, d0, False)"
      by (simp add: consider_five_def e)
    moreover obtain r five desc where f:
      "fold (consider_five pool) enum (r0, ?five, d0, False) = (r, five, desc, False)" "r0 \<le> r"
      "\<forall>x \<in> set enum. fst (eval5 (map ((!) pool) x)) \<le> r"
      "(r, five, desc) = (r0, ?five, d0)
         \<or> (\<exists>x \<in> set enum. five = map ((!) pool) x \<and> eval5 five = (r, desc))"
      using Cons.IH [of r0 ?five d0] by metis
    moreover have "b \<le> r" using True f(2) by simp
    moreover have "\<exists>y \<in> set (x # enum). five = map ((!) pool) y \<and> eval5 five = (r, desc)"
      using f(4) e by auto
    ultimately show ?thesis using e by simp
  next
    case False
    then have "consider_five pool x (b, cs, d, False) = (b, cs, d, False)"
      by (simp add: consider_five_def e)
    moreover obtain r five desc where f:
      "fold (consider_five pool) enum (b, cs, d, False) = (r, five, desc, False)" "b \<le> r"
      "\<forall>x \<in> set enum. fst (eval5 (map ((!) pool) x)) \<le> r"
      "(r, five, desc) = (b, cs, d)
         \<or> (\<exists>x \<in> set enum. five = map ((!) pool) x \<and> eval5 five = (r, desc))"
      using Cons.IH [of b cs d] by metis
    moreover have "r0 \<le> r" using False f(2) by simp
    moreover have "(r, five, desc) = (b, cs, d)
        \<or> (\<exists>y \<in> set (x # enum). five = map ((!) pool) y \<and> eval5 five = (r, desc))"
      using f(4) by auto
    ultimately show ?thesis using e by simp
  qed
qed simp

lemma best_loop_result:
  assumes "comb (length pool) idx"
  shows "\<exists>r five desc x. best_loop pool idx (b, cs, d, True) = Some (r, five, desc, False)
     \<and> comb (length pool) x \<and> five = map ((!) pool) x \<and> eval5 five = (r, desc)
     \<and> (\<forall>y. comb (length pool) y \<and> idx \<le> y \<longrightarrow> fst (eval5 (map ((!) pool) y)) \<le> r)"
proof -
  obtain enum where enum: "set enum = {y. comb (length pool) y \<and> idx \<le> y}"
    "best_loop pool idx (b, cs, d, True) = Some (fold (consider_five pool) enum (b, cs, d, True))"
    using best_loop_fold [OF assms] by blast
  then obtain z zs where z: "enum = z # zs" using assms by (cases enum) auto
  obtain r0 d0 where e: "eval5 (map ((!) pool) z) = (r0, d0)" by fastforce
  have "consider_five pool z (b, cs, d, True) = (r0, map ((!) pool) z, d0, False)"
    by (simp add: consider_five_def e)
  then have "best_loop pool idx (b, cs, d, True)
      = Some (fold (consider_five pool) zs (r0, map ((!) pool) z, d0, False))"
    using enum(2) z by simp
  moreover obtain r five desc where
    "fold (consider_five pool) zs (r0, map ((!) pool) z, d0, False) = (r, five, desc, False)"
    "r0 \<le> r" "\<forall>x \<in> set zs. fst (eval5 (map ((!) pool) x)) \<le> r"
    "(r, five, desc) = (r0, map ((!) pool) z, d0)
       \<or> (\<exists>x \<in> set zs. five = map ((!) pool) x \<and> eval5 five = (r, desc))"
    using fold_consider_five by blast
  moreover have "\<exists>x \<in> set enum. five = map ((!) pool) x \<and> eval5 five = (r, desc)"
    using calculation(5) e z by auto
  moreover have "\<forall>x \<in> set enum. fst (eval5 (map ((!) pool) x)) \<le> r"
    using calculation(3,4) e z by simp
  ultimately show ?thesis using enum(1) by auto
qed

text \<open>Five cards of the pool, in whatever order, are some combination of its positions.\<close>

lemma submset_subseq: "mset ys \<subseteq># mset pool \<Longrightarrow> \<exists>zs. subseq zs pool \<and> mset zs = mset ys"
proof (induction pool arbitrary: ys)
  case (Cons p ps)
  show ?case
  proof (cases "p \<in> set ys")
    case True
    then have "mset (remove1 p ys) \<subseteq># mset ps"
      using Cons.prems by (simp add: subset_eq_diff_conv)
    then obtain zs where "subseq zs ps" "mset zs = mset (remove1 p ys)" using Cons.IH by blast
    then show ?thesis using True by (intro exI [of _ "p # zs"]) simp
  next
    case False
    then have "mset ys \<subseteq># mset ps" using Cons.prems
      by (simp add: subseteq_mset_def) (metis count_mset_0_iff zero_le)
    then obtain zs where "subseq zs ps" "mset zs = mset ys" using Cons.IH by blast
    then show ?thesis by (intro exI [of _ zs]) (auto intro: list_emb_Cons)
  qed
qed simp

lemma subseq_positions:
  "subseq zs pool \<Longrightarrow> \<exists>is. sorted_wrt (<) is \<and> (\<forall>i \<in> set is. i < length pool) \<and> zs = map ((!) pool) is"
proof (induction zs pool rule: list_emb.induct)
  case (list_emb_Nil ys)
  then show ?case by (intro exI [of _ "[]"]) simp
next
  case (list_emb_Cons xs ys y)
  then obtain "is" where "sorted_wrt (<) is" "\<forall>i \<in> set is. i < length ys" "xs = map ((!) ys) is"
    by blast
  then show ?case by (intro exI [of _ "map Suc is"]) (auto simp: sorted_wrt_map)
next
  case (list_emb_Cons2 x y xs ys)
  then obtain "is" where "sorted_wrt (<) is" "\<forall>i \<in> set is. i < length ys" "xs = map ((!) ys) is"
    by blast
  then show ?case using list_emb_Cons2
    by (intro exI [of _ "0 # map Suc is"]) (auto simp: sorted_wrt_map)
qed

lemma five_of_pool:
  assumes "length ys = 5" and "mset ys \<subseteq># mset pool"
  obtains x where "comb (length pool) x" "mset (map ((!) pool) x) = mset ys"
proof -
  obtain zs where zs: "subseq zs pool" "mset zs = mset ys" using submset_subseq [OF assms(2)] by blast
  then obtain x where x: "sorted_wrt (<) x" "\<forall>i \<in> set x. i < length pool" "zs = map ((!) pool) x"
    using subseq_positions by blast
  have "length zs = 5" using zs(2) assms(1) by (metis size_mset)
  then have "comb (length pool) x" using x by (auto simp: comb_def)
  then show thesis using that x zs by blast
qed

lemma comb_submset: "comb (length pool) x \<Longrightarrow> mset (map ((!) pool) x) \<subseteq># mset pool"
proof -
  assume "comb (length pool) x"
  then have x: "distinct x" "set x \<subseteq> {..<length pool}"
    by (auto simp: comb_def strict_sorted_iff)
  then have "mset x \<subseteq># mset [0..<length pool]"
    by (simp add: mset_set_set [symmetric] subset_imp_msubset_mset_set lessThan_atLeast0)
  then have "image_mset ((!) pool) (mset x) \<subseteq># image_mset ((!) pool) (mset [0..<length pool])"
    by (rule image_mset_subseteq_mono)
  moreover have "image_mset ((!) pool) (mset [0..<length pool]) = mset pool"
    by (metis map_nth mset_map)
  ultimately show ?thesis by simp
qed

text \<open>The order of the five cards does not matter.\<close>

lemma eval5_mset:
  assumes "length cs = 5" and "mset cs = mset cs'"
  shows "fst (eval5 cs) = fst (eval5 cs')"
proof -
  have len: "length cs' = 5" using assms by (metis size_mset)
  have s: "set cs = set cs'" using assms(2) by (metis set_mset_mset)
  have r: "mset (ranks_of cs) = mset (ranks_of cs')" using assms(2) by (simp add: ranks_of_def)
  then have sr: "set (ranks_of cs) = set (ranks_of cs')" by (metis set_mset_mset)
  have m: "mult cs = mult cs'" by (rule ext) (simp add: mult_def r)
  have "by_kind cs = by_kind cs'" using sort_key_mset_cong [OF r, of "\<lambda>r. (mult cs' r, r)"]
    by (simp add: by_kind_def m inj_on_def)
  moreover have "sort (ranks_of cs) = sort (ranks_of cs')"
    using sort_key_mset_cong [OF r, of "\<lambda>x. x"] by (simp add: inj_on_def)
  moreover have "hand_category cs = hand_category cs'"
    unfolding hand_category_def same_suit_def in_sequence_def wheel_def of_a_kind_def
      two_pairs_def s sr m ..
  ultimately have "hand_ties cs = hand_ties cs'" by (simp add: hand_ties_def wheel_def sr)
  with \<open>hand_category cs = hand_category cs'\<close> show ?thesis
    by (simp add: eval5_value' assms(1) len)
qed

lemma bestHand_result:
  assumes "3 \<le> length board"
  shows "\<exists>r five desc. bestHand c1 c2 board = Some (r, five, desc) \<and> length five = 5
    \<and> mset five \<subseteq># mset (c1 # c2 # board) \<and> eval5 five = (r, desc)
    \<and> (\<forall>ys. length ys = 5 \<and> mset ys \<subseteq># mset (c1 # c2 # board) \<longrightarrow> fst (eval5 ys) \<le> r)"
proof -
  let ?pool = "c1 # c2 # board"
  have least: "[0, 1, 2, 3, 4] \<le> y" if "comb n y" for n y
    using comb_list [OF that] by fastforce
  have "comb (length ?pool) [0, 1, 2, 3, 4]" using assms by (intro combI) simp_all
  from best_loop_result [OF this, of 0 "replicate 5 0" "[]"] obtain r five desc x where r:
    "best_loop ?pool [0, 1, 2, 3, 4] (0, replicate 5 0, [], True) = Some (r, five, desc, False)"
    "comb (length ?pool) x" "five = map ((!) ?pool) x" "eval5 five = (r, desc)"
    and best: "\<And>y. comb (length ?pool) y \<Longrightarrow> [0, 1, 2, 3, 4] \<le> y \<Longrightarrow>
      fst (eval5 (map ((!) ?pool) y)) \<le> r"
    by blast
  have "bestHand c1 c2 board = Some (r, five, desc)"
    using r(1) assms by (simp add: bestHand_def)
  moreover have "length five = 5" using r(2,3) by (simp add: comb_def)
  moreover have "mset five \<subseteq># mset ?pool" using comb_submset [OF r(2)] r(3) by simp
  moreover have "fst (eval5 ys) \<le> r" if ys: "length ys = 5" "mset ys \<subseteq># mset ?pool" for ys
  proof -
    obtain y where y: "comb (length ?pool) y" "mset (map ((!) ?pool) y) = mset ys"
      using five_of_pool [OF ys] by blast
    have "fst (eval5 ys) = fst (eval5 (map ((!) ?pool) y))"
      using eval5_mset [OF ys(1)] y(2) by metis
    then show ?thesis using best [OF y(1) least [OF y(1)]] by simp
  qed
  ultimately show ?thesis using r(4) by blast
qed

section \<open>Properties\<close>

text \<open>C36. The 64-bit number of five cards is the encoding of the hand that the rules of poker
  give them: the category, and the ranks that break a tie within it, the larger group of
  equal ranks first; the wheel is a straight to the five.\<close>

theorem eval5_value:
  assumes "length cs = 5"
  shows "fst (eval5 cs) = newHandRank (hand_category cs) (hand_ties cs)"
  by (rule eval5_value' [OF assms])

lemma eval5_value_witness:
  "fst (eval5 [12, 0, 14, 2, 3]) = newHandRank catStraight [3, 0, 0, 0, 0]"
  using eval5_value [of "[12, 0, 14, 2, 3]"] by code_simp

text \<open>Comparing two of these numbers compares the hands: first the category, then the
  tie-breaking ranks from the most significant on. No category can overflow into another.\<close>

theorem eval5_order:
  assumes "length cs = 5" and "length ds = 5"
  shows "fst (eval5 cs) < fst (eval5 ds) \<longleftrightarrow>
    (hand_category cs, hand_ties cs) < (hand_category ds, hand_ties ds)"
  unfolding eval5_value' [OF assms(1)] eval5_value' [OF assms(2)]
  by (rule newHandRank_less_iff [OF assms [THEN tb_ok_hand_ties]])

lemma eval5_order_witness:
  "fst (eval5 [12, 25, 1, 2, 3]) < fst (eval5 [0, 13, 1, 14, 2])"
  using eval5_order [of "[12, 25, 1, 2, 3]" "[0, 13, 1, 14, 2]"] by code_simp

text \<open>The rank of five cards does not depend on the order they are given in.\<close>

theorem eval5_permutation:
  assumes "length cs = 5" and "mset cs = mset ds"
  shows "fst (eval5 cs) = fst (eval5 ds)"
  by (rule eval5_mset [OF assms])

lemma eval5_permutation_witness: "fst (eval5 [51, 12, 7, 20, 3]) = fst (eval5 [3, 7, 20, 51, 12])"
  by (rule eval5_permutation) simp_all

text \<open>C8. With at least three board cards the search of the best hand ends, its result is five
  of the available cards with their own rank and description, and no five of the available
  cards, in any order, rank higher.\<close>

theorem bestHand_optimal:
  assumes "3 \<le> length board"
  shows "\<exists>r five desc. bestHand c1 c2 board = Some (r, five, desc) \<and> length five = 5
    \<and> mset five \<subseteq># mset (c1 # c2 # board) \<and> eval5 five = (r, desc)
    \<and> (\<forall>ys. length ys = 5 \<and> mset ys \<subseteq># mset (c1 # c2 # board) \<longrightarrow> fst (eval5 ys) \<le> r)"
  by (rule bestHand_result [OF assms])

lemma bestHand_optimal_witness:
  "\<exists>r five desc. bestHand 0 13 [26, 39, 12, 11, 10] = Some (r, five, desc)
    \<and> fst (eval5 [0, 13, 26, 39, 12]) \<le> r"
  using bestHand_optimal [of "[26, 39, 12, 11, 10]" 0 13] by fastforce

end
