(* ===== verification/Showdown.thy ===== *)
theory Showdown
  imports Betting HandEval_Correct
begin

text \<open>
  The end of a hand: who wins a pot, and what the two ways of ending a hand
  (\<open>endHandUncontested\<close> and \<open>endHandShowdown\<close> of \<open>advance.go\<close>) do to the chips of the table.
\<close>

section \<open>The winners of a pot\<close>

definition rank_in :: "(string \<times> playerHandEval) list \<Rightarrow> string \<Rightarrow> handRank option" where
  "rank_in evals pid = map_option pe_rank (map_of evals pid)"

definition best_among :: "(string \<times> playerHandEval) list \<Rightarrow> string list \<Rightarrow> string \<Rightarrow> bool" where
  \<comment> \<open>a hand is known and no known hand among \<open>ids\<close> ranks higher\<close>
  "best_among evals ids pid \<longleftrightarrow>
     (\<exists>r. rank_in evals pid = Some r \<and> (\<forall>q \<in> set ids. \<forall>r'. rank_in evals q = Some r' \<longrightarrow> r' \<le> r))"

definition winners_inv ::
  "(string \<times> playerHandEval) list \<Rightarrow> string list \<Rightarrow> winner_state \<Rightarrow> bool" where
  "winners_inv evals ids acc \<longleftrightarrow>
     (case acc of (best, cards, desc, ws) \<Rightarrow>
        (if \<forall>q \<in> set ids. rank_in evals q = None then ws = []
         else ws \<noteq> [] \<and> ws = filter (\<lambda>q. rank_in evals q = Some best) ids
              \<and> (\<forall>q \<in> set ids. \<forall>r. rank_in evals q = Some r \<longrightarrow> r \<le> best)
              \<and> (\<exists>ev. map_of evals (hd ws) = Some ev \<and> cards = pe_bestFive ev \<and> desc = pe_desc ev)))"

lemma winners_inv_step:
  assumes "winners_inv evals ids acc"
  shows "winners_inv evals (ids @ [pid]) (consider_winner evals pid acc)"
proof -
  obtain best cards desc ws where acc: "acc = (best, cards, desc, ws)" by (cases acc)
  show ?thesis
  proof (cases "map_of evals pid")
    case None
    then have "rank_in evals pid = None" by (simp add: rank_in_def)
    with None assms acc show ?thesis
      by (auto simp: winners_inv_def consider_winner_def split: if_splits)
  next
    case (Some ev)
    then have r: "rank_in evals pid = Some (pe_rank ev)" by (simp add: rank_in_def)
    show ?thesis
    proof (cases "\<forall>q \<in> set ids. rank_in evals q = None")
      case True
      then have "ws = []" "filter (\<lambda>q. rank_in evals q = Some (pe_rank ev)) ids = []"
        using assms acc by (auto simp: winners_inv_def filter_empty_conv)
      then show ?thesis using Some r True acc by (auto simp: winners_inv_def consider_winner_def)
    next
      case False
      then have inv: "ws \<noteq> []" "ws = filter (\<lambda>q. rank_in evals q = Some best) ids"
        "\<forall>q \<in> set ids. \<forall>r. rank_in evals q = Some r \<longrightarrow> r \<le> best"
        "\<exists>ev. map_of evals (hd ws) = Some ev \<and> cards = pe_bestFive ev \<and> desc = pe_desc ev"
        using assms acc by (auto simp: winners_inv_def split: if_splits)
      have some: "\<not> (\<forall>q \<in> set (ids @ [pid]). rank_in evals q = None)" using False by auto
      consider "pe_rank ev > best" | "pe_rank ev = best" | "pe_rank ev < best" by fastforce
      then show ?thesis
      proof cases
        case 1
        then have "filter (\<lambda>q. rank_in evals q = Some (pe_rank ev)) ids = []"
          using inv(3) by (fastforce simp: filter_empty_conv)
        moreover have "\<forall>q \<in> set ids. \<forall>r. rank_in evals q = Some r \<longrightarrow> r \<le> pe_rank ev"
          using 1 inv(3) by (meson less_imp_le order.trans)
        ultimately show ?thesis using 1 Some r some acc
          by (simp add: winners_inv_def consider_winner_def)
      next
        case 2
        then show ?thesis using inv Some r some acc
          by (simp add: winners_inv_def consider_winner_def)
      next
        case 3
        then show ?thesis using inv Some r some acc
          by (auto simp: winners_inv_def consider_winner_def)
      qed
    qed
  qed
qed

lemma winners_inv_fold:
  "winners_inv evals ids (fold (consider_winner evals) ids (b, cs, d, []))"
proof (induction ids rule: rev_induct)
  case Nil
  then show ?case by (simp add: winners_inv_def)
next
  case (snoc pid ids)
  then show ?case using winners_inv_step by fastforce
qed

lemma potWinners_known:
  assumes "\<exists>q \<in> set ids. rank_in evals q \<noteq> None"
  shows "\<exists>five desc ev. potWinners evals ids st = (filter (best_among evals ids) ids, five, desc)
    \<and> filter (best_among evals ids) ids \<noteq> []
    \<and> map_of evals (hd (filter (best_among evals ids) ids)) = Some ev
    \<and> five = pe_bestFive ev \<and> desc = pe_desc ev"
proof -
  obtain best cards desc ws where f:
    "fold (consider_winner evals) ids (0, replicate 5 0, [], []) = (best, cards, desc, ws)"
    by (cases "fold (consider_winner evals) ids (0, replicate 5 0, [], [])")
  have inv: "ws \<noteq> []" "ws = filter (\<lambda>q. rank_in evals q = Some best) ids"
    "\<forall>q \<in> set ids. \<forall>r. rank_in evals q = Some r \<longrightarrow> r \<le> best"
    "\<exists>ev. map_of evals (hd ws) = Some ev \<and> cards = pe_bestFive ev \<and> desc = pe_desc ev"
    using winners_inv_fold [of evals ids 0 "replicate 5 0" "[]"] assms f
    by (auto simp: winners_inv_def split: if_splits)
  obtain w where w: "w \<in> set ids" "rank_in evals w = Some best"
    using inv(1,2) by (metis (mono_tags, lifting) filter_empty_conv)
  have "rank_in evals q = Some best \<longleftrightarrow> best_among evals ids q" if "q \<in> set ids" for q
    using that w inv(3) by (auto simp: best_among_def) (metis order.antisym option.inject)+
  then have "ws = filter (best_among evals ids) ids"
    unfolding inv(2) by (intro filter_cong) simp_all
  then show ?thesis using inv(1,4) f by (auto simp: potWinners_def Let_def)
qed

lemma potWinners_unknown:
  assumes "\<forall>q \<in> set ids. rank_in evals q = None"
  shows "fst (potWinners evals ids st) =
    (if firstEligibleInOrder st ids = [] then [] else [firstEligibleInOrder st ids])"
proof -
  obtain best cards desc ws where f:
    "fold (consider_winner evals) ids (0, replicate 5 0, [], []) = (best, cards, desc, ws)"
    by (cases "fold (consider_winner evals) ids (0, replicate 5 0, [], [])")
  then have "ws = []" using winners_inv_fold [of evals ids 0 "replicate 5 0" "[]"] assms
    by (simp add: winners_inv_def)
  with f show ?thesis by (simp add: potWinners_def Let_def)
qed

lemma potWinners_subset: "set (fst (potWinners evals ids st)) \<subseteq> set ids"
proof (cases "\<forall>q \<in> set ids. rank_in evals q = None")
  case True
  then show ?thesis using firstEligible_Some [of st ids]
    by (auto simp: potWinners_unknown split: if_splits)
next
  case False
  then show ?thesis using potWinners_known [of ids evals st] by auto
qed

text \<open>The evaluations that the showdown hands to it.\<close>

lemma hand_evals_lookup:
  "map_of (hand_evals st board ids) pid =
     (if pid \<in> set ids then
        (case player st pid of
           None \<Rightarrow> None
         | Some p \<Rightarrow>
             (case (HoleCard_1 p, HoleCard_2 p) of
                (Some c1, Some c2) \<Rightarrow>
                  (case the (bestHand c1 c2 board) of
                     (r, five, desc) \<Rightarrow> Some \<lparr>pe_rank = r, pe_bestFive = five, pe_desc = desc\<rparr>)
              | _ \<Rightarrow> None))
      else None)"
proof (induction ids)
  case (Cons q ids)
  have "hand_evals st board (q # ids) = hand_evals st board [q] @ hand_evals st board ids"
    by (simp add: hand_evals_def)
  moreover have "map_of (hand_evals st board [q]) pid = (if pid = q then
        (case player st pid of
           None \<Rightarrow> None
         | Some p \<Rightarrow>
             (case (HoleCard_1 p, HoleCard_2 p) of
                (Some c1, Some c2) \<Rightarrow>
                  (case the (bestHand c1 c2 board) of
                     (r, five, desc) \<Rightarrow> Some \<lparr>pe_rank = r, pe_bestFive = five, pe_desc = desc\<rparr>)
              | _ \<Rightarrow> None))
      else None)"
    by (simp add: hand_evals_def split: option.splits prod.splits)
  ultimately show ?case using Cons by (auto simp: map_add_def split: option.splits)
qed (simp add: hand_evals_def)

definition showdown_rank :: "GameState \<Rightarrow> card list \<Rightarrow> string \<Rightarrow> handRank" where
  "showdown_rank st board pid =
     (let p = the (player st pid)
      in fst (the (bestHand (the (HoleCard_1 p)) (the (HoleCard_2 p)) board)))"

definition cards_known :: "GameState \<Rightarrow> string \<Rightarrow> bool" where
  "cards_known st pid \<longleftrightarrow>
     (case player st pid of
        None \<Rightarrow> False
      | Some p \<Rightarrow> HoleCard_1 p \<noteq> None \<and> HoleCard_2 p \<noteq> None)"

lemma rank_in_evals:
  "pid \<in> set ids \<Longrightarrow> cards_known st pid \<Longrightarrow>
   rank_in (hand_evals st board ids) pid = Some (showdown_rank st board pid)"
  by (auto simp: rank_in_def hand_evals_lookup cards_known_def showdown_rank_def Let_def
      split: option.splits prod.splits)

text \<open>Those of the eligible players whose hands were evaluated.\<close>

definition running :: "GameState \<Rightarrow> string list \<Rightarrow> string list \<Rightarrow> string list" where
  "running st nf ids = filter (\<lambda>q. q \<in> set nf \<and> cards_known st q) ids"

lemma rank_in_evals_iff:
  "rank_in (hand_evals st board nf) q =
     (if q \<in> set nf \<and> cards_known st q then Some (showdown_rank st board q) else None)"
  by (auto simp: rank_in_def hand_evals_lookup cards_known_def showdown_rank_def Let_def
      split: option.splits prod.splits)

lemma potWinners_ranks:
  assumes "running st nf ids \<noteq> []"
  shows "fst (potWinners (hand_evals st board nf) ids st)
    = filter (\<lambda>q. \<forall>q' \<in> set (running st nf ids). showdown_rank st board q' \<le> showdown_rank st board q) (running st nf ids)"
proof -
  let ?ev = "hand_evals st board nf"
  have "\<exists>q \<in> set ids. rank_in ?ev q \<noteq> None"
    using assms by (auto simp: running_def filter_empty_conv rank_in_evals_iff)
  then have "fst (potWinners ?ev ids st) = filter (best_among ?ev ids) ids"
    using potWinners_known [of ids ?ev st] by auto
  also have "\<dots> = filter (\<lambda>q. \<forall>q' \<in> set (running st nf ids). showdown_rank st board q' \<le> showdown_rank st board q) (running st nf ids)"
    unfolding running_def filter_filter
    by (intro filter_cong) (auto simp: best_among_def rank_in_evals_iff split: if_splits)
  finally show ?thesis .
qed

lemma firstEligible_order:
  "CurrentHand st = Some h \<Longrightarrow> firstEligibleInOrder st ids = [] \<or> firstEligibleInOrder st ids \<in> set (ActionOrder h)"
  by (auto simp: firstEligibleInOrder_def find_Some_iff split: option.split)

lemma potWinners_order:
  assumes "CurrentHand st = Some h" and "set nf \<subseteq> set (ActionOrder h)"
  shows "set (fst (potWinners (hand_evals st board nf) ids st)) \<subseteq> set ids \<inter> set (ActionOrder h)"
proof (cases "running st nf ids = []")
  case True
  then have "\<forall>q \<in> set ids. rank_in (hand_evals st board nf) q = None"
    by (auto simp: running_def filter_empty_conv rank_in_evals_iff)
  then show ?thesis using potWinners_unknown [of ids "hand_evals st board nf" st] potWinners_subset
      firstEligible_order [OF assms(1), of ids] by (fastforce split: if_splits)
next
  case False
  then show ?thesis using assms(2) by (auto simp: potWinners_ranks running_def)
qed

section \<open>The table while a hand is paid out\<close>

text \<open>\<open>paying K P ids st\<close>: the players are \<open>ids\<close>, no stack is negative, a hand is in play with
  \<open>P\<close> left in the pot, and stacks and pot together are \<open>K\<close>.\<close>

definition paying :: "int \<Rightarrow> int \<Rightarrow> string list \<Rightarrow> GameState \<Rightarrow> bool" where
  "paying K P ids st \<longleftrightarrow>
     distinct ids \<and> keys (Players st) = ids
     \<and> (\<forall>(i, p) \<in> set (Players st). 0 \<le> Stack p)
     \<and> (\<exists>h. CurrentHand st = Some h \<and> Pot h = P)
     \<and> asum Stack (Players st) + P = K \<and> K < 2 ^ 61 \<and> - (2 ^ 61) \<le> P \<and> P < 2 ^ 62"

lemma paying_cong:
  "paying K P ids st \<Longrightarrow> Players st' = Players st \<Longrightarrow> CurrentHand st' = CurrentHand st \<Longrightarrow> paying K P ids st'"
  by (simp add: paying_def)

lemma paying_upd_hand:
  "paying K P ids st \<Longrightarrow> (\<And>h. Pot (f h) = Pot h) \<Longrightarrow> paying K P ids (upd_hand f st)"
  by (auto simp: paying_def)

lemma paying_rake:
  assumes "paying K P ids st" and "0 \<le> r" and "r \<le> P"
  shows "paying (K - r) (P - r) ids (apply_RakeTaken r st)"
proof -
  obtain h where h: "CurrentHand st = Some h" "Pot h = P" using assms(1) by (auto simp: paying_def)
  have "sub64 P r = P - r" using assms by (intro sub64_exact) (auto simp: paying_def in64_def)
  then show ?thesis using assms h by (auto simp: paying_def apply_RakeTaken_def)
qed

lemma award_winners_exact:
  assumes "distinct (keys (Players st))" and "\<forall>(i, p) \<in> set (Players st). 0 \<le> Stack p"
    and "set ws \<subseteq> set (keys (Players st))" and "0 \<le> a" and "0 \<le> s"
    and "asum Stack (Players st) + (if ws = [] then 0 else a + (int (length ws) - 1) * s) < 2 ^ 63"
  shows "asum Stack (Players (award_winners a s ws st))
      = asum Stack (Players st) + (if ws = [] then 0 else a + (int (length ws) - 1) * s)
    \<and> keys (Players (award_winners a s ws st)) = keys (Players st)
    \<and> (\<forall>(i, p) \<in> set (Players (award_winners a s ws st)). 0 \<le> Stack p)"
  using assms
proof (induction ws arbitrary: a st)
  case (Cons w ws)
  let ?f = "\<lambda>p. p\<lparr>Stack := add64 (Stack p) a\<rparr>"
  let ?st = "upd_player w ?f st" and ?rest = "if ws = [] then 0 else s + (int (length ws) - 1) * s"
  obtain p where p: "map_of (Players st) w = Some p"
    using Cons.prems(3) by (cases "map_of (Players st) w") (auto simp: map_of_None_keys)
  have le: "Stack p \<le> asum Stack (Players st)" "0 \<le> Stack p"
    using Cons.prems(2) p by (auto intro!: asum_member_le dest: map_of_SomeD)
  have rest: "0 \<le> ?rest" "a + (int (length (w # ws)) - 1) * s = a + ?rest"
    using Cons.prems(5) by (cases ws; simp add: algebra_simps)+
  then have "add64 (Stack p) a = Stack p + a"
    using le Cons.prems(4,6) by (intro add64_exact) (auto simp: in64_def)
  then have sum: "asum Stack (Players ?st) = asum Stack (Players st) + a"
    by (simp add: asum_map_entry [OF p])
  have nn: "\<forall>(i, q) \<in> set (Players ?st). 0 \<le> Stack q"
  proof clarify
    fix i q assume "(i, q) \<in> set (Players ?st)"
    then obtain r where "(i, r) \<in> set (Players st)" "q = (if i = w then ?f r else r)"
      using players_map_entry [OF Cons.prems(1)] by (metis (no_types, lifting) upd_sel(6))
    moreover have "i = w \<Longrightarrow> r = p" using calculation(1) p Cons.prems(1) by (simp add: keys_def)
    ultimately show "0 \<le> Stack q"
      using Cons.prems(2,4) le \<open>add64 (Stack p) a = Stack p + a\<close> by (cases "i = w") auto
  qed
  have "asum Stack (Players (award_winners s s ws ?st)) = asum Stack (Players ?st) + ?rest
    \<and> keys (Players (award_winners s s ws ?st)) = keys (Players ?st)
    \<and> (\<forall>(i, p) \<in> set (Players (award_winners s s ws ?st)). 0 \<le> Stack p)"
    using Cons.prems rest sum by (intro Cons.IH [OF _ nn]) auto
  then show ?case using sum rest by simp
qed simp

lemma paying_award:
  assumes "paying K P ids st" and "ws \<noteq> []" and "set ws \<subseteq> set ids" and "0 \<le> a" and "a < 2 ^ 61"
    and "- (2 ^ 61) \<le> P - a"
  shows "paying K (P - a) ids (apply_PotAwarded a ws st)"
proof -
  let ?n = "int (length ws)"
  have n: "0 < ?n" using assms(2) by simp
  note dm = sdiv_nonneg [OF assms(4) n] smod_nonneg [OF assms(4) n]
  have sh: "0 \<le> a div ?n" "0 \<le> a mod ?n" using assms(4) n by (simp_all add: pos_imp_zdiv_nonneg_iff)
  have tot: "a div ?n + a mod ?n + (?n - 1) * (a div ?n) = a"
    using div_mult_mod_eq [of a ?n] by (simp add: algebra_simps)
  moreover have "0 \<le> (?n - 1) * (a div ?n)" using sh n by (intro mult_nonneg_nonneg) linarith+
  ultimately have add: "add64 (a div ?n) (a mod ?n) = a div ?n + a mod ?n"
    using sh assms(5) by (intro add64_exact) (auto simp: in64_def)
  obtain h where h: "CurrentHand st = Some h" "Pot h = P" using assms(1) by (auto simp: paying_def)
  have "asum Stack (Players st) + a < 2 ^ 63" using assms(1,5) by (auto simp: paying_def)
  then have aw: "asum Stack (Players (award_winners (a div ?n + a mod ?n) (a div ?n) ws st))
        = asum Stack (Players st) + a"
    "keys (Players (award_winners (a div ?n + a mod ?n) (a div ?n) ws st)) = ids"
    "\<forall>(i, p) \<in> set (Players (award_winners (a div ?n + a mod ?n) (a div ?n) ws st)). 0 \<le> Stack p"
    using award_winners_exact [of st ws "a div ?n + a mod ?n" "a div ?n"] assms(1-3) sh tot
    by (auto simp: paying_def)
  have "sub64 P a = P - a" using assms by (intro sub64_exact) (auto simp: paying_def in64_def)
  then show ?thesis
    using assms(1,2,4,6) aw h dm add by (simp add: apply_PotAwarded_def Let_def paying_def)
qed

lemma paying_over:
  assumes "paying K P ids st"
  shows "chips (apply_HandEnded n st) = K - P" and "CurrentHand (apply_HandEnded n st) = None"
    and "\<forall>(i, p) \<in> set (Players (apply_HandEnded n st)). 0 \<le> Stack p"
    and "keys (Players (apply_HandEnded n st)) = ids"
  using assms by (auto simp: apply_HandEnded_def Let_def chips_def pot_of_def paying_def)

section \<open>Paying out\<close>

lemma Apply_mk_event:
  "\<exists>v. Apply st (mk_event e) = apply_payload e None (st\<lparr>Version := v\<rparr>)"
  by (auto simp: Apply_def)

lemma paying_step:
  assumes "paying K P ids st"
    and "\<And>st. paying K P ids st \<Longrightarrow> paying K' P' ids (apply_payload e None st)"
  shows "paying K' P' ids (Apply st (mk_event e))"
proof -
  obtain v where "Apply st (mk_event e) = apply_payload e None (st\<lparr>Version := v\<rparr>)"
    using Apply_mk_event by blast
  moreover have "paying K P ids (st\<lparr>Version := v\<rparr>)" by (rule paying_cong [OF assms(1)]) simp_all
  ultimately show ?thesis using assms(2) by simp
qed

lemma applyAll_simps [simp]:
  "applyAll st [] = st" "applyAll st (e # es) = applyAll (Apply st e) es"
  "applyAll st (es @ es') = applyAll (applyAll st es) es'"
  by (simp_all add: applyAll_def)

lemma paying_neutral:
  assumes "paying K P ids st"
    and "\<And>e st. e \<in> set es \<Longrightarrow> paying K P ids st \<Longrightarrow> paying K P ids (apply_payload e None st)"
  shows "paying K P ids (applyAll st (map mk_event es))"
  using assms
proof (induction es arbitrary: st)
  case (Cons e es)
  then have "paying K P ids (Apply st (mk_event e))" using paying_step [OF Cons.prems(1)] by simp
  then show ?case using Cons by simp
qed simp

lemma paying_rake_event:
  assumes "paying K P ids st" and "0 \<le> r" and "r \<le> P"
  shows "paying (K - r) (P - r) ids
    (applyAll st (if r > 0 then [mk_event (EvRakeTaken r)] else []))"
proof (cases "r > 0")
  case True
  have "paying (K - r) (P - r) ids (Apply st (mk_event (EvRakeTaken r)))"
    by (rule paying_step [OF assms(1)]) (use assms(2,3) in \<open>simp add: paying_rake\<close>)
  with True show ?thesis by simp
qed (use assms in simp)

text \<open>The loop over the pots: each pot with something in it goes to winners who sit at the table.\<close>

definition awarded :: "pot list \<Rightarrow> int" where
  "awarded pots = sum_list (map (\<lambda>p. max 0 (pot_amount p)) pots)"

lemma awarded_nonneg: "0 \<le> awarded pots"
  unfolding awarded_def by (rule sum_list_nonneg) auto

lemma paying_awards:
  assumes "paying K P ids st"
    and "\<forall>p \<in> set pots. 0 < pot_amount p \<longrightarrow> fst (potWinners evals (pot_eligibleIDs p) st0) \<noteq> []
           \<and> set (pot_eligibleIDs p) \<subseteq> set ids"
    and "awarded pots < 2 ^ 61" and "- (2 ^ 61) \<le> P - awarded pots"
  shows "paying K (P - awarded pots) ids (applyAll st (concat (map (award_pot evals st0) pots)))"
  using assms
proof (induction pots arbitrary: st P)
  case (Cons p pots)
  have aw: "awarded (p # pots) = max 0 (pot_amount p) + awarded pots" by (simp add: awarded_def)
  note nn = awarded_nonneg [of pots]
  show ?case
  proof (cases "0 < pot_amount p")
    case True
    obtain ws five desc where w: "potWinners evals (pot_eligibleIDs p) st0 = (ws, five, desc)"
      by (cases "potWinners evals (pot_eligibleIDs p) st0")
    then have ws: "ws \<noteq> []" "set ws \<subseteq> set ids"
      using Cons.prems(2) True potWinners_subset [of evals "pot_eligibleIDs p" st0] by auto
    have ev: "award_pot evals st0 p
        = [mk_event (EvPotAwarded (pot_amount p) ws (map (\<lambda>c. c mod 256) five) desc)]"
      using True w ws(1) by (simp add: award_pot_def)
    have "paying K (P - pot_amount p) ids (applyAll st (award_pot evals st0 p))"
      unfolding ev applyAll_simps
      by (rule paying_step [OF Cons.prems(1)])
        (use True ws Cons.prems(3,4) aw nn in \<open>auto intro!: paying_award\<close>)
    from Cons.IH [OF this] have "paying K (P - pot_amount p - awarded pots) ids
        (applyAll (applyAll st (award_pot evals st0 p)) (concat (map (award_pot evals st0) pots)))"
      using Cons.prems(2-4) aw True by simp
    then show ?thesis using aw True by (simp add: algebra_simps)
  next
    case False
    then have "award_pot evals st0 p = []" by (simp add: award_pot_def)
    then show ?thesis using Cons.IH [OF Cons.prems(1)] Cons.prems(2-4) aw False by simp
  qed
qed (simp add: awarded_def)

definition rake_exact :: "GameState \<Rightarrow> HandState \<Rightarrow> bool" where
  "rake_exact st h \<longleftrightarrow>
     (\<forall>c. Config st = Some c \<longrightarrow> RakeBps c \<le> 10000 \<and> in64 (Pot h * RakeBps c))"

lemma rake_range:
  assumes "rake_exact st h" and "0 \<le> Pot h"
  shows "0 \<le> computeRake (Pot h) (Config st) \<and> computeRake (Pot h) (Config st) \<le> Pot h"
  using assms computeRake_range [of "Pot h"] by (cases "Config st") (auto simp: rake_exact_def)

lemma books_pot:
  assumes "books_ok st" and "CurrentHand st = Some h"
  shows "0 \<le> Pot h" "Pot h \<le> chips st" "Pot h = committed_sum st" "chips st < 2 ^ 61"
proof -
  have hb: "hand_books st h" using assms by (simp add: books_ok_def)
  show "Pot h = committed_sum st" "chips st < 2 ^ 61"
    using assms hb by (simp_all add: books_ok_def hand_books_def)
  moreover have "0 \<le> committed_sum st"
    unfolding committed_sum_def using committed_nonneg [OF hb] by (intro asum_nonneg) auto
  moreover have "0 \<le> asum Stack (Players st)"
    using assms(1) by (intro asum_nonneg) (auto simp: books_ok_def)
  ultimately show "0 \<le> Pot h" "Pot h \<le> chips st"
    using assms(2) by (simp_all add: chips_def pot_of_def)
qed

lemma books_paying:
  assumes "books_ok st" and "CurrentHand st = Some h"
  shows "paying (chips st) (Pot h) (keys (Players st)) st"
  using assms books_pot [OF assms] by (auto simp: paying_def books_ok_def chips_def pot_of_def)

lemma books_pots_ok:
  assumes "books_ok st" and "CurrentHand st = Some h"
  shows "pots_ok st"
proof -
  have hb: "hand_books st h" using assms by (simp add: books_ok_def)
  then show ?thesis using assms(1) books_pot [OF assms] committed_nonneg [OF hb]
    by (auto simp: pots_ok_def books_ok_def in64_def)
qed

text \<open>How both endings finish.\<close>

lemma paying_end:
  assumes "paying K P ids st"
  shows "CurrentHand (Apply st (mk_event (EvHandEnded n))) = None
    \<and> chips (Apply st (mk_event (EvHandEnded n))) = K - P
    \<and> (\<forall>(i, p) \<in> set (Players (Apply st (mk_event (EvHandEnded n)))). 0 \<le> Stack p)
    \<and> keys (Players (Apply st (mk_event (EvHandEnded n)))) = ids"
proof -
  obtain v where "Apply st (mk_event (EvHandEnded n)) = apply_HandEnded n (st\<lparr>Version := v\<rparr>)"
    using Apply_mk_event [of st "EvHandEnded n"] by auto
  moreover have "paying K P ids (st\<lparr>Version := v\<rparr>)" by (rule paying_cong [OF assms]) simp_all
  ultimately show ?thesis using paying_over by simp
qed

lemma applyAll_rake_players:
  "Players (applyAll st (if r > 0 then [mk_event (EvRakeTaken r)] else [])) = Players st"
  by (simp add: Apply_def apply_RakeTaken_def)

lemma uncontested_result:
  assumes "books_ok st" and "CurrentHand st = Some h" and "rake_exact st h"
    and "find (in_hand st) (ActionOrder h) = Some w" and "w \<noteq> []"
  defines "final \<equiv> applyAll st (endHandUncontested st)"
    and "rake \<equiv> computeRake (Pot h) (Config st)"
  shows "CurrentHand final = None \<and> chips final = chips st - rake
    \<and> stack_of final w = stack_of st w + (Pot h - rake)
    \<and> (\<forall>q. q \<noteq> w \<longrightarrow> stack_of final q = stack_of st q)"
proof -
  note pot = books_pot [OF assms(1,2)] and r = rake_range [OF assms(3) books_pot(1) [OF assms(1,2)]]
  let ?n = "add64 (HandNumber st) 1" and ?ids = "keys (Players st)"
  let ?s1 = "applyAll st (if rake > 0 then [mk_event (EvRakeTaken rake)] else [])"
  let ?e2 = "mk_event (EvPotAwarded (sub64 (Pot h) rake) [w] [] [])"
  have sub: "sub64 (Pot h) rake = Pot h - rake"
    using pot r unfolding rake_def by (intro sub64_exact) (auto simp: in64_def)
  have final: "final = Apply (Apply ?s1 ?e2) (mk_event (EvHandEnded ?n))"
    unfolding final_def endHandUncontested_def Let_def using assms(2,4,5)
    by (simp add: rake_def applyAll_def)
  obtain p where p: "player st w = Some p"
    using find_Some_mem [OF assms(4)] by (auto simp: in_hand_def split: option.splits)
  then have w: "w \<in> set ?ids" using map_of_None_keys [of "Players st" w] by (auto simp: player_def)
  have "paying (chips st - rake) (Pot h - rake) ?ids ?s1"
    unfolding rake_def using paying_rake_event [OF books_paying [OF assms(1,2)]] r by blast
  then have "paying (chips st - rake) 0 ?ids (Apply ?s1 ?e2)"
  proof (rule paying_step)
    fix sta assume "paying (chips st - rake) (Pot h - rake) ?ids sta"
    from paying_award [OF this, of "[w]" "Pot h - rake"]
    show "paying (chips st - rake) 0 ?ids (apply_payload (EvPotAwarded (sub64 (Pot h) rake) [w] [] []) None sta)"
      using sub pot r w by (simp add: rake_def)
  qed
  then have main: "CurrentHand final = None \<and> chips final = chips st - rake"
    using paying_end unfolding final by fastforce
  have st: "stack_of ?s1 q = stack_of st q" "player ?s1 q = player st q" for q
    by (simp_all add: stack_of_def player_def applyAll_rake_players)
  obtain v v' where ev: "final = apply_HandEnded ?n ((apply_PotAwarded (Pot h - rake) [w]
      (?s1\<lparr>Version := v\<rparr>))\<lparr>Version := v'\<rparr>)"
    unfolding final using Apply_mk_event sub by (metis apply_payload.simps(44,46))
  have pl: "stack_of final q = stack_of (apply_PotAwarded (Pot h - rake) [w] (?s1\<lparr>Version := v\<rparr>)) q" for q
    unfolding ev by (simp add: apply_HandEnded_def Let_def stack_of_def player_def)
  have "0 \<le> stack_of st w \<and> in64 (stack_of st w + (Pot h - rake))"
    using p books_player(1) [OF assms(1) p] books_player_sum(4) [OF assms(1,2) p] pot r assms(2)
    by (auto simp: stack_of_def rake_def in64_def chips_def pot_of_def)
  then have "stack_of final w = stack_of st w + (Pot h - rake)"
    using pot_split_stack [of "[w]" 0 "Pot h - rake" "?s1\<lparr>Version := v\<rparr>"] r st p unfolding pl
    by (simp add: rake_def stack_of_def player_def)
  moreover have "stack_of final q = stack_of st q" if "q \<noteq> w" for q
  proof -
    have "stack_of (?s1\<lparr>Version := v\<rparr>) q = stack_of ?s1 q" by (simp add: stack_of_def player_def)
    with that st(1) [of q] show ?thesis unfolding pl
      by (simp add: apply_PotAwarded_def Let_def stack_upd_player del: applyAll_simps)
  qed
  ultimately show ?thesis using main by blast
qed

text \<open>A player who put in as much as anybody is eligible for every pot.\<close>

lemma won_all_eligible:
  assumes "won_by pid ps = sum_list (map pot_amount ps)" and "\<forall>p \<in> set ps. 0 < pot_amount p"
  shows "\<forall>p \<in> set ps. pid \<in> set (pot_eligibleIDs p)"
  using assms
proof (induction ps)
  case (Cons p ps)
  have cons: "won_by pid (p # ps) = (if pid \<in> set (pot_eligibleIDs p) then pot_amount p else 0)
      + won_by pid ps"
    by (simp add: won_by_def)
  have "won_by pid ps \<le> sum_list (map pot_amount ps)"
    using Cons.prems(2) by (induction ps) (auto simp: won_by_def)
  then have "pid \<in> set (pot_eligibleIDs p) \<and> won_by pid ps = sum_list (map pot_amount ps)"
    using Cons.prems cons by (auto split: if_splits)
  then show ?case using Cons by simp
qed simp

definition top_player :: "GameState \<Rightarrow> HandState \<Rightarrow> string \<Rightarrow> bool" where
  \<comment> \<open>a player still in the order of the hand who put in as much as anybody\<close>
  "top_player st h pid \<longleftrightarrow> pid \<in> set (ActionOrder h) \<and> pid \<noteq> []
     \<and> (\<exists>q. player st pid = Some q \<and> \<not> IsFolded q \<and> 0 < TotalCommittedThisHand q
          \<and> (\<forall>(i, p) \<in> set (Players st). TotalCommittedThisHand p \<le> TotalCommittedThisHand q))"

lemma top_player_eligible:
  assumes "pots_ok st" and "top_player st h pid"
  shows "\<forall>p \<in> set (computePots st). pid \<in> set (pot_eligibleIDs p)" and "computePots st \<noteq> []"
proof -
  obtain q where q: "player st pid = Some q" "\<not> IsFolded q" "0 < TotalCommittedThisHand q"
    "\<forall>(i, p) \<in> set (Players st). TotalCommittedThisHand p \<le> TotalCommittedThisHand q"
    using assms(2) by (auto simp: top_player_def)
  have "stake st (TotalCommittedThisHand q) = committed_sum st"
    unfolding stake_def committed_sum_def using q(4) by (intro asum_cong) auto
  then have "won_by pid (computePots st) = sum_list (map pot_amount (computePots st))"
    using computePots_won [OF assms(1) q(1-3)] computePots_sum [OF assms(1)] by simp
  then show "\<forall>p \<in> set (computePots st). pid \<in> set (pot_eligibleIDs p)"
    using computePots_pos [OF assms(1)] by (intro won_all_eligible) auto
  have "0 < committed_sum st"
  proof -
    have "TotalCommittedThisHand q \<le> committed_sum st"
      unfolding committed_sum_def using assms(1) q(1)
      by (intro asum_member_le) (auto simp: pots_ok_def player_def)
    then show ?thesis using q(3) by simp
  qed
  then show "computePots st \<noteq> []" using computePots_sum [OF assms(1)] by auto
qed

lemma firstEligible_exists:
  assumes "CurrentHand st = Some h" and "pid \<in> set (ActionOrder h)" and "in_hand st pid"
    and "pid \<in> set ids" and "[] \<notin> set (keys (Players st))"
  shows "firstEligibleInOrder st ids \<noteq> []"
proof -
  let ?P = "\<lambda>pid. (case player st pid of None \<Rightarrow> False | Some p \<Rightarrow> \<not> IsFolded p) \<and> pid \<in> set ids"
  have "?P pid" using assms(3,4) by (simp add: in_hand_def)
  then obtain w where w: "find ?P (ActionOrder h) = Some w"
    using assms(2) by (cases "find ?P (ActionOrder h)") (auto simp: find_None_iff)
  have "w \<in> set (keys (Players st))"
    using find_Some_mem [OF w] map_of_None_keys [of "Players st" w]
    by (auto simp: player_def split: option.splits)
  then have "w \<noteq> []" using assms(5) by blast
  with w assms(1) show ?thesis by (simp add: firstEligibleInOrder_def)
qed

lemma potWinners_nonempty:
  assumes "CurrentHand st = Some h" and "pid \<in> set (ActionOrder h)" and "in_hand st pid"
    and "pid \<in> set ids" and "[] \<notin> set (keys (Players st))"
  shows "fst (potWinners evals ids st) \<noteq> []"
proof (cases "\<forall>q \<in> set ids. rank_in evals q = None")
  case True
  then show ?thesis using potWinners_unknown firstEligible_exists [OF assms] by simp
next
  case False
  then show ?thesis using potWinners_known [of ids evals st] by auto
qed

lemma awarded_pos: "\<forall>p \<in> set ps. 0 < pot_amount p \<Longrightarrow> awarded ps = sum_list (map pot_amount ps)"
  by (induction ps) (simp_all add: awarded_def)

lemma showdown_result:
  assumes "books_ok st" and "CurrentHand st = Some h" and "rake_exact st h"
    and "top_player st h pid" and "[] \<notin> set (keys (Players st))"
  defines "final \<equiv> applyAll st (endHandShowdown st)"
    and "rake \<equiv> computeRake (Pot h) (Config st)"
    and "main \<equiv> pot_amount (hd (computePots st))"
  shows "CurrentHand final = None \<and> chips final = chips st - min rake main
    \<and> (\<forall>(i, p) \<in> set (Players final). 0 \<le> Stack p) \<and> keys (Players final) = keys (Players st)"
proof -
  note pot = books_pot [OF assms(1,2)] and po = books_pots_ok [OF assms(1,2)]
    and r = rake_range [OF assms(3) books_pot(1) [OF assms(1,2)]]
  note elig = top_player_eligible [OF po assms(4)]
  let ?ids = "keys (Players st)" and ?nf = "nonFoldedPlayerIDs st" and ?K = "chips st"
  let ?ev = "hand_evals st (boardCards h) ?nf" and ?pots = "computePots st"
  obtain q where q: "player st pid = Some q" "\<not> IsFolded q" "pid \<in> set (ActionOrder h)"
    using assms(4) by (auto simp: top_player_def)
  then have ih: "in_hand st pid" by (simp add: in_hand_def)
  then have nf: "?nf \<noteq> []" using q(3) assms(2) by (auto simp: nonFoldedPlayerIDs_def filter_empty_conv)
  obtain p0 ps where ps: "?pots = p0 # ps" using elig(2) by (cases ?pots) auto
  have pos: "\<forall>p \<in> set ?pots. 0 < pot_amount p" using computePots_pos [OF po] by blast
  have sum: "sum_list (map pot_amount ?pots) = Pot h" using computePots_sum [OF po] pot(3) by simp
  have rest: "0 \<le> sum_list (map pot_amount ps)"
    using pos ps by (intro sum_list_nonneg) (auto intro: less_imp_le)
  have main: "main = pot_amount p0" "0 < main" "main \<le> Pot h"
    using ps pos sum rest by (auto simp: main_def)
  let ?pots' = "if rake > 0 then take_rake rake ?pots else ?pots"
  have "sub64 main rake = main - rake"
    using main r pot by (intro sub64_exact) (auto simp: rake_def in64_def)
  then have p': "?pots' = (p0\<lparr>pot_amount := main - rake\<rparr>) # ps"
    using ps main(1) r by (auto simp: take_rake_def rake_def)
  have aw: "awarded ?pots' = max 0 (main - rake) + (Pot h - main)"
    unfolding p' using pos ps sum main(1) by (simp add: awarded_def flip: awarded_pos)
  have win: "\<forall>p \<in> set ?pots'. 0 < pot_amount p \<longrightarrow> fst (potWinners ?ev (pot_eligibleIDs p) st) \<noteq> []
      \<and> set (pot_eligibleIDs p) \<subseteq> set ?ids"
  proof (intro ballI impI)
    fix p assume "p \<in> set ?pots'"
    then obtain p1 where p1: "p1 \<in> set ?pots" "pot_eligibleIDs p = pot_eligibleIDs p1"
      unfolding p' using ps by (cases "p \<in> set ps") auto
    have "set (pot_eligibleIDs p) \<subseteq> set ?ids"
    proof
      fix x assume "x \<in> set (pot_eligibleIDs p)"
      then obtain y where "player st x = Some y" using computePots_elig [OF po p1(1)] p1(2) by fastforce
      then show "x \<in> set ?ids" using map_of_None_keys [of "Players st" x] by (simp add: player_def)
    qed
    then show "fst (potWinners ?ev (pot_eligibleIDs p) st) \<noteq> [] \<and> set (pot_eligibleIDs p) \<subseteq> set ?ids"
      using potWinners_nonempty [OF assms(2) q(3) ih _ assms(5)] elig(1) p1 by simp
  qed
  let ?sp = "map (\<lambda>p. mk_event (EvSidePotCreated (pot_amount p) (pot_eligibleIDs p))) ps"
  let ?rk = "if rake > 0 then [mk_event (EvRakeTaken rake)] else []"
  have evs: "endHandShowdown st = (mk_event (EvShowdown ?nf) # ?sp) @ ?rk
      @ concat (map (award_pot ?ev st) ?pots') @ [mk_event (EvHandEnded (add64 (HandNumber st) 1))]"
    using nf ps assms(2) by (simp add: endHandShowdown_def Let_def rake_def)
  have s1: "paying ?K (Pot h) ?ids (applyAll st (mk_event (EvShowdown ?nf) # ?sp))"
    using paying_neutral [OF books_paying [OF assms(1,2)], of "EvShowdown ?nf
        # map (\<lambda>p. EvSidePotCreated (pot_amount p) (pot_eligibleIDs p)) ps"]
    by (force simp: apply_Showdown_def apply_SidePotCreated_def comp_def intro!: paying_upd_hand)
  have s2: "paying (?K - rake) (Pot h - rake) ?ids (applyAll (applyAll st (mk_event (EvShowdown ?nf) # ?sp)) ?rk)"
    using paying_rake_event [OF s1] r unfolding rake_def by blast
  have "paying (?K - rake) (Pot h - rake - awarded ?pots') ?ids
      (applyAll (applyAll (applyAll st (mk_event (EvShowdown ?nf) # ?sp)) ?rk)
        (concat (map (award_pot ?ev st) ?pots')))"
    by (rule paying_awards [OF s2 win]) (use aw main r pot in \<open>auto simp: rake_def\<close>)
  from paying_end [OF this] show ?thesis
    unfolding final_def evs applyAll_simps(3) applyAll_simps(1,2) aw by auto
qed

end
