(* ===== verification/Lifecycle.thy ===== *)
theory Lifecycle
  imports Showdown
begin

text \<open>
  The loop of the server's own moves (\<open>runAdvance\<close>) always comes to rest, long before its
  step cap; how a hand starts; and what becomes of players who are all-in.
\<close>

section \<open>The player map stays consistent\<close>

definition ids_ok :: "GameState \<Rightarrow> bool" where
  "ids_ok st \<longleftrightarrow> distinct (keys (Players st)) \<and> (\<forall>(i, p) \<in> set (Players st). PlayerId p = i)"

lemma ids_upd_player:
  assumes "ids_ok st" and "\<And>p. player st pid = Some p \<Longrightarrow> PlayerId (f p) = PlayerId p"
  shows "ids_ok (upd_player pid f st)"
proof -
  have d: "distinct (keys (Players st))" using assms(1) by (simp add: ids_ok_def)
  have "PlayerId p = i" if p: "(i, p) \<in> set (Players (upd_player pid f st))" for i p
  proof -
    obtain q where q: "(i, q) \<in> set (Players st)" "p = (if i = pid then f q else q)"
      using players_map_entry [OF d] p by (metis upd_sel(6))
    moreover have "player st i = Some q" using q(1) d by (simp add: player_def keys_def)
    ultimately show ?thesis using assms by (auto simp: ids_ok_def)
  qed
  then show ?thesis using d by (auto simp: ids_ok_def)
qed

lemma ids_upd_all: "ids_ok st \<Longrightarrow> (\<And>p. PlayerId (f p) = PlayerId p) \<Longrightarrow> ids_ok (upd_all_players f st)"
  by (auto simp: ids_ok_def values_upd_def keys_def comp_def case_prod_beta)

lemma ids_cong: "ids_ok st \<Longrightarrow> Players st' = Players st \<Longrightarrow> ids_ok st'"
  by (simp add: ids_ok_def)

lemma ids_upd_hand [simp]: "ids_ok (upd_hand f st) = ids_ok st"
  by (simp add: ids_ok_def)

lemma ids_with:
  assumes "ids_ok st" and "\<And>p h. PlayerId (fst (f p h)) = PlayerId p"
  shows "ids_ok (with_player_and_hand pid f st)"
proof (cases "CurrentHand st")
  case (Some h)
  show ?thesis
  proof (cases "player st pid")
    case (Some p)
    with \<open>CurrentHand st = Some h\<close> show ?thesis
      using ids_upd_player [OF ids_cong [OF assms(1), of "st\<lparr>CurrentHand := Some (snd (f p h))\<rparr>"],
          of pid "\<lambda>_. fst (f p h)"] assms(2)
      by (simp add: with_player_and_hand_Some player_def)
  qed (use Some assms(1) in \<open>simp add: with_player_and_hand_def\<close>)
qed (use assms(1) in \<open>simp add: with_player_and_hand_def\<close>)

lemma ids_award: "ids_ok st \<Longrightarrow> ids_ok (award_winners a s ws st)"
  by (induction ws arbitrary: a st) (simp_all add: ids_upd_player)

lemma ids_reset: "ids_ok st \<Longrightarrow> ids_ok (resetStreetState st)"
  by (simp add: resetStreetState_def Let_def ids_upd_all)

lemma ids_update: "ids_ok st \<Longrightarrow> PlayerId p = pid \<Longrightarrow> Players st' = AList.update pid p (Players st) \<Longrightarrow> ids_ok st'"
proof -
  assume a: "ids_ok st" "PlayerId p = pid" "Players st' = AList.update pid p (Players st)"
  have d: "distinct (keys (Players st'))"
    using a distinct_update [of "Players st" pid p] by (simp add: ids_ok_def keys_def)
  moreover have "PlayerId q = i" if "(i, q) \<in> set (Players st')" for i q
  proof -
    have "map_of (Players st') i = Some q" using that d by (simp add: keys_def)
    then show ?thesis using a by (auto simp: ids_ok_def update_conv split: if_splits dest!: map_of_SomeD)
  qed
  ultimately show ?thesis by (auto simp: ids_ok_def)
qed

lemma ids_left: "ids_ok st \<Longrightarrow> ids_ok (apply_PlayerLeft pid st)"
  by (auto simp: ids_ok_def apply_PlayerLeft_def keys_def AList.delete_eq distinct_map_filter)

lemmas handler_defs = apply_TableCreated_def apply_TableResumed_def apply_PlayerSatOut_def
  apply_PlayerSatIn_def apply_PlayerDisconnected_def apply_PlayerReconnected_def
  apply_ShownCards_def apply_FlopDealt_def apply_TurnDealt_def apply_RiverDealt_def
  apply_SecondBoardDealt_def apply_PlayerFolded_def apply_PlayerChecked_def
  apply_PlayerMuckedCards_def apply_ActionStarted_def apply_BettingRoundEnded_def
  apply_SidePotCreated_def apply_Showdown_def apply_RakeTaken_def apply_HandEnded_def

lemma ids_payload:
  assumes "ids_ok st"
  shows "ids_ok (apply_payload e t st)"
proof -
  note fields = ids_cong [OF assms] ids_upd_player [OF assms] ids_upd_all [OF assms]
    ids_with [OF assms] ids_left [OF assms]
  show ?thesis
  proof (cases e)
    case (EvPlayerJoined pid uid seat buyIn)
    have "ids_ok (apply_PlayerJoined pid uid seat buyIn st)"
      by (rule ids_update [OF assms _ trans [OF arg_cong [of _ _ Players, OF apply_PlayerJoined_def]]])
        simp_all
    then show ?thesis using EvPlayerJoined by simp
  next
    case (EvHandStarted x1 x2 x3 x4 x5 x6 x7)
    let ?g = "\<lambda>p. p\<lparr>IsFolded := False, IsAllIn := False, CurrentBet := 0,
                   TotalCommittedThisHand := 0, HoleCard_1 := None, HoleCard_2 := None\<rparr>"
    have "Players (apply_HandStarted x1 x2 x3 x4 x5 x6 x7 t st) = Players (upd_all_players ?g st)"
      by (simp add: apply_HandStarted_def Let_def split: option.split)
    moreover have "ids_ok (upd_all_players ?g st)" by (rule fields(3)) simp
    ultimately have "ids_ok (apply_HandStarted x1 x2 x3 x4 x5 x6 x7 t st)"
      by (metis ids_ok_def)
    then show ?thesis using EvHandStarted by simp
  next
    case (EvBlindPosted x1 x2 x3 x4 x5)
    then show ?thesis using fields(4) by (simp add: apply_BlindPosted_def Let_def)
  next
    case (EvAntePosted x1 x2)
    then show ?thesis using fields(4) by (simp add: apply_AntePosted_def)
  next
    case (EvStraddlePosted x1 x2)
    then show ?thesis using fields(4) by (simp add: apply_StraddlePosted_def Let_def)
  next
    case (EvPlayerCalled x1 x2)
    then show ?thesis using fields(4) by (simp add: apply_PlayerCalled_def Let_def)
  next
    case (EvPlayerBet x1 x2)
    then show ?thesis using fields(4) assms
      by (simp add: apply_PlayerBet_def reopen_action_def Let_def)
  next
    case (EvPlayerRaised x1 x2 x3)
    then show ?thesis using fields(4) assms
      by (simp add: apply_PlayerRaised_def reopen_action_def Let_def)
  next
    case (EvPlayerAllIn x1 x2)
    then show ?thesis using fields(4) assms
      by (simp add: apply_PlayerAllIn_def all_in_raise_def Let_def split: option.split)
  next
    case (EvPotAwarded x1 x2 x3 x4)
    then show ?thesis using assms by (simp add: apply_PotAwarded_def Let_def ids_award)
  qed (use assms fields in \<open>simp_all add: handler_defs ids_reset Let_def\<close>)
qed

lemma ids_Apply: "ids_ok st \<Longrightarrow> ids_ok (Apply st evt)"
  by (auto simp: Apply_def Let_def intro!: ids_payload ids_cong [of st] split: option.split)

lemma ids_applyAll: "ids_ok st \<Longrightarrow> ids_ok (applyAll st evs)"
  by (induction evs arbitrary: st) (simp_all add: ids_Apply)

lemma mk_event_inject [simp]: "mk_event e = mk_event e' \<longleftrightarrow> e = e'"
  by (simp add: mk_event_def)

section \<open>Coming to rest\<close>

text \<open>\<open>settles k\<close>: with these arguments at most \<open>k\<close> batches of events follow, or the dealer fails.\<close>

definition at_rest :: "(int \<Rightarrow> string) \<Rightarrow> 'd Dealer \<Rightarrow> timestamp \<Rightarrow> GameState \<Rightarrow> bool" where
  "at_rest uuid dlr now st \<longleftrightarrow> (\<forall>d. advance uuid dlr now st d = (Inr [], d))"

primrec settles :: "nat \<Rightarrow> (int \<Rightarrow> string) \<Rightarrow> 'd Dealer \<Rightarrow> timestamp \<Rightarrow> GameState \<Rightarrow> bool" where
  "settles 0 uuid dlr now st \<longleftrightarrow> at_rest uuid dlr now st"
| "settles (Suc k) uuid dlr now st \<longleftrightarrow>
     at_rest uuid dlr now st
     \<or> (\<forall>d. \<forall>evs d'. advance uuid dlr now st d = (Inr evs, d') \<longrightarrow>
           evs \<noteq> [] \<and> settles k uuid dlr now (applyAll st evs))"

lemma settles_rest: "at_rest uuid dlr now st \<Longrightarrow> settles k uuid dlr now st"
  by (cases k) simp_all

lemma settles_Suc: "settles k uuid dlr now st \<Longrightarrow> settles (Suc k) uuid dlr now st"
proof (induction k arbitrary: st)
  case (Suc k)
  then show ?case by (subst settles.simps) auto
qed simp

lemma settles_mono: "settles k uuid dlr now st \<Longrightarrow> k \<le> n \<Longrightarrow> settles n uuid dlr now st"
  by (induction n) (auto simp del: settles.simps intro: settles_Suc elim: le_SucE)

lemma settles_batch:
  assumes "\<And>d. advance uuid dlr now st d = (Inr evs, d)" and "evs \<noteq> []"
    and "settles k uuid dlr now (applyAll st evs)"
  shows "settles (Suc k) uuid dlr now st"
  using assms by simp

lemma run_steps_settles:
  "settles k uuid dlr now st \<Longrightarrow> k < n \<Longrightarrow> run_steps n uuid dlr now st d = (Inr evs, d') \<Longrightarrow>
   at_rest uuid dlr now (applyAll st evs)"
proof (induction n arbitrary: k st d evs d')
  case (Suc n)
  show ?case
  proof (cases "at_rest uuid dlr now st")
    case True
    then have "advance uuid dlr now st d = (Inr [], d)" by (simp add: at_rest_def)
    then show ?thesis using Suc.prems(3) True by simp
  next
    case False
    then obtain k' where k: "k = Suc k'" using Suc.prems(1) by (cases k) auto
    obtain r d1 where r: "advance uuid dlr now st d = (r, d1)" by fastforce
    with Suc.prems(3) obtain batch where b: "r = Inr batch" by (cases r) auto
    have "batch \<noteq> []" "settles k' uuid dlr now (applyAll st batch)"
      using Suc.prems(1) False r b unfolding k by auto
    moreover obtain rest where "run_steps n uuid dlr now (applyAll st batch) d1 = (Inr rest, d')"
      "evs = batch @ rest"
      using Suc.prems(3) r b \<open>batch \<noteq> []\<close> by (auto split: prod.splits sum.splits)
    ultimately show ?thesis using Suc.IH Suc.prems(2) k by simp
  qed
qed simp

subsection \<open>Waiting for a player\<close>

lemma rest_acting:
  assumes "CurrentHand st = Some h" and "\<not> deadline_passed h now" and "2 \<le> nonFoldedCount st"
    and "ActingPlayerId h \<noteq> None"
  shows "at_rest uuid dlr now st"
  using assms by (auto simp: at_rest_def advance_def advanceHand_def Let_def)

lemma in_hand_Version [simp]: "in_hand (st\<lparr>Version := v\<rparr>) = in_hand st"
  by (simp add: in_hand_def player_def fun_eq_iff)

lemma settles_action:
  assumes "CurrentHand st = Some h" and "ActingPlayerId h = None" and "2 \<le> nonFoldedCount st"
    and "PendingActions h \<noteq> []"
  shows "settles 1 uuid dlr now st"
proof -
  let ?evs = "startNextAction st now"
  obtain pid tm dl where ev: "?evs = [mk_event (EvActionStarted pid tm dl)]"
    and dl: "dl \<noteq> None \<longrightarrow> now < the dl"
    by (auto simp: startNextAction_def Let_def split: option.splits)
  have adv: "advance uuid dlr now st d = (Inr ?evs, d)" for d
    using assms by (simp add: advance_def advanceHand_def deadline_passed_def Let_def)
  let ?st = "applyAll st ?evs"
  let ?h = "h\<lparr>ActingPlayerId := Some pid, ActionDeadline := dl\<rparr>"
  obtain v where st: "?st = apply_ActionStarted pid dl (st\<lparr>Version := v\<rparr>)"
    unfolding ev using Apply_mk_event [of st "EvActionStarted pid tm dl"] by auto
  have h: "CurrentHand ?st = Some ?h" unfolding st using assms(1) by (simp add: apply_ActionStarted_def)
  have "in_hand ?st = in_hand st"
    unfolding st apply_ActionStarted_def by (simp add: in_hand_def fun_eq_iff player_def)
  then have "nonFoldedCount ?st = nonFoldedCount st" using h assms(1) by (simp add: nonFoldedCount_def)
  moreover have "\<not> deadline_passed ?h now" using dl by (auto simp: deadline_passed_def split: option.splits)
  ultimately have "at_rest uuid dlr now ?st" using rest_acting [OF h] assms(3) by simp
  then show ?thesis using settles_batch [OF adv, of 0] ev by (simp add: One_nat_def)
qed

subsection \<open>A new hand\<close>

text \<open>Right after \<open>HandStarted\<close> everybody in the order of the hand is in it and has to act;
  antes, blinds and hole cards leave that so.\<close>

definition fresh :: "string list \<Rightarrow> GameState \<Rightarrow> bool" where
  "fresh ids st \<longleftrightarrow>
     (\<exists>h. CurrentHand st = Some h \<and> ActingPlayerId h = None \<and> PendingActions h = ids
        \<and> ActionOrder h = ids \<and> (\<forall>pid \<in> set ids. in_hand st pid))"

lemma fresh_Version: "fresh ids st \<Longrightarrow> fresh ids (st\<lparr>Version := v\<rparr>)"
  by (simp add: fresh_def)

lemma in_hand_upd:
  assumes "\<And>p. IsFolded (f p) = IsFolded p"
  shows "in_hand (upd_player pid f st) = in_hand st"
  using assms by (auto simp: in_hand_def fun_eq_iff player_upd_player split: option.splits)

lemma fresh_upd_player:
  "fresh ids st \<Longrightarrow> (\<And>p. IsFolded (f p) = IsFolded p) \<Longrightarrow> fresh ids (upd_player pid f st)"
  by (simp add: fresh_def in_hand_upd)

lemma fresh_with:
  assumes "fresh ids st"
    and "\<And>p h. IsFolded (fst (f p h)) = IsFolded p \<and> ActingPlayerId (snd (f p h)) = ActingPlayerId h
      \<and> PendingActions (snd (f p h)) = PendingActions h \<and> ActionOrder (snd (f p h)) = ActionOrder h"
  shows "fresh ids (with_player_and_hand pid f st)"
proof -
  obtain h where h: "CurrentHand st = Some h" using assms(1) by (auto simp: fresh_def)
  show ?thesis
  proof (cases "player st pid")
    case (Some p)
    have "in_hand (upd_player pid (\<lambda>_. fst (f p h)) (st\<lparr>CurrentHand := Some (snd (f p h))\<rparr>)) = in_hand st"
      using Some assms(2) by (auto simp: in_hand_def fun_eq_iff player_def map_of_map_entry split: option.splits)
    then show ?thesis using assms(1) assms(2) h
      by (simp add: fresh_def with_player_and_hand_Some [OF h Some])
  qed (use h assms(1) in \<open>simp add: with_player_and_hand_def\<close>)
qed

definition keeps_fresh :: "EventPayload \<Rightarrow> bool" where
  "keeps_fresh e \<longleftrightarrow> (case e of EvAntePosted pid a \<Rightarrow> True | EvBlindPosted pid a s b d \<Rightarrow> True
     | EvHoleCardsDealt pid \<Rightarrow> True | EvHoleCardsRevealed pid c1 c2 \<Rightarrow> True | _ \<Rightarrow> False)"

lemma fresh_payload:
  assumes "fresh ids st" and "keeps_fresh e"
  shows "fresh ids (apply_payload e t st)"
proof (cases e)
  case (EvBlindPosted pid a s b dead)
  have "fresh ids (apply_BlindPosted pid a b dead st)"
    unfolding apply_BlindPosted_def Let_def by (rule fresh_with [OF assms(1)]) simp
  with EvBlindPosted show ?thesis by simp
next
  case (EvAntePosted pid a)
  have "fresh ids (apply_AntePosted pid a st)"
    unfolding apply_AntePosted_def by (rule fresh_with [OF assms(1)]) simp
  with EvAntePosted show ?thesis by simp
qed (use assms in \<open>simp_all add: keeps_fresh_def apply_ShownCards_def fresh_upd_player\<close>)

lemma fresh_applyAll:
  "fresh ids st \<Longrightarrow> \<forall>e \<in> set es. keeps_fresh e \<Longrightarrow> fresh ids (applyAll st (map mk_event es))"
proof (induction es arbitrary: st)
  case (Cons e es)
  obtain v where "Apply st (mk_event e) = apply_payload e None (st\<lparr>Version := v\<rparr>)"
    using Apply_mk_event by blast
  then have "fresh ids (Apply st (mk_event e))"
    using fresh_payload fresh_Version Cons.prems by simp
  then show ?case using Cons by simp
qed simp

lemma dealHoleCards_events:
  "dealHoleCards dlr ps d = (Inr evs, d') \<Longrightarrow>
   \<exists>es. evs = map mk_event es \<and> (\<forall>e \<in> set es. keeps_fresh e)"
proof (induction ps arbitrary: d evs d')
  case (Cons p ps)
  then obtain c1 c2 d2 rest where "dealHoleCards dlr ps d2 = (Inr rest, d')"
    "evs = mk_event (EvHoleCardsDealt (PlayerId p))
       # mk_event (EvHoleCardsRevealed (PlayerId p) c1 c2) # rest"
    by (auto split: prod.splits sum.splits)
  moreover from this Cons.IH obtain es where "rest = map mk_event es" "\<forall>e \<in> set es. keeps_fresh e"
    by blast
  ultimately show ?case
    by (intro exI [of _ "EvHoleCardsDealt (PlayerId p) # EvHoleCardsRevealed (PlayerId p) c1 c2 # es"])
      (simp add: keeps_fresh_def)
qed simp

lemma length_rotateFrom [simp]: "length (rotateFrom xs i) = length xs"
  by (simp add: rotateFrom_def)

lemma length_rotateAfter [simp]: "length (rotateAfter xs x) = length xs"
  by (simp add: rotateAfter_def split: option.split)

lemma rotateFrom_rotate: "rotateFrom xs i = rotate i xs"
  by (rule nth_equalityI) (simp_all add: rotateFrom_def nth_rotate)

lemma set_rotateFrom: "set (rotateFrom xs i) = set xs"
  by (simp add: rotateFrom_rotate)

lemma set_rotateAfter [simp]: "set (rotateAfter xs x) = set xs"
  by (simp add: rotateAfter_def set_rotateFrom split: option.split)

lemma preflop_shape:
  "length (preflopActionOrder st d b) = length (seatedActivePlayersBySeats st)"
  "set (preflopActionOrder st d b) = set (seatedActivePlayersBySeats st)"
  by (auto simp: preflopActionOrder_def Let_def set_rotateFrom split: option.split)

lemma seated_active:
  "pid \<in> set (seatedActivePlayersBySeats st) \<longleftrightarrow>
     (\<exists>p. (pid, p) \<in> set (Players st) \<and> \<not> IsSittingOut p \<and> Stack p > 0)"
  by (force simp: seatedActivePlayersBySeats_def)

lemma length_seated_active:
  "length (seatedActivePlayersBySeats st) = length (activePlayers st)"
proof -
  have "length (filter (\<lambda>(i, p). \<not> IsSittingOut p \<and> Stack p > 0) m)
      = length (filter (\<lambda>p. \<not> IsSittingOut p \<and> Stack p > 0) (map snd m))"
    for m :: "(string \<times> PlayerState) list"
    by (induction m) auto
  then show ?thesis by (simp add: seatedActivePlayersBySeats_def activePlayers_def)
qed

lemma settles_started:
  assumes "2 \<le> length (activePlayers st)"
    and "evs = hand_opening hid st (activePlayers st) dealer sb bb @ holes"
    and "holes = map mk_event hs" and "\<forall>e \<in> set hs. keeps_fresh e"
  shows "settles 1 uuid dlr now (applyAll st evs)"
proof -
  let ?g = "\<lambda>p. p\<lparr>IsFolded := False, IsAllIn := False, CurrentBet := 0,
                   TotalCommittedThisHand := 0, HoleCard_1 := None, HoleCard_2 := None\<rparr>"
  obtain e0 rest where ev: "evs = mk_event e0 # map mk_event rest" "\<forall>e \<in> set rest. keeps_fresh e"
    and e0: "e0 = EvHandStarted hid (add64 (HandNumber st) 1) (PlayerId dealer) (PlayerId sb)
             (PlayerId bb) (get_cfg SmallBlind 0 (Config st)) (get_cfg BigBlind 0 (Config st))"
  proof
    let ?cfg = "Config st"
    show "evs = mk_event (EvHandStarted hid (add64 (HandNumber st) 1) (PlayerId dealer) (PlayerId sb)
             (PlayerId bb) (get_cfg SmallBlind 0 (Config st)) (get_cfg BigBlind 0 (Config st)))
        # map mk_event ((if get_cfg Ante 0 ?cfg > 0
            then map (\<lambda>p. EvAntePosted (PlayerId p) (min (get_cfg Ante 0 ?cfg) (Stack p))) (activePlayers st)
            else [])
         @ (if get_cfg BbAnte 0 ?cfg > 0
            then [EvAntePosted (PlayerId bb) (min (get_cfg BbAnte 0 ?cfg) (Stack bb))] else [])
         @ [EvBlindPosted (PlayerId sb) (min (get_cfg SmallBlind 0 ?cfg) (Stack sb)) True False False,
            EvBlindPosted (PlayerId bb) (min (get_cfg BigBlind 0 ?cfg) (Stack bb)) False True False] @ hs)"
      unfolding assms(2,3) hand_opening_def Let_def by (simp add: comp_def)
  qed (use assms(4) in \<open>auto simp: keeps_fresh_def\<close>)
  obtain v where st1: "Apply st (mk_event e0) = apply_payload e0 None (st\<lparr>Version := v\<rparr>)"
    using Apply_mk_event by blast
  let ?s0 = "upd_all_players ?g (st\<lparr>Version := v\<rparr>)"
  let ?ids = "preflopActionOrder ?s0 (PlayerId dealer) (PlayerId bb)"
  have act: "length (seatedActivePlayersBySeats ?s0) = length (activePlayers st)"
    unfolding length_seated_active
    by (simp add: activePlayers_def values_upd_def case_prod_beta comp_def filter_map)
  have fresh: "fresh ?ids (Apply st (mk_event e0))"
  proof -
    have "in_hand (Apply st (mk_event e0)) pid" if "pid \<in> set ?ids" for pid
    proof -
      have "pid \<in> set (keys (Players ?s0))"
        using that unfolding preflop_shape(2) seated_active by (force simp: keys_def)
      then obtain q where "player ?s0 pid = Some q"
        using map_of_None_keys [of "Players ?s0" pid] by (cases "player ?s0 pid") (auto simp: player_def)
      moreover from this have "\<not> IsFolded q" by (auto simp: player_upd_all)
      moreover have "player (Apply st (mk_event e0)) pid = player ?s0 pid"
        unfolding st1 unfolding e0
        by (simp add: apply_HandStarted_def Let_def player_def split: option.split)
      ultimately show ?thesis by (simp add: in_hand_def)
    qed
    then show ?thesis unfolding fresh_def st1 unfolding e0
      by (simp add: apply_HandStarted_def Let_def split: option.split)
  qed
  have "fresh ?ids (applyAll st evs)"
    unfolding ev(1) applyAll_simps by (rule fresh_applyAll [OF fresh ev(2)])
  then obtain h where h: "CurrentHand (applyAll st evs) = Some h" "ActingPlayerId h = None"
    "PendingActions h = ?ids" "ActionOrder h = ?ids" "\<forall>pid \<in> set ?ids. in_hand (applyAll st evs) pid"
    by (auto simp: fresh_def)
  have len: "2 \<le> length ?ids" using act assms(1) by (simp add: preflop_shape(1))
  have "nonFoldedCount (applyAll st evs) = length ?ids"
    using h by (simp add: nonFoldedCount_def)
  moreover have "?ids \<noteq> []" using len by auto
  ultimately show ?thesis using settles_action [OF h(1,2)] h(3) len by simp
qed

lemma settles_idle_started:
  assumes "CurrentHand st = None"
    and "\<forall>p \<in> snd ` set (Players st). Stack p = 0 \<longrightarrow> IsSittingOut p"
  shows "settles 2 uuid dlr now st"
proof -
  have no: "filter (\<lambda>p. Stack p = 0 \<and> \<not> IsSittingOut p) (map snd (Players st)) = []"
    using assms(2) by (auto simp: filter_empty_conv)
  show ?thesis
  proof (cases "(Status st = GAME_STATUS_WAITING \<or> Status st = GAME_STATUS_ACTIVE)
      \<and> max 2 (get_cfg MinPlayersToStart 0 (Config st)) \<le> int (length (activePlayers st))")
    case False
    then have "at_rest uuid dlr now st"
      using assms(1) no by (auto simp: at_rest_def advance_def advanceIdle_def Let_def max_def split: if_splits)
    then show ?thesis by (rule settles_rest)
  next
    case True
    then have adv: "advance uuid dlr now st d = startNewHand uuid dlr st (activePlayers st) d" for d
      using assms(1) no by (auto simp: advance_def advanceIdle_def Let_def max_def split: if_splits)
    have two: "2 \<le> length (activePlayers st)" using True by linarith
    have "evs \<noteq> [] \<and> settles 1 uuid dlr now (applyAll st evs)"
      if start: "startNewHand uuid dlr st (activePlayers st) d = (Inr evs, d')" for d evs d'
    proof -
      obtain dealer sb bb holes d1 where ev:
        "evs = hand_opening (uuid (Version st)) st (activePlayers st) dealer sb bb @ holes"
        "dealHoleCards dlr (activePlayers st) d1 = (Inr holes, d')"
        using start by (auto simp: startNewHand_def Let_def split: prod.splits option.splits sum.splits)
      obtain hs where "holes = map mk_event hs" "\<forall>e \<in> set hs. keeps_fresh e"
        using dealHoleCards_events [OF ev(2)] by blast
      from settles_started [OF two ev(1) this] have "settles 1 uuid dlr now (applyAll st evs)" .
      moreover have "evs \<noteq> []" unfolding ev(1) hand_opening_def Let_def by simp
      ultimately show ?thesis by blast
    qed
    then have "settles (Suc 1) uuid dlr now st" unfolding settles.simps(2) [of 1] adv by blast
    then show ?thesis by (simp only: numeral_2_eq_2 One_nat_def)
  qed
qed

lemma satOut_all:
  "CurrentHand (applyAll st (map (\<lambda>i. mk_event (EvPlayerSatOut i)) is)) = CurrentHand st
   \<and> keys (Players (applyAll st (map (\<lambda>i. mk_event (EvPlayerSatOut i)) is))) = keys (Players st)
   \<and> (\<forall>i. player (applyAll st (map (\<lambda>i. mk_event (EvPlayerSatOut i)) is)) i
        = map_option (\<lambda>p. if i \<in> set is
            then p\<lparr>IsSittingOut := True, SeatStatus := SEAT_STATUS_SITTING_OUT\<rparr> else p) (player st i))"
proof (induction "is" arbitrary: st)
  case Nil
  then show ?case by (simp add: option.map_ident)
next
  case (Cons j js)
  obtain v where v: "Apply st (mk_event (EvPlayerSatOut j)) = apply_PlayerSatOut j (st\<lparr>Version := v\<rparr>)"
    using Apply_mk_event [of st "EvPlayerSatOut j"] by auto
  let ?st = "apply_PlayerSatOut j (st\<lparr>Version := v\<rparr>)"
  have "CurrentHand ?st = CurrentHand st" "keys (Players ?st) = keys (Players st)"
    and "player ?st i = map_option (\<lambda>p. if i = j
        then p\<lparr>IsSittingOut := True, SeatStatus := SEAT_STATUS_SITTING_OUT\<rparr> else p) (player st i)" for i
    unfolding apply_PlayerSatOut_def
    by (simp_all add: player_def map_of_map_entry option.map_ident)
  then show ?case using Cons.IH [of ?st] v
    by (auto simp: option.map_comp comp_def intro!: option.map_cong)
qed

lemma settles_idle:
  assumes "ids_ok st" and "CurrentHand st = None"
  shows "settles 3 uuid dlr now st"
proof -
  let ?busted = "filter (\<lambda>p. Stack p = 0 \<and> \<not> IsSittingOut p) (map snd (Players st))"
  show ?thesis
  proof (cases "?busted = []")
    case True
    then have "\<forall>p \<in> snd ` set (Players st). Stack p = 0 \<longrightarrow> IsSittingOut p"
      by (auto simp: filter_empty_conv)
    then have "settles 2 uuid dlr now st" by (rule settles_idle_started [OF assms(2)])
    then show ?thesis by (rule settles_mono) simp
  next
    case False
    let ?is = "map PlayerId ?busted"
    let ?evs = "map (\<lambda>i. mk_event (EvPlayerSatOut i)) ?is"
    let ?st = "applyAll st ?evs"
    show ?thesis
    proof (cases "Status st = GAME_STATUS_WAITING \<or> Status st = GAME_STATUS_ACTIVE")
      case False
      then have "at_rest uuid dlr now st"
        using assms(2) by (simp add: at_rest_def advance_def advanceIdle_def)
      then show ?thesis by (rule settles_rest)
    next
      case True
      then have adv: "advance uuid dlr now st d = (Inr ?evs, d)" for d
        using assms(2) \<open>?busted \<noteq> []\<close>
        by (simp add: advance_def advanceIdle_def Let_def comp_def del: filter_map)
      have sit: "Stack q = 0 \<longrightarrow> IsSittingOut q" if q: "(i, q) \<in> set (Players ?st)" for i q
      proof -
        have d: "distinct (keys (Players ?st))" using assms(1) satOut_all [of st ?is] by (simp add: ids_ok_def)
        have "player ?st i = Some q" using q d by (simp add: player_def keys_def)
        then obtain p where p: "player st i = Some p" "q = (if i \<in> set ?is
            then p\<lparr>IsSittingOut := True, SeatStatus := SEAT_STATUS_SITTING_OUT\<rparr> else p)"
          using satOut_all [of st ?is] by auto
        have ip: "(i, p) \<in> set (Players st)" "PlayerId p = i"
          using p(1) assms(1) by (auto simp: player_def ids_ok_def dest!: map_of_SomeD)
        have busted: "i \<in> set ?is" if "Stack p = 0" "\<not> IsSittingOut p"
        proof -
          have "p \<in> set (map snd (Players st))" using image_eqI [of p snd, OF _ ip(1)] by simp
          then have "p \<in> set ?busted" using that by simp
          then have "PlayerId p \<in> PlayerId ` set ?busted" by (rule imageI)
          then show ?thesis unfolding ip(2) set_map .
        qed
        show ?thesis
        proof (cases "i \<in> set ?is")
          case True
          then have "q = p\<lparr>IsSittingOut := True, SeatStatus := SEAT_STATUS_SITTING_OUT\<rparr>"
            unfolding p(2) by (rule if_P)
          then show ?thesis by simp
        next
          case False
          then have "q = p" unfolding p(2) by (rule if_not_P)
          then show ?thesis using False busted by blast
        qed
      qed
      have "CurrentHand ?st = None" using satOut_all [of st ?is] assms(2) by simp
      moreover have "\<forall>p \<in> snd ` set (Players ?st). Stack p = 0 \<longrightarrow> IsSittingOut p"
      proof
        fix p assume "p \<in> snd ` set (Players ?st)"
        then obtain x where "x \<in> set (Players ?st)" "p = snd x" by (rule imageE)
        then show "Stack p = 0 \<longrightarrow> IsSittingOut p" using sit [of "fst x" p] by simp
      qed
      ultimately have "settles 2 uuid dlr now ?st" by (rule settles_idle_started)
      moreover have "?evs \<noteq> []" using \<open>?busted \<noteq> []\<close> by simp
      ultimately have "settles (Suc 2) uuid dlr now st" by (intro settles_batch [OF adv])
      then show ?thesis by (simp only: numeral_3_eq_3 numeral_2_eq_2)
    qed
  qed
qed

subsection \<open>During a hand\<close>

lemma ended_hand_None: "CurrentHand (applyAll st (evs @ [mk_event (EvHandEnded n)])) = None"
proof -
  obtain v where "Apply (applyAll st evs) (mk_event (EvHandEnded n))
      = apply_HandEnded n ((applyAll st evs)\<lparr>Version := v\<rparr>)"
    using Apply_mk_event [of "applyAll st evs" "EvHandEnded n"] by auto
  then show ?thesis by (simp add: apply_HandEnded_def Let_def)
qed

lemma settles_uncontested:
  assumes "ids_ok st" and "CurrentHand st = Some h" and "\<not> deadline_passed h now"
    and "nonFoldedCount st \<le> 1"
  shows "settles 4 uuid dlr now st"
proof -
  have adv: "advance uuid dlr now st d = (Inr (endHandUncontested st), d)" for d
    using assms(2-4) by (simp add: advance_def advanceHand_def Let_def)
  show ?thesis
  proof (cases "endHandUncontested st = []")
    case True
    then have "at_rest uuid dlr now st" by (simp add: at_rest_def adv)
    then show ?thesis by (rule settles_rest)
  next
    case False
    then obtain evs n where ev: "endHandUncontested st = evs @ [mk_event (EvHandEnded n)]"
      by (auto simp: endHandUncontested_def Let_def split: option.splits if_splits)
    have "settles 3 uuid dlr now (applyAll st (endHandUncontested st))"
      using ids_applyAll [OF assms(1)] ended_hand_None unfolding ev by (intro settles_idle)
    then show ?thesis using settles_batch [OF adv False, of 3] by simp
  qed
qed

lemma nonFolded_showdown:
  assumes "CurrentHand st = Some h" and "2 \<le> nonFoldedCount st"
  shows "\<exists>evs n. endHandShowdown st = evs @ [mk_event (EvHandEnded n)]"
proof -
  have "nonFoldedPlayerIDs st \<noteq> []"
    using assms by (auto simp: nonFoldedCount_def nonFoldedPlayerIDs_def)
  then show ?thesis by (auto simp: endHandShowdown_def Let_def)
qed

text \<open>After a board card the betting starts over with everybody in the new order to act.\<close>

definition new_street :: "GameState \<Rightarrow> bool" where
  "new_street st \<longleftrightarrow>
     (\<exists>h. CurrentHand st = Some h \<and> ActingPlayerId h = None \<and> PendingActions h = ActionOrder h)"

lemma new_street_dealt:
  assumes "CurrentHand st \<noteq> None"
  shows "new_street (apply_FlopDealt a b c st)" "new_street (apply_TurnDealt c st)"
    "new_street (apply_RiverDealt c st)"
  using assms by (auto simp: new_street_def apply_FlopDealt_def apply_TurnDealt_def apply_RiverDealt_def
      resetStreetState_def Let_def)

lemma settles_new_street:
  assumes "ids_ok st" and "new_street st"
  shows "settles 4 uuid dlr now st"
proof -
  obtain h where h: "CurrentHand st = Some h" "ActingPlayerId h = None" "PendingActions h = ActionOrder h"
    using assms(2) by (auto simp: new_street_def)
  show ?thesis
  proof (cases "nonFoldedCount st \<le> 1")
    case True
    then show ?thesis using h by (intro settles_uncontested [OF assms(1) h(1)]) (simp_all add: deadline_passed_def)
  next
    case False
    then have "ActionOrder h \<noteq> []" using h(1) by (auto simp: nonFoldedCount_def)
    then have "settles 1 uuid dlr now st" using False h by (intro settles_action [OF h(1,2)]) simp_all
    then show ?thesis by (rule settles_mono) simp
  qed
qed

lemma street_dealt:
  assumes "ids_ok st" and "CurrentHand st = Some h"
    and "e \<in> {EvFlopDealt a b c, EvTurnDealt a, EvRiverDealt a}"
  shows "settles 4 uuid dlr now (applyAll st [mk_event (EvBettingRoundEnded ph pt), mk_event e])"
proof -
  let ?s1 = "Apply st (mk_event (EvBettingRoundEnded ph pt))"
  obtain v where v: "?s1 = apply_BettingRoundEnded (st\<lparr>Version := v\<rparr>)"
    using Apply_mk_event [of st "EvBettingRoundEnded ph pt"] by auto
  obtain w where w: "Apply ?s1 (mk_event e) = apply_payload e None (?s1\<lparr>Version := w\<rparr>)"
    using Apply_mk_event by blast
  have "CurrentHand (?s1\<lparr>Version := w\<rparr>) \<noteq> None"
    using assms(2) by (simp add: v apply_BettingRoundEnded_def)
  then have "new_street (Apply ?s1 (mk_event e))"
    using new_street_dealt [of "?s1\<lparr>Version := w\<rparr>"] assms(3) unfolding w by auto
  moreover have "ids_ok (Apply ?s1 (mk_event e))" using assms(1) by (intro ids_Apply)
  ultimately show ?thesis using settles_new_street by simp
qed

lemma settles_street:
  assumes "ids_ok st" and "CurrentHand st = Some h" and "ActingPlayerId h = None"
    and "PendingActions h = []" and "2 \<le> nonFoldedCount st"
  shows "settles 5 uuid dlr now st"
proof -
  have adv: "advance uuid dlr now st d = advanceStreet dlr st d" for d
    using assms(2-5) by (simp add: advance_def advanceHand_def deadline_passed_def Let_def)
  have "evs \<noteq> [] \<and> settles 4 uuid dlr now (applyAll st evs)"
    if "advanceStreet dlr st d = (Inr evs, d')"
      and "Phase h \<in> {HAND_PHASE_PREFLOP, HAND_PHASE_FLOP, HAND_PHASE_TURN, HAND_PHASE_RIVER}" for d evs d'
  proof (cases "Phase h = HAND_PHASE_RIVER")
    case True
    then have ev: "evs = mk_event (EvBettingRoundEnded (Phase h) (Pot h)) # endHandShowdown st"
      using that(1) assms(2) by (simp add: advanceStreet_def Let_def)
    obtain evs' n where "endHandShowdown st = evs' @ [mk_event (EvHandEnded n)]"
      using nonFolded_showdown [OF assms(2,5)] by blast
    then have "CurrentHand (applyAll st evs) = None"
      using ended_hand_None [of "Apply st (mk_event (EvBettingRoundEnded (Phase h) (Pot h)))" evs' n] ev by simp
    then have "settles 3 uuid dlr now (applyAll st evs)"
      using ids_applyAll [OF assms(1)] by (intro settles_idle)
    then show ?thesis using settles_mono [of 3 uuid dlr now _ 4] ev by simp
  next
    case False
    let ?bre = "mk_event (EvBettingRoundEnded (Phase h) (Pot h))"
    from False that assms(2) obtain a b c where
      "evs = [?bre, mk_event (EvFlopDealt a b c)] \<or> evs = [?bre, mk_event (EvTurnDealt a)]
       \<or> evs = [?bre, mk_event (EvRiverDealt a)]"
      by (auto simp: advanceStreet_def Let_def split: prod.splits sum.splits)
    then show ?thesis using street_dealt [OF assms(1,2), of _ a b c] by blast
  qed
  moreover have "at_rest uuid dlr now st"
    if "Phase h \<notin> {HAND_PHASE_PREFLOP, HAND_PHASE_FLOP, HAND_PHASE_TURN, HAND_PHASE_RIVER}"
    using that assms(2) by (cases "Phase h") (simp_all add: at_rest_def adv advanceStreet_def Let_def)
  ultimately have "settles (Suc 4) uuid dlr now st" unfolding settles.simps(2) [of 4] adv by blast
  then show ?thesis by simp
qed

text \<open>Any state of a hand in which the acting player's time is not up.\<close>

lemma settles_hand:
  assumes "ids_ok st" and "CurrentHand st = Some h" and "\<not> deadline_passed h now"
  shows "settles 5 uuid dlr now st"
proof -
  consider "nonFoldedCount st \<le> 1" | "2 \<le> nonFoldedCount st" "ActingPlayerId h \<noteq> None"
    | "2 \<le> nonFoldedCount st" "ActingPlayerId h = None" "PendingActions h = []"
    | "2 \<le> nonFoldedCount st" "ActingPlayerId h = None" "PendingActions h \<noteq> []" by linarith
  then show ?thesis
  proof cases
    case 1
    then have "settles 4 uuid dlr now st" by (rule settles_uncontested [OF assms])
    then show ?thesis by (rule settles_mono) simp
  next
    case 2
    then show ?thesis using rest_acting [OF assms(2,3)] by (intro settles_rest)
  next
    case 3
    then show ?thesis using settles_street [OF assms(1,2)] by simp
  next
    case 4
    then have "settles 1 uuid dlr now st" by (intro settles_action [OF assms(2)])
    then show ?thesis by (rule settles_mono) simp
  qed
qed

lemma settles_timeout:
  assumes "ids_ok st" and "CurrentHand st = Some h" and "deadline_passed h now"
  shows "settles 6 uuid dlr now st"
proof -
  have adv: "advance uuid dlr now st d = (Inr (timeoutAction st), d)" for d
    using assms(2,3) by (simp add: advance_def advanceHand_def Let_def)
  have "\<exists>pid df. timeoutAction st = [mk_event (EvPlayerTimedOut pid df),
      mk_event (if df = ''fold'' then EvPlayerFolded pid else EvPlayerChecked pid)]"
    unfolding timeoutAction_def Let_def if_distrib [of mk_event, symmetric] by (intro exI) (rule refl)
  then obtain pid df where ev0: "timeoutAction st = [mk_event (EvPlayerTimedOut pid df),
      mk_event (if df = ''fold'' then EvPlayerFolded pid else EvPlayerChecked pid)]" by blast
  define e where "e = (if df = ''fold'' then EvPlayerFolded pid else EvPlayerChecked pid)"
  have ev: "timeoutAction st = [mk_event (EvPlayerTimedOut pid df), mk_event e]"
    "e = EvPlayerFolded pid \<or> e = EvPlayerChecked pid"
    using ev0 by (simp_all add: e_def)
  let ?s1 = "Apply st (mk_event (EvPlayerTimedOut pid df))"
  obtain v w where v: "?s1 = st\<lparr>Version := v\<rparr>"
    and w: "Apply ?s1 (mk_event e) = apply_payload e None (?s1\<lparr>Version := w\<rparr>)"
    using Apply_mk_event [of st "EvPlayerTimedOut pid df"] Apply_mk_event [of ?s1 e] by auto
  obtain h' where h': "CurrentHand (applyAll st (timeoutAction st)) = Some h'" "ActingPlayerId h' = None"
    using ev(2) assms(2) v w unfolding ev(1)
    by (auto simp: apply_PlayerFolded_def apply_PlayerChecked_def done_acting_def)
  have "settles 5 uuid dlr now (applyAll st (timeoutAction st))"
    using ids_applyAll [OF assms(1)] by (rule settles_hand [OF _ h'(1)]) (simp add: deadline_passed_def h'(2))
  then show ?thesis using settles_batch [OF adv, of 5] ev(1) by simp
qed

lemma settles_six:
  assumes "ids_ok st"
  shows "settles 6 uuid dlr now st"
proof (cases "CurrentHand st")
  case None
  then have "settles 3 uuid dlr now st" by (rule settles_idle [OF assms])
  then show ?thesis by (rule settles_mono) simp
next
  case (Some h)
  show ?thesis
  proof (cases "deadline_passed h now")
    case True
    then show ?thesis by (rule settles_timeout [OF assms Some])
  next
    case False
    then have "settles 5 uuid dlr now st" by (rule settles_hand [OF assms Some])
    then show ?thesis by (rule settles_mono) simp
  qed
qed

lemma rests_after:
  assumes "ids_ok st" and "runAdvance uuid dlr now st d = (Inr evs, d')"
  shows "at_rest uuid dlr now (applyAll st evs)"
proof -
  have "6 < maxSteps" by (simp add: maxSteps_def)
  with assms(2) show ?thesis unfolding runAdvance_def
    by (intro run_steps_settles [OF settles_six [OF assms(1)]])
qed

section \<open>Players without chips behind\<close>

lemma street_order:
  assumes "CurrentHand st = Some h"
    and "st' \<in> {apply_FlopDealt a b c st, apply_TurnDealt a st, apply_RiverDealt a st}"
  shows "\<exists>h'. CurrentHand st' = Some h' \<and> Pot h' = Pot h
    \<and> ActionOrder h' = rotateAfter (seatedActivePlayersBySeats st) (DealerPlayerId h)
    \<and> ActingPlayerId h' = None"
    and "\<forall>pid. in_hand st' pid = in_hand st pid" and "Config st' = Config st"
    and "HandNumber st' = HandNumber st"
proof -
  have seats: "seatedActivePlayersBySeats (upd_all_players (\<lambda>p. p\<lparr>CurrentBet := 0\<rparr>) (upd_hand f st))
      = seatedActivePlayersBySeats st" for f
  proof -
    let ?g = "\<lambda>(i, p). (i, p\<lparr>CurrentBet := 0\<rparr>)"
    have "sort_key (\<lambda>(i, p). Seat p) (map ?g xs) = map ?g (sort_key (\<lambda>(i, p). Seat p) xs)"
      for xs :: "(string \<times> PlayerState) list"
    proof (induction xs)
      case (Cons x xs)
      have "insort_key (\<lambda>(i, p). Seat p) (?g x) (map ?g ys) = map ?g (insort_key (\<lambda>(i, p). Seat p) x ys)"
        for ys :: "(string \<times> PlayerState) list"
        by (induction ys) (auto simp: case_prod_beta)
      with Cons show ?case by simp
    qed simp
    moreover have "filter (\<lambda>(i, p). \<not> IsSittingOut p \<and> Stack p > 0) (map ?g m)
        = map ?g (filter (\<lambda>(i, p). \<not> IsSittingOut p \<and> Stack p > 0) m)"
      for m :: "(string \<times> PlayerState) list"
      by (induction m) auto
    moreover have "map fst (map ?g xs) = map fst xs" for xs :: "(string \<times> PlayerState) list"
      by (induction xs) auto
    ultimately show ?thesis by (simp add: seatedActivePlayersBySeats_def values_upd_def)
  qed
  show "\<exists>h'. CurrentHand st' = Some h' \<and> Pot h' = Pot h
      \<and> ActionOrder h' = rotateAfter (seatedActivePlayersBySeats st) (DealerPlayerId h)
      \<and> ActingPlayerId h' = None"
    using assms seats
    by (auto simp: apply_FlopDealt_def apply_TurnDealt_def apply_RiverDealt_def resetStreetState_def
        postflopActionOrder_def Let_def)
  show "\<forall>pid. in_hand st' pid = in_hand st pid" "Config st' = Config st" "HandNumber st' = HandNumber st"
    using assms
    by (auto simp: apply_FlopDealt_def apply_TurnDealt_def apply_RiverDealt_def resetStreetState_def
        Let_def in_hand_def player_upd_all split: option.splits)
qed

lemma forfeited:
  assumes "CurrentHand st = Some h"
    and "st' \<in> {apply_FlopDealt a b c st, apply_TurnDealt a st, apply_RiverDealt a st}"
    and "seatedActivePlayersBySeats st = [w]"
    and "in_hand st w" and "w \<noteq> []"
  shows "\<exists>evs. advance uuid dlr now st' d = (Inr evs, d)
    \<and> mk_event (EvPotAwarded (sub64 (Pot h) (computeRake (Pot h) (Config st))) [w] [] []) \<in> set evs
    \<and> (\<forall>e ids. e \<in> set evs \<longrightarrow> e \<noteq> mk_event (EvShowdown ids))"
proof -
  obtain h' where h': "CurrentHand st' = Some h'" "Pot h' = Pot h" "ActingPlayerId h' = None"
    "ActionOrder h' = rotateAfter (seatedActivePlayersBySeats st) (DealerPlayerId h)"
    using street_order(1) [OF assms(1,2)] by blast
  have "length (ActionOrder h') = 1" "set (ActionOrder h') = {w}"
    using h'(4) assms(3) by simp_all
  then have order: "ActionOrder h' = [w]" by (cases "ActionOrder h'") simp_all
  have ih: "in_hand st' w" using street_order(2) [OF assms(1,2)] assms(4) by simp
  have "nonFoldedCount st' \<le> 1" using h'(1) order by (simp add: nonFoldedCount_def)
  then have "advance uuid dlr now st' d = (Inr (endHandUncontested st'), d)"
    using h' by (simp add: advance_def advanceHand_def deadline_passed_def Let_def)
  moreover have "endHandUncontested st' =
      (if computeRake (Pot h) (Config st) > 0
       then [mk_event (EvRakeTaken (computeRake (Pot h) (Config st)))] else [])
      @ [mk_event (EvPotAwarded (sub64 (Pot h) (computeRake (Pot h) (Config st))) [w] [] []),
         mk_event (EvHandEnded (add64 (HandNumber st') 1))]"
    using h'(1,2) order ih assms(5) street_order(3) [OF assms(1,2)]
    by (simp add: endHandUncontested_def Let_def)
  ultimately show ?thesis by auto
qed



section \<open>Properties\<close>

text \<open>C3. The server always comes to rest: after a command, accepted or rejected, the loop of the
  server's own moves ends because there is nothing left to do, never because of its step cap of
  64; nothing more happens until the next command or deadline. The player map stays consistent
  on the way. It holds for every dealer, clock and table.\<close>

theorem HandleCommand_rests:
  assumes "ids_ok st" and "HandleCommand uuid_New now st cmd actor dlr d = (Inr evs, d')"
  shows "at_rest uuid_New dlr now (applyAll st evs) \<and> ids_ok (applyAll st evs)"
proof -
  let ?cmd = "commandEvents st cmd actor"
  obtain adv where adv: "runAdvance uuid_New dlr now (applyAll st ?cmd) d = (Inr adv, d')"
    and evs: "evs = ?cmd @ adv"
    using assms(2) by (auto simp: HandleCommand_def Let_def split: prod.splits sum.splits)
  show ?thesis
    using rests_after [OF ids_applyAll [OF assms(1)] adv] ids_applyAll [OF ids_applyAll [OF assms(1)]]
    by (simp add: evs)
qed

text \<open>C14. What the code does with players who are all-in: a new street takes only players with
  chips left into its order, so when the flop, turn or river is dealt and a single player \<open>w\<close>
  has chips behind, the next move of the server awards the whole pot, less the rake, to \<open>w\<close>
  without a showdown, also when others are all-in and have not folded.\<close>

theorem all_in_forfeits_pot:
  assumes "CurrentHand st = Some h"
    and "st' \<in> {apply_FlopDealt a b c st, apply_TurnDealt a st, apply_RiverDealt a st}"
    and "seatedActivePlayersBySeats st = [w]"
    and "in_hand st w" and "w \<noteq> []"
  shows "\<exists>evs. advance uuid_New dlr now st' d = (Inr evs, d)
    \<and> mk_event (EvPotAwarded (sub64 (Pot h) (computeRake (Pot h) (Config st))) [w] [] []) \<in> set evs
    \<and> (\<forall>e ids. e \<in> set evs \<longrightarrow> e \<noteq> mk_event (EvShowdown ids))"
  by (rule forfeited [OF assms])

text \<open>A hand won without a showdown pays exactly one player: with the books in order and a rake
  that does not overflow, the first player in the order of the hand who has not folded gets the
  pot less the rake, nobody else's stack changes, the rake is all that leaves the table, and
  the hand is over.\<close>

theorem uncontested_pays_pot:
  assumes "books_ok st" and "CurrentHand st = Some h" and "rake_exact st h"
    and "find (in_hand st) (ActionOrder h) = Some w" and "w \<noteq> []"
  shows "CurrentHand (applyAll st (endHandUncontested st)) = None
    \<and> chips (applyAll st (endHandUncontested st)) = chips st - computeRake (Pot h) (Config st)
    \<and> stack_of (applyAll st (endHandUncontested st)) w
        = stack_of st w + (Pot h - computeRake (Pot h) (Config st))
    \<and> (\<forall>q. q \<noteq> w \<longrightarrow> stack_of (applyAll st (endHandUncontested st)) q = stack_of st q)"
  by (rule uncontested_result [OF assms])



section \<open>The theorems at work\<close>

lemma flop_ids: "ids_ok flop_state"
  by code_simp

lemma HandleCommand_rests_witness:
  "\<exists>evs d'. HandleCommand (\<lambda>_. ''u'') 5 flop_state (command_of CmdFold) ''a'' FixedDealer
      (NewFixedDealer [0..<52]) = (Inr evs, d')
    \<and> at_rest (\<lambda>_. ''u'') FixedDealer 5 (applyAll flop_state evs)"
proof -
  let ?r = "HandleCommand (\<lambda>_. ''u'') 5 flop_state (command_of CmdFold) ''a'' FixedDealer
      (NewFixedDealer [0..<52])"
  have "isl (fst ?r) = False" by code_simp
  then obtain evs d' where r: "?r = (Inr evs, d')" by (cases ?r; cases "fst ?r") auto
  show ?thesis using r HandleCommand_rests [OF flop_ids r] by auto
qed

text \<open>Before the flop \<open>a\<close> went all-in for 100, \<open>b\<close> called and \<open>c\<close> folded.\<close>

definition forfeit_hand :: HandState where
  "forfeit_hand = sample_hand [''b'', ''c'', ''a'']"

definition forfeit_state :: GameState where
  "forfeit_state = sample_state
     [(''a'', sample_player ''a'' 1 0 100 False), (''b'', sample_player ''b'' 2 60 100 False),
      (''c'', sample_player ''c'' 3 0 70 True)] (Some forfeit_hand)"

lemma all_in_forfeits_pot_witness:
  "(\<exists>evs. advance (\<lambda>_. ''u'') FixedDealer 5 (apply_FlopDealt 1 2 3 forfeit_state) (NewFixedDealer [])
       = (Inr evs, NewFixedDealer [])
     \<and> mk_event (EvPotAwarded 270 [''b''] [] []) \<in> set evs)
   \<and> in_hand forfeit_state ''a''"
proof -
  have h: "CurrentHand forfeit_state = Some forfeit_hand"
    by (simp add: forfeit_state_def sample_state_def)
  have s: "seatedActivePlayersBySeats forfeit_state = [''b'']" and b: "in_hand forfeit_state ''b''"
    and a: "in_hand forfeit_state ''a''" and pot: "sub64 (Pot forfeit_hand)
      (computeRake (Pot forfeit_hand) (Config forfeit_state)) = 270"
    by code_simp+
  have "apply_FlopDealt 1 2 3 forfeit_state \<in> {apply_FlopDealt 1 2 3 forfeit_state,
      apply_TurnDealt 1 forfeit_state, apply_RiverDealt 1 forfeit_state}" by simp
  from all_in_forfeits_pot [OF h this s b, of "\<lambda>_. ''u''" FixedDealer 5 "NewFixedDealer []"] a
  show ?thesis unfolding pot by blast
qed

text \<open>The river with a player who is all-in for 1: the rake of 10 exceeds the main pot of 3.\<close>

definition river_hand :: HandState where
  "river_hand = (sample_hand [''b'', ''c'', ''a''])\<lparr>Pot := 201\<rparr>"

definition river_player :: "string \<Rightarrow> int \<Rightarrow> int \<Rightarrow> int \<Rightarrow> card \<Rightarrow> card \<Rightarrow> string \<times> PlayerState" where
  "river_player pid seat stack committed c1 c2 =
     (pid, (sample_player pid seat stack committed False)\<lparr>HoleCard_1 := Some c1, HoleCard_2 := Some c2\<rparr>)"

definition river_state :: GameState where
  "river_state = (sample_state
     [river_player ''a'' 1 0 1 20 33, river_player ''b'' 2 60 100 12 25,
      river_player ''c'' 3 40 100 38 51] (Some river_hand))\<lparr>Config := Some rake_config\<rparr>"

lemma river_facts:
  "CurrentHand river_state = Some river_hand" "books_ok river_state" "rake_exact river_state river_hand"
  "top_player river_state river_hand ''b''"
proof -
  show h: "CurrentHand river_state = Some river_hand"
    by (simp add: river_state_def sample_state_def)
  have "hand_books river_state river_hand" "distinct (keys (Players river_state))"
    "\<forall>(i, p) \<in> set (Players river_state). 0 \<le> Stack p" "chips river_state < 2 ^ 61"
    by code_simp+
  then show "books_ok river_state" by (simp add: books_ok_def h)
  show "rake_exact river_state river_hand"
    by (simp add: rake_exact_def river_state_def rake_config_def river_hand_def in64_def)
  show "top_player river_state river_hand ''b''"
    by (simp add: top_player_def river_state_def sample_state_def river_hand_def sample_hand_def
        river_player_def sample_player_def player_def)
qed

lemma uncontested_pays_pot_witness:
  "stack_of (applyAll river_state (endHandUncontested river_state)) ''b'' = 251"
proof -
  have "find (in_hand river_state) (ActionOrder river_hand) = Some ''b''"
    "stack_of river_state ''b'' + (Pot river_hand - computeRake (Pot river_hand) (Config river_state)) = 251"
    by code_simp+
  then show ?thesis
    using uncontested_pays_pot [OF river_facts(2,1,3), of "''b''"] by simp
qed






end
