(* ===== verification/Session.thy ===== *)
theory Session
  imports EventLog Lifecycle
begin

text \<open>
  \<open>src/internal/engine/session.go\<close> and the session map of \<open>router.go\<close>: the owner of one game.
  A session holds the state in memory; the goroutine \<open>run\<close> takes one command or one expired
  deadline at a time, computes the events, numbers them, appends them to the store and only
  then applies them. \<open>session_step\<close> is one round of its loop. The inbox, the timers as
  runtime objects and the shutdown paths are not modelled: which input comes next is open,
  except that a deadline fires only when the timer is armed for it.
\<close>

section \<open>Numbering and tagging\<close>

fun stamp_from :: "uuid \<Rightarrow> timestamp \<Rightarrow> nat \<Rightarrow> GameEvent list \<Rightarrow> GameEvent list" where
  "stamp_from g now seq [] = []"
| "stamp_from g now seq (evt # evts) =
     (let sq = to_uint64 (int seq + 1)
      in evt\<lparr>evt_GameId := g, evt_Sequence := sq, evt_StateVersion := wrap64 (int sq),
             evt_OccurredAt := (case evt_OccurredAt evt of None \<Rightarrow> Some now | Some t \<Rightarrow> Some t)\<rparr>
         # stamp_from g now (seq + 1) evts)"

definition stampEvents ::
  "'s Store \<Rightarrow> uuid \<Rightarrow> timestamp \<Rightarrow> GameEvent list \<Rightarrow> 's \<Rightarrow> go_err + GameEvent list" where
  "stampEvents S g now events s =
     (if events = [] then Inr []
      else case GetLatestSequence S g s of
             Inl e \<Rightarrow> Inl (Wrap ''get latest sequence: '' e)
           | Inr latestSeq \<Rightarrow> Inr (stamp_from g now latestSeq events))"

definition tag :: "string \<Rightarrow> GameEvent list \<Rightarrow> GameEvent list" where
  "tag cmdID = map (\<lambda>e. if evt_CausedByCommandId e = [] then e\<lparr>evt_CausedByCommandId := cmdID\<rparr> else e)"

text \<open>\<open>stampEvents\<close> followed by \<open>AppendEvents\<close>, as every path of the session ends.\<close>

definition persist ::
  "'s Store \<Rightarrow> uuid \<Rightarrow> timestamp \<Rightarrow> string \<Rightarrow> GameEvent list \<Rightarrow> 's
     \<Rightarrow> (go_err + GameEvent list) \<times> 's" where
  "persist S g now what events s =
     (case stampEvents S g now events s of
        Inl e \<Rightarrow> (Inl (Wrap (''stamp '' @ what) e), s)
      | Inr evts \<Rightarrow>
          (case AppendEvents S evts s of
             (Some e, s1) \<Rightarrow> (Inl (Wrap (''persist '' @ what) e), s1)
           | (None, s1) \<Rightarrow> (Inr evts, s1)))"

section \<open>Commands\<close>

definition lookupByCommandID ::
  "'s Store \<Rightarrow> (string \<Rightarrow> uuid option) \<Rightarrow> uuid \<Rightarrow> string \<Rightarrow> 's
     \<Rightarrow> go_err + GameEvent list option" where
  "lookupByCommandID S parse g commandID s =
     (case parse commandID of
        None \<Rightarrow> Inr None
      | Some cid \<Rightarrow>
          (case FindEventByCommandID S cid g s of
             Inl e \<Rightarrow> if errors_Is e ErrNotFound then Inr None else Inl e
           | Inr evt \<Rightarrow> Inr (Some [evt])))"

text \<open>\<open>err == nil && existing != nil\<close>: a failed lookup counts as an unseen command.\<close>

definition already_seen ::
  "'s Store \<Rightarrow> (string \<Rightarrow> uuid option) \<Rightarrow> uuid \<Rightarrow> PlayerCommand \<Rightarrow> 's \<Rightarrow> GameEvent list option" where
  "already_seen S parse g cmd s =
     (if cmd_CommandId cmd = [] then None
      else case lookupByCommandID S parse g (cmd_CommandId cmd) s of
             Inl e \<Rightarrow> None
           | Inr existing \<Rightarrow> existing)"

primrec GameStatus_String :: "GameStatus \<Rightarrow> string" where
  "GameStatus_String GAME_STATUS_UNSPECIFIED = ''GAME_STATUS_UNSPECIFIED''"
| "GameStatus_String GAME_STATUS_WAITING = ''GAME_STATUS_WAITING''"
| "GameStatus_String GAME_STATUS_ACTIVE = ''GAME_STATUS_ACTIVE''"
| "GameStatus_String GAME_STATUS_PAUSED = ''GAME_STATUS_PAUSED''"
| "GameStatus_String GAME_STATUS_FINISHED = ''GAME_STATUS_FINISHED''"
| "GameStatus_String GAME_STATUS_CLOSED = ''GAME_STATUS_CLOSED''"

definition handleResume ::
  "'s Store \<Rightarrow> (int \<Rightarrow> string) \<Rightarrow> 'd Dealer \<Rightarrow> uuid \<Rightarrow> timestamp \<Rightarrow> GameState \<Rightarrow> PlayerCommand \<Rightarrow> 's \<Rightarrow> 'd
     \<Rightarrow> (go_err + GameEvent list) \<times> 's \<times> 'd" where
  "handleResume S uuid_New dlr g now st cmd s d =
     (let cmdID = cmd_CommandId cmd
      in if Status st \<noteq> GAME_STATUS_PAUSED then
           let reason = reject CodeIllegalAction
                 (''cannot resume: game is not paused (status='' @ GameStatus_String (Status st) @ '')'');
               evt = toCommandRejectedEvent reason (GameId st) cmdID
           in (case persist S g now ''resume rejection: '' (tag cmdID [evt]) s of
                 (r, s1) \<Rightarrow> (r, s1, d))
         else
           let resumeEvt = mk_event EvTableResumed;
               curr = Apply st resumeEvt
           in (case runAdvance uuid_New dlr now curr d of
                 (Inl e, d1) \<Rightarrow> (Inl (Wrap ''advance after resume: '' (NewError e)), s, d1)
               | (Inr advEvts, d1) \<Rightarrow>
                   (case persist S g now ''resume events: '' (tag cmdID (resumeEvt # advEvts)) s of
                      (r, s1) \<Rightarrow> (r, s1, d1))))"

definition is_resume :: "PlayerCommand \<Rightarrow> bool" where
  "is_resume cmd = (case cmd_Payload cmd of Some (CmdResume n) \<Rightarrow> True | _ \<Rightarrow> False)"

definition process ::
  "'s Store \<Rightarrow> (string \<Rightarrow> uuid option) \<Rightarrow> (int \<Rightarrow> string) \<Rightarrow> 'd Dealer \<Rightarrow> uuid \<Rightarrow> timestamp
     \<Rightarrow> GameState \<Rightarrow> string \<Rightarrow> PlayerCommand \<Rightarrow> 's \<Rightarrow> 'd \<Rightarrow> (go_err + GameEvent list) \<times> 's \<times> 'd" where
  "process S parse uuid_New dlr g now st actor cmd s d =
     (case already_seen S parse g cmd s of
        Some existing \<Rightarrow> (Inr existing, s, d)
      | None \<Rightarrow>
          if is_resume cmd then handleResume S uuid_New dlr g now st cmd s d
          else
            (case HandleCommand uuid_New now st cmd actor dlr d of
               (Inl e, d1) \<Rightarrow> (Inl (Wrap ''handle command: '' (NewError e)), s, d1)
             | (Inr events, d1) \<Rightarrow>
                 (case persist S g now ''events: '' (tag (cmd_CommandId cmd) events) s of
                    (r, s1) \<Rightarrow> (r, s1, d1))))"

definition runProactiveAdvance ::
  "'s Store \<Rightarrow> (int \<Rightarrow> string) \<Rightarrow> 'd Dealer \<Rightarrow> uuid \<Rightarrow> timestamp \<Rightarrow> GameState \<Rightarrow> 's \<Rightarrow> 'd
     \<Rightarrow> (go_err + GameEvent list) \<times> 's \<times> 'd" where
  "runProactiveAdvance S uuid_New dlr g now st s d =
     (case runAdvance uuid_New dlr now st d of
        (Inl e, d1) \<Rightarrow> (Inl (NewError e), s, d1)
      | (Inr events, d1) \<Rightarrow>
          if events = [] then (Inr [], s, d1)
          else (case persist S g now ''proactive advance: '' events s of
                  (r, s1) \<Rightarrow> (r, s1, d1)))"

section \<open>The loop\<close>

record ('s, 'd) World =
  w_store :: 's
  w_dealer :: 'd
  w_state :: GameState
  w_timer :: "timestamp option"

text \<open>\<open>resetDeadline\<close>: armed when somebody is to act before a deadline that is still ahead.\<close>

definition resetDeadline :: "timestamp \<Rightarrow> GameState \<Rightarrow> timestamp option" where
  "resetDeadline now st =
     (case CurrentHand st of
        None \<Rightarrow> None
      | Some h \<Rightarrow>
          if ActingPlayerId h = None then None
          else case ActionDeadline h of
                 None \<Rightarrow> None
               | Some t \<Rightarrow> if t - now \<le> 0 then None else Some t)"

text \<open>\<open>if err == nil { state = applyAll(state, events) }\<close>\<close>

definition after_result :: "GameState \<Rightarrow> go_err + GameEvent list \<Rightarrow> GameState" where
  "after_result st r = (case r of Inl e \<Rightarrow> st | Inr events \<Rightarrow> applyAll st events)"

definition finish ::
  "timestamp \<Rightarrow> GameState \<Rightarrow> (go_err + GameEvent list) \<times> 's \<times> 'd \<Rightarrow> ('s, 'd) World" where
  "finish now st out =
     (case out of (r, s, d) \<Rightarrow>
        let st' = after_result st r
        in \<lparr>w_store = s, w_dealer = d, w_state = st', w_timer = resetDeadline now st'\<rparr>)"

datatype label = Stored "GameEvent list" | Replayed "GameEvent list" | Failed

definition label_of :: "GameEvent list option \<Rightarrow> go_err + GameEvent list \<Rightarrow> label" where
  "label_of seen r =
     (case r of
        Inl e \<Rightarrow> Failed
      | Inr events \<Rightarrow> if seen = None then Stored events else Replayed events)"

text \<open>One round of \<open>run\<close>: a command from the inbox, or the timer.\<close>

inductive session_step ::
  "'s Store \<Rightarrow> (string \<Rightarrow> uuid option) \<Rightarrow> (int \<Rightarrow> string) \<Rightarrow> 'd Dealer \<Rightarrow> uuid
     \<Rightarrow> ('s, 'd) World \<Rightarrow> label \<Rightarrow> ('s, 'd) World \<Rightarrow> bool"
  for S parse uuid_New dlr g where
  command: "out = process S parse uuid_New dlr g now (w_state w) actor cmd (w_store w) (w_dealer w)
    \<Longrightarrow> l = label_of (already_seen S parse g cmd (w_store w)) (fst out)
    \<Longrightarrow> session_step S parse uuid_New dlr g w l (finish now (w_state w) out)"
| deadline: "w_timer w = Some t \<Longrightarrow> t \<le> now
    \<Longrightarrow> out = runProactiveAdvance S uuid_New dlr g now (w_state w) (w_store w) (w_dealer w)
    \<Longrightarrow> session_step S parse uuid_New dlr g w (label_of None (fst out)) (finish now (w_state w) out)"

text \<open>A run in which no command was answered from the log, and all that it stored.\<close>

inductive session_run ::
  "'s Store \<Rightarrow> (string \<Rightarrow> uuid option) \<Rightarrow> (int \<Rightarrow> string) \<Rightarrow> 'd Dealer \<Rightarrow> uuid
     \<Rightarrow> ('s, 'd) World \<Rightarrow> GameEvent list \<Rightarrow> ('s, 'd) World \<Rightarrow> bool"
  for S parse uuid_New dlr g where
  start: "session_run S parse uuid_New dlr g w [] w"
| stored: "session_run S parse uuid_New dlr g w evs w1
    \<Longrightarrow> session_step S parse uuid_New dlr g w1 (Stored es) w2
    \<Longrightarrow> session_run S parse uuid_New dlr g w (evs @ es) w2"
| failed: "session_run S parse uuid_New dlr g w evs w1
    \<Longrightarrow> session_step S parse uuid_New dlr g w1 Failed w2
    \<Longrightarrow> session_run S parse uuid_New dlr g w evs w2"

section \<open>The router's map of sessions\<close>

text \<open>\<open>getOrLoad\<close>: a session that is not in memory is loaded from the store and gets a dealer
  from the factory.\<close>

definition getOrLoad ::
  "'s Store \<Rightarrow> 'd \<Rightarrow> uuid \<Rightarrow> 's \<Rightarrow> (uuid \<times> GameState \<times> 'd) list
     \<Rightarrow> ((go_err + (GameState \<times> 'd)) \<times> (uuid \<times> GameState \<times> 'd) list) option" where
  "getOrLoad S newDealer g s sessions =
     (case map_of sessions g of
        Some sess \<Rightarrow> Some (Inr sess, sessions)
      | None \<Rightarrow>
          map_option (\<lambda>r. case r of
              Inl e \<Rightarrow> (Inl e, sessions)
            | Inr st \<Rightarrow> (Inr (st, newDealer), AList.update g (st, newDealer) sessions))
            (router_loadState S g s))"

definition Invalidate :: "uuid \<Rightarrow> (uuid \<times> 'a) list \<Rightarrow> (uuid \<times> 'a) list" where
  "Invalidate g sessions = AList.delete g sessions"

section \<open>Versions and sequence numbers\<close>

lemma Version_upd [simp]:
  "Version (upd_player pid f st) = Version st" "Version (upd_all_players f' st) = Version st"
  "Version (upd_hand f'' st) = Version st"
  by (simp_all add: upd_player_def upd_all_players_def upd_hand_def)

lemma Version_with [simp]: "Version (with_player_and_hand pid f st) = Version st"
  by (simp add: with_player_and_hand_def split: option.splits prod.splits)

lemma Version_award [simp]: "Version (award_winners a s ws st) = Version st"
  by (induction ws arbitrary: a st) simp_all

lemma Version_reset [simp]: "Version (resetStreetState st) = Version st"
  by (simp add: resetStreetState_def Let_def split: option.split)

lemma Version_payload [simp]: "Version (apply_payload e t st) = Version st"
  by (cases e) (simp_all add: handler_defs apply_PlayerJoined_def apply_PlayerLeft_def Let_def
      apply_HandStarted_def apply_BlindPosted_def apply_AntePosted_def apply_StraddlePosted_def
      apply_PlayerCalled_def apply_PlayerBet_def apply_PlayerRaised_def apply_PlayerAllIn_def
      all_in_raise_def reopen_action_def apply_PotAwarded_def split: option.split)

lemma Version_Apply:
  "Version (Apply st evt) =
     (if evt_StateVersion evt > 0 then evt_StateVersion evt else add64 (Version st) 1)"
  by (simp add: Apply_def Let_def split: option.split)

lemma Version_applyAll:
  "evs \<noteq> [] \<Longrightarrow> 0 < evt_StateVersion (last evs) \<Longrightarrow> Version (applyAll st evs) = evt_StateVersion (last evs)"
  by (cases evs rule: rev_cases) (simp_all add: applyAll_def Version_Apply)

section \<open>Memory and log\<close>

definition in_sync :: "'s Store \<Rightarrow> ('s \<Rightarrow> uuid \<Rightarrow> GameEvent list) \<Rightarrow> uuid \<Rightarrow> 's \<Rightarrow> GameState \<Rightarrow> bool" where
  \<comment> \<open>the state is the latest snapshot with all later events of the log applied, and its
    version is the number of the last event\<close>
  "in_sync S elog g s st \<longleftrightarrow>
     (\<exists>st0 n. GetLatestSnapshot S g s = Inr (st0, n) \<and> n \<le> latest_seq (elog s g)
        \<and> st = applyAll st0 (after n (elog s g)) \<and> Version st = int (latest_seq (elog s g)))"

lemma stamp_from_length [simp]: "length (stamp_from g now seq evts) = length evts"
  by (induction g now seq evts rule: stamp_from.induct) (simp_all add: Let_def)

lemma stamp_from_numbers:
  "seq + length evts < max_seq \<Longrightarrow>
   map evt_Sequence (stamp_from g now seq evts) = [seq + 1..<seq + 1 + length evts]
   \<and> (\<forall>e \<in> set (stamp_from g now seq evts). evt_GameId e = g
        \<and> evt_StateVersion e = int (evt_Sequence e))"
proof (induction g now seq evts rule: stamp_from.induct)
  case (2 g now seq evt evts)
  have m: "to_uint64 (1 + int seq) = Suc seq" using "2.prems" by (simp add: max_seq_def to_uint64_def)
  have w: "wrap64 (1 + int seq) = 1 + int seq"
    using "2.prems" by (subst wrap64_id) (auto simp: in64_def max_seq_def)
  show ?case using "2.IH" [OF refl] "2.prems" by (simp add: Let_def m w add.commute upt_conv_Cons del: upt_Suc)
qed simp

lemma tag_length [simp]: "length (tag c evs) = length evs"
  by (simp add: tag_def)

context event_log begin

lemma persist_ok:
  assumes "good s" and "known g" and "persist S g now what events s = (Inr evs, s')"
    and "latest_seq (elog s g) + length evs < max_seq"
  shows "good s' \<and> elog s' g = elog s g @ evs \<and> numbered (latest_seq (elog s g)) evs
    \<and> (\<forall>e \<in> set evs. evt_StateVersion e = int (evt_Sequence e))
    \<and> (\<forall>g'. g' \<noteq> g \<longrightarrow> elog s' g' = elog s g')
    \<and> (\<forall>g'. GetLatestSnapshot S g' s' = GetLatestSnapshot S g' s)"
proof -
  let ?n = "latest_seq (elog s g)"
  have st: "stampEvents S g now events s = Inr evs" and app: "AppendEvents S evs s = (None, s')"
    using assms(3) by (auto simp: persist_def split: sum.splits prod.splits option.splits)
  have evs: "evs = stamp_from g now ?n events"
    using st latest [OF assms(1), of g] by (auto simp: stampEvents_def split: if_splits sum.splits)
  then have "?n + length events < max_seq" using assms(4) by simp
  from stamp_from_numbers [OF this] have num: "numbered ?n evs" "\<forall>e \<in> set evs. evt_GameId e = g"
    "\<forall>e \<in> set evs. evt_StateVersion e = int (evt_Sequence e)"
    by (simp_all add: evs numbered_def)
  show ?thesis
    using appending [OF assms(1,2) num(2,1) _ app] assms(4) num by auto
qed

lemma persist_failed: "persist S g now what events s = (Inl e, s') \<Longrightarrow> s' = s"
  using failing by (auto simp: persist_def split: sum.splits prod.splits option.splits)

lemma numbered_last: "numbered n evs \<Longrightarrow> evs \<noteq> [] \<Longrightarrow> evt_Sequence (last evs) = n + length evs"
proof -
  assume "numbered n evs" "evs \<noteq> []"
  then have "last (map evt_Sequence evs) = last [n + 1..<n + 1 + length evs]"
    by (simp only: numbered_def)
  then show ?thesis using \<open>evs \<noteq> []\<close> by (cases evs) (simp_all add: last_map split: if_splits)
qed

lemma latest_append: "numbered (latest_seq xs) evs \<Longrightarrow> latest_seq (xs @ evs) = latest_seq xs + length evs"
  using numbered_last [of "latest_seq xs" evs] by (auto simp: latest_seq_def last_append)

lemma in_sync_append:
  assumes "in_sync S elog g s st" and "elog s' g = elog s g @ evs"
    and "GetLatestSnapshot S g s' = GetLatestSnapshot S g s" and "numbered (latest_seq (elog s g)) evs"
    and "\<forall>e \<in> set evs. evt_StateVersion e = int (evt_Sequence e)"
  shows "in_sync S elog g s' (applyAll st evs)"
proof -
  let ?n = "latest_seq (elog s g)"
  obtain st0 n where st0: "GetLatestSnapshot S g s = Inr (st0, n)" "n \<le> ?n"
    "st = applyAll st0 (after n (elog s g))" "Version st = int ?n"
    using assms(1) by (auto simp: in_sync_def)
  have "\<forall>e \<in> set evs. ?n < evt_Sequence e"
  proof
    fix e assume "e \<in> set evs"
    then have "evt_Sequence e \<in> set (map evt_Sequence evs)" by simp
    then show "?n < evt_Sequence e" using assms(4) unfolding numbered_def by auto
  qed
  then have "after n (elog s' g) = after n (elog s g) @ evs"
    using st0(2) unfolding assms(2) by (auto simp: after_def filter_id_conv)
  then have "applyAll st evs = applyAll st0 (after n (elog s' g))"
    by (simp add: st0(3) applyAll_def)
  moreover have "Version (applyAll st evs) = int (latest_seq (elog s' g))"
    using latest_append [OF assms(4)] numbered_last [OF assms(4)] Version_applyAll [of evs st] st0(4) assms(5)
    by (cases "evs = []") (simp_all add: assms(2) applyAll_def flip: of_nat_add length_greater_0_conv)
  ultimately show ?thesis
    using st0(1,2) assms(3) latest_append [OF assms(4)] by (auto simp: in_sync_def assms(2))
qed

lemma process_persists:
  assumes "process S parse uuid_New dlr g now st actor cmd s d = (r, s', d')"
    and "already_seen S parse g cmd s = None"
  shows "(\<exists>what events. persist S g now what events s = (r, s')) \<or> (isl r \<and> s' = s)"
  using assms by (fastforce simp: process_def handleResume_def Let_def split: if_splits sum.splits prod.splits)

lemma advance_persists:
  assumes "runProactiveAdvance S uuid_New dlr g now st s d = (r, s', d')"
  shows "(\<exists>what events. persist S g now what events s = (r, s')) \<or> (isl r \<and> s' = s) \<or> (r = Inr [] \<and> s' = s)"
  using assms by (fastforce simp: runProactiveAdvance_def split: if_splits sum.splits prod.splits)

lemma step_persists:
  assumes "session_step S parse uuid_New dlr g w l w'" and "\<And>es. l \<noteq> Replayed es"
  shows "\<exists>r. l = label_of None r \<and> w_state w' = after_result (w_state w) r
    \<and> ((\<exists>now what events. persist S g now what events (w_store w) = (r, w_store w'))
       \<or> (isl r \<and> w_store w' = w_store w) \<or> (r = Inr [] \<and> w_store w' = w_store w))"
  using assms(1)
proof (cases rule: session_step.cases)
  case (command out now actor cmd)
  obtain r s d where out: "out = (r, s, d)" by (cases out)
  show ?thesis
  proof (cases "already_seen S parse g cmd (w_store w) = None")
    case True
    then show ?thesis using command out process_persists [OF _ True]
      by (fastforce simp: finish_def Let_def)
  next
    case False
    then obtain ex where "already_seen S parse g cmd (w_store w) = Some ex" by blast
    then have "l = Replayed ex" using command by (simp add: process_def label_of_def)
    then show ?thesis using assms(2) by blast
  qed
next
  case (deadline t now out)
  then show ?thesis using advance_persists by (cases out) (fastforce simp: finish_def Let_def)
qed

lemma step_in_sync:
  assumes "session_step S parse uuid_New dlr g w (Stored es) w'" and "good (w_store w)" and "known g"
    and "in_sync S elog g (w_store w) (w_state w)"
    and "latest_seq (elog (w_store w) g) + length es < max_seq"
  shows "good (w_store w') \<and> in_sync S elog g (w_store w') (w_state w')
    \<and> elog (w_store w') g = elog (w_store w) g @ es \<and> numbered (latest_seq (elog (w_store w) g)) es
    \<and> w_state w' = applyAll (w_state w) es
    \<and> (\<forall>g'. g' \<noteq> g \<longrightarrow> elog (w_store w') g' = elog (w_store w) g')"
proof -
  obtain r where r: "Stored es = label_of None r" "w_state w' = after_result (w_state w) r"
    "(\<exists>now what events. persist S g now what events (w_store w) = (r, w_store w'))
       \<or> (isl r \<and> w_store w' = w_store w) \<or> (r = Inr [] \<and> w_store w' = w_store w)"
    using step_persists [OF assms(1)] by auto
  then have res: "r = Inr es" "w_state w' = applyAll (w_state w) es"
    by (auto simp: label_of_def after_result_def split: sum.splits)
  then consider (stored) now what events where "persist S g now what events (w_store w) = (Inr es, w_store w')"
    | (idle) "es = []" "w_store w' = w_store w" using r(3) by auto
  then show ?thesis
  proof cases
    case stored
    then show ?thesis using persist_ok [OF assms(2,3) stored assms(5)] in_sync_append [OF assms(4)] res(2)
      by auto
  next
    case idle
    then show ?thesis using assms res(2) by (simp add: applyAll_def numbered_def)
  qed
qed

lemma step_failed:
  assumes "session_step S parse uuid_New dlr g w Failed w'"
  shows "w_store w' = w_store w \<and> w_state w' = w_state w"
proof -
  obtain r where r: "Failed = label_of None r" "w_state w' = after_result (w_state w) r"
    "(\<exists>now what events. persist S g now what events (w_store w) = (r, w_store w'))
       \<or> (isl r \<and> w_store w' = w_store w) \<or> (r = Inr [] \<and> w_store w' = w_store w)"
    using step_persists [OF assms] by auto
  then show ?thesis using persist_failed
    by (cases r) (auto simp: label_of_def after_result_def split: if_splits)
qed

lemma run_in_sync:
  assumes "session_run S parse uuid_New dlr g w evs w'" and "good (w_store w)" and "known g"
    and "in_sync S elog g (w_store w) (w_state w)"
    and "latest_seq (elog (w_store w) g) + length evs < max_seq"
  shows "good (w_store w') \<and> in_sync S elog g (w_store w') (w_state w')
    \<and> elog (w_store w') g = elog (w_store w) g @ evs \<and> numbered (latest_seq (elog (w_store w) g)) evs
    \<and> w_state w' = applyAll (w_state w) evs
    \<and> (\<forall>g'. g' \<noteq> g \<longrightarrow> elog (w_store w') g' = elog (w_store w) g')"
  using assms
proof (induction rule: session_run.induct)
  case (start w)
  then show ?case by (simp add: applyAll_def numbered_def)
next
  case (stored w evs w1 es w2)
  let ?n = "latest_seq (elog (w_store w) g)"
  have IH: "good (w_store w1)" "in_sync S elog g (w_store w1) (w_state w1)"
    "elog (w_store w1) g = elog (w_store w) g @ evs" "numbered ?n evs"
    "w_state w1 = applyAll (w_state w) evs" "\<forall>g'. g' \<noteq> g \<longrightarrow> elog (w_store w1) g' = elog (w_store w) g'"
    using stored.IH stored.prems by auto
  have n1: "latest_seq (elog (w_store w1) g) = ?n + length evs" using latest_append [OF IH(4)] IH(3) by simp
  have "latest_seq (elog (w_store w1) g) + length es < max_seq" using stored.prems(4) n1 by simp
  from step_in_sync [OF stored.hyps(2) IH(1) stored.prems(2) IH(2) this]
  have step: "good (w_store w2)" "in_sync S elog g (w_store w2) (w_state w2)"
    "elog (w_store w2) g = elog (w_store w1) g @ es" "numbered (?n + length evs) es"
    "w_state w2 = applyAll (w_state w1) es"
    "\<forall>g'. g' \<noteq> g \<longrightarrow> elog (w_store w2) g' = elog (w_store w1) g'" unfolding n1 by auto
  have "numbered ?n (evs @ es)"
    using IH(4) step(4) upt_add_eq_append [of "?n + 1" "?n + 1 + length evs" "length es"]
    by (simp add: numbered_def add.assoc del: upt_Suc)
  then show ?case using IH step by (simp add: applyAll_def)
next
  case (failed w evs w1 w2)
  then show ?case
    unfolding step_failed [OF failed.hyps(2), THEN conjunct1] step_failed [OF failed.hyps(2), THEN conjunct2]
    by blast
qed

end

lemma pg_reads: "faults s = [] \<Longrightarrow> \<forall>n lim. \<exists>evs. GetEventsForGame (pgStore parse) g n lim s = Inr evs"
  by (simp add: pgStore_def pg_GetEventsForGame_def down_def)

lemma latest_bound: "pg_good s \<Longrightarrow> latest_seq (pg_log s g) < max_seq"
  using pg.log_bound [of s "last (pg_log s g)" g] by (simp add: latest_seq_def max_seq_def)

section \<open>Properties\<close>

text \<open>C6. The log is the state: over any run of a session in which no command is answered from the
  log, whatever fails on the way, the events the session stored are appended to the log of its
  game with consecutive numbers and nothing else, no other game is touched, and the state in
  memory is the state before with exactly these events applied; it stays the state that the
  latest snapshot and the log describe, with the number of the last event as its version.\<close>

theorem session_refines_log:
  assumes "session_run (pgStore parse) parse uuid_New dlr g w evs w'" and "pg_good (w_store w)"
    and "parse g = Some g" and "in_sync (pgStore parse) pg_log g (w_store w) (w_state w)"
    and "latest_seq (pg_log (w_store w) g) + length evs < max_seq"
  shows "pg_log (w_store w') g = pg_log (w_store w) g @ evs
    \<and> numbered (latest_seq (pg_log (w_store w) g)) evs
    \<and> (\<forall>g'. g' \<noteq> g \<longrightarrow> pg_log (w_store w') g' = pg_log (w_store w) g')
    \<and> w_state w' = applyAll (w_state w) evs
    \<and> pg_good (w_store w') \<and> in_sync (pgStore parse) pg_log g (w_store w') (w_state w')"
  using pg.run_in_sync [OF assms] by blast

text \<open>C33. A session can be dropped from memory at any time: loading the game again, page by page,
  gives back exactly the state the session had, with the number of its last event.\<close>

theorem reload_recovers_state:
  assumes "pg_good s" and "in_sync (pgStore parse) pg_log g s st" and "faults s = []"
  shows "router_loadState (pgStore parse) g s = Some (Inr st)
    \<and> (\<exists>n. LoadState (pgStore parse) g s = Some (Inr (st, n)) \<and> n = nat (Version st))"
proof -
  obtain st0 n where st0: "GetLatestSnapshot (pgStore parse) g s = Inr (st0, n)"
    "n \<le> latest_seq (pg_log s g)" "st = applyAll st0 (after n (pg_log s g))"
    "Version st = int (latest_seq (pg_log s g))"
    using assms(2) by (auto simp: in_sync_def)
  have "n < max_seq" using latest_bound [OF assms(1)] st0(2) le_less_trans by blast
  note load = pg.LoadState_result [OF assms(1) st0(1) this pg_reads [OF assms(3)]]
  moreover have "n = latest_seq (pg_log s g)" if none: "after n (pg_log s g) = []"
  proof (cases "pg_log s g = []")
    case False
    then have "\<not> n < evt_Sequence (last (pg_log s g))"
      using none last_in_set by (auto simp: after_def filter_empty_conv)
    then show ?thesis using st0(2) False by (simp add: latest_seq_def)
  qed (use st0(2) in \<open>simp add: latest_seq_def\<close>)
  ultimately show ?thesis using st0(3,4) by auto
qed

text \<open>Reading a game ends for every content of its tables, also when statements fail on the
  way: every page moves the start of the next one forward.\<close>

theorem LoadState_returns:
  assumes "pg_good s" and "\<And>st n. pg_GetLatestSnapshot g s = Inr (st, n) \<Longrightarrow> n < max_seq"
  shows "LoadState (pgStore parse) g s \<noteq> None \<and> router_loadState (pgStore parse) g s \<noteq> None"
  using pg.LoadState_ends [OF assms(1), where g = g] assms(2) by (simp add: pgStore_def)

text \<open>A step of the session that fails, at the lookup of the last number or at the append, has
  changed neither the store nor the state in memory: events are applied only once they are
  stored.\<close>

theorem failed_step_changes_nothing:
  assumes "session_step (pgStore parse) parse uuid_New dlr g w Failed w'"
  shows "w_store w' = w_store w \<and> w_state w' = w_state w"
  by (rule pg.step_failed [OF assms])

text \<open>C28. What the code does with a command sent twice: the second time the session answers with the
  first event the command caused, stores nothing, and applies that event to its state once
  more. Unless it was the last event of the game, the state in memory is then no longer the
  state of the log.\<close>

theorem retried_command_applied_again:
  assumes "already_seen (pgStore parse) parse g cmd (w_store w) = Some [evt]"
    and "evt_StateVersion evt = int (evt_Sequence evt)" and "0 < evt_Sequence evt"
    and "evt_Sequence evt < latest_seq (pg_log (w_store w) g)"
  shows "\<exists>w'. session_step (pgStore parse) parse uuid_New dlr g w (Replayed [evt]) w'
    \<and> w_store w' = w_store w \<and> w_state w' = Apply (w_state w) evt
    \<and> \<not> in_sync (pgStore parse) pg_log g (w_store w') (w_state w')"
proof -
  let ?out = "process (pgStore parse) parse uuid_New dlr g 0 (w_state w) [] cmd (w_store w) (w_dealer w)"
  let ?w = "finish 0 (w_state w) ?out"
  have out: "?out = (Inr [evt], w_store w, w_dealer w)" using assms(1) by (simp add: process_def)
  have "session_step (pgStore parse) parse uuid_New dlr g w (Replayed [evt]) ?w"
    by (rule session_step.command [OF refl]) (simp add: out label_of_def assms(1))
  moreover have "w_store ?w = w_store w" "w_state ?w = Apply (w_state w) evt"
    by (simp_all add: out finish_def after_result_def Let_def applyAll_def)
  moreover have "Version (Apply (w_state w) evt) \<noteq> int (latest_seq (pg_log (w_store w) g))"
    using assms(2-4) by (simp add: Version_Apply)
  then have "\<not> in_sync (pgStore parse) pg_log g (w_store w) (Apply (w_state w) evt)"
    by (simp add: in_sync_def)
  ultimately show ?thesis by (intro exI [of _ ?w]) simp
qed

section \<open>The theorems at work\<close>

text \<open>The game of \<open>flop_state\<close> in the store: the event that created it and a snapshot.\<close>

definition empty_tables :: Tables where
  "empty_tables = \<lparr>game_configs = [], game_events = [], game_snapshots = [], users = [],
     user_snapshots = [], user_daily_steps = [], step_deposit_reports = []\<rparr>"

definition created_event :: GameEvent where
  "created_event = (mk_event (EvTableCreated None))\<lparr>evt_GameId := ''g'', evt_Sequence := 1, evt_StateVersion := 1\<rparr>"

definition flop_db :: Db where
  "flop_db = \<lparr>committed = empty_tables\<lparr>
       game_events := [\<lparr>er_game_id = ''g'', er_sequence = 1, er_command_id = None, er_hand_id = None,
         er_state_version_after = 1, er_occurred_at = None, er_envelope = created_event\<rparr>],
       game_snapshots := [\<lparr>sr_game_id = ''g'', sr_sequence = 1, sr_hand_number = 0, sr_state = flop_state\<rparr>]\<rparr>,
     open_tx = None, db_now = 0, faults = []\<rparr>"

definition flop_world :: "(Db, FixedState) World" where
  "flop_world = \<lparr>w_store = flop_db, w_dealer = NewFixedDealer [0..<52], w_state = flop_state, w_timer = None\<rparr>"

lemma flop_db_facts:
  "pg_good flop_db" "in_sync (pgStore Some) pg_log ''g'' flop_db flop_state"
  "latest_seq (pg_log flop_db ''g'') = 1"
proof -
  show "pg_good flop_db"
    by (simp add: pg_good_def flop_db_def tables_def row_ok_def created_event_def max_seq_def)
  have "GetLatestSnapshot (pgStore Some) ''g'' flop_db = Inr (flop_state, 1)"
    by (simp add: pgStore_def pg_GetLatestSnapshot_def flop_db_def tables_def down_def to_uint64_def)
  moreover have l: "pg_log flop_db ''g'' = [created_event]"
    by (simp add: pg_log_def rows_of_game_def flop_db_def tables_def)
  moreover have v: "evt_Sequence created_event = 1" "Version flop_state = 1" by code_simp+
  ultimately show "in_sync (pgStore Some) pg_log ''g'' flop_db flop_state"
    "latest_seq (pg_log flop_db ''g'') = 1"
    by (simp_all add: in_sync_def latest_seq_def after_def applyAll_def)
qed
lemma flop_loads: "router_loadState (pgStore Some) ''g'' flop_db = Some (Inr flop_state)"
proof -
  have "GetLatestSnapshot (pgStore Some) ''g'' flop_db = Inr (flop_state, 1)"
    by (simp add: pgStore_def pg_GetLatestSnapshot_def flop_db_def tables_def down_def to_uint64_def)
  moreover have "pg_log flop_db ''g'' = [created_event]"
    by (simp add: pg_log_def rows_of_game_def flop_db_def tables_def)
  moreover have "evt_Sequence created_event = 1" by code_simp
  moreover have "faults flop_db = []" by (simp add: flop_db_def)
  ultimately show ?thesis
    using pg.LoadState_result(2) [OF flop_db_facts(1), of Some "''g''" flop_state 1] pg_reads [of flop_db Some]
    by (simp add: after_def applyAll_def max_seq_def)
qed

definition flop_call :: "(go_err + GameEvent list) \<times> Db \<times> FixedState" where
  \<comment> \<open>\<open>a\<close> calls 40 of the last 60\<close>
  "flop_call = process (pgStore Some) Some (\<lambda>_. ''u'') FixedDealer ''g'' 5 flop_state ''a''
     (command_of (CmdCall 40)) flop_db (NewFixedDealer [0..<52])"

definition flop_called :: "(Db, FixedState) World" where
  "flop_called = finish 5 flop_state flop_call"

lemma flop_step:
  "\<exists>es. length es = 4
    \<and> session_step (pgStore Some) Some (\<lambda>_. ''u'') FixedDealer ''g'' flop_world (Stored es) flop_called"
proof -
  have "\<not> isl (fst flop_call)" "length (projr (fst flop_call)) = 4"
    "already_seen (pgStore Some) Some ''g'' (command_of (CmdCall 40)) flop_db = None"
    by code_simp+
  then have "label_of (already_seen (pgStore Some) Some ''g'' (command_of (CmdCall 40)) flop_db)
      (fst flop_call) = Stored (projr (fst flop_call))" "length (projr (fst flop_call)) = 4"
    by (auto simp: label_of_def split: sum.split)
  then show ?thesis
    using session_step.command [of flop_call "pgStore Some" Some "\<lambda>_. ''u''" FixedDealer "''g''" 5 flop_world
        "''a''" "command_of (CmdCall 40)"]
    by (fastforce simp: flop_called_def flop_call_def flop_world_def)
qed

lemma session_refines_log_witness:
  "\<exists>es. length es = 4 \<and> pg_log (w_store flop_called) ''g'' = pg_log flop_db ''g'' @ es"
proof -
  obtain es where es: "length es = 4" "session_step (pgStore Some) Some (\<lambda>_. ''u'') FixedDealer ''g''
      flop_world (Stored es) flop_called"
    using flop_step by blast
  have run: "session_run (pgStore Some) Some (\<lambda>_. ''u'') FixedDealer ''g'' flop_world ([] @ es) flop_called"
    by (rule session_run.stored [OF session_run.start es(2)])
  have "w_store flop_world = flop_db" "w_state flop_world = flop_state" by (simp_all add: flop_world_def)
  then show ?thesis
    using session_refines_log [OF run] flop_db_facts es(1) by (auto simp: max_seq_def)
qed

lemma reload_recovers_state_witness: "router_loadState (pgStore Some) ''g'' flop_db = Some (Inr flop_state)"
  using reload_recovers_state [OF flop_db_facts(1,2)] by (simp add: flop_db_def)

lemma LoadState_returns_witness: "LoadState (pgStore Some) ''g'' (flop_db\<lparr>faults := [''GetEventsForGame'']\<rparr>) \<noteq> None"
proof -
  have "pg_good (flop_db\<lparr>faults := [''GetEventsForGame'']\<rparr>)"
    using flop_db_facts(1) by (simp add: pg_good_def flop_db_def tables_def)
  moreover have "pg_GetLatestSnapshot ''g'' (flop_db\<lparr>faults := [''GetEventsForGame'']\<rparr>) = Inr (flop_state, 1)"
    by (simp add: pg_GetLatestSnapshot_def flop_db_def tables_def down_def to_uint64_def)
  ultimately show ?thesis
    using LoadState_returns [of "flop_db\<lparr>faults := [''GetEventsForGame'']\<rparr>" "''g''"] by (simp add: max_seq_def)
qed

lemma failed_step_changes_nothing_witness:
  "\<exists>w'. session_step (pgStore Some) Some (\<lambda>_. ''u'') FixedDealer ''g''
      (flop_world\<lparr>w_store := flop_db\<lparr>faults := [''AppendGameEvents'']\<rparr>\<rparr>) Failed w' \<and> w_state w' = flop_state"
proof -
  let ?w = "flop_world\<lparr>w_store := flop_db\<lparr>faults := [''AppendGameEvents'']\<rparr>\<rparr>"
  let ?out = "process (pgStore Some) Some (\<lambda>_. ''u'') FixedDealer ''g'' 5 (w_state ?w) ''a''
     (command_of CmdFold) (w_store ?w) (w_dealer ?w)"
  have "isl (fst ?out)" by code_simp
  then have "session_step (pgStore Some) Some (\<lambda>_. ''u'') FixedDealer ''g'' ?w Failed (finish 5 (w_state ?w) ?out)"
    by (intro session_step.command [OF refl]) (auto simp: label_of_def split: sum.split)
  from this failed_step_changes_nothing [OF this] show ?thesis by (auto simp: flop_world_def)
qed

text \<open>The call sent twice: the 40 are taken twice, and \<open>a\<close>, who had 60, is left with minus 20.\<close>

lemma retried_command_applied_again_witness:
  "\<exists>evt w'. session_step (pgStore Some) Some (\<lambda>_. ''u'') FixedDealer ''g'' flop_called (Replayed [evt]) w'
    \<and> stack_of (w_state flop_called) ''a'' = 20 \<and> stack_of (w_state w') ''a'' = -20
    \<and> \<not> in_sync (pgStore Some) pg_log ''g'' (w_store w') (w_state w')"
proof -
  let ?e = "hd (projr (fst flop_call))"
  have seen: "already_seen (pgStore Some) Some ''g'' (command_of (CmdCall 40)) (w_store flop_called) = Some [?e]"
    "evt_StateVersion ?e = int (evt_Sequence ?e)" "0 < evt_Sequence ?e"
    "evt_Sequence ?e < latest_seq (pg_log (w_store flop_called) ''g'')"
    "stack_of (w_state flop_called) ''a'' = 20" "stack_of (Apply (w_state flop_called) ?e) ''a'' = -20"
    by code_simp+
  from retried_command_applied_again [OF seen(1-4), of "\<lambda>_. ''u''" FixedDealer] seen(5,6)
  show ?thesis by metis
qed

end
