(* ===== verification/Lobby.thy ===== *)
theory Lobby
  imports EventLog Lifecycle
begin

text \<open>
  \<open>src/internal/lobby/join_leave.go\<close> with the event builders of \<open>src/internal/engine/lobby.go\<close>:
  sitting down moves chips from a user's balance to the table, leaving moves what is left of
  the stack back. Both run in \<open>WithTx\<close>; a command identifier makes a retry answer from the log.
  \<open>now\<close> stands for \<open>timestamppb.Now()\<close>. The result is \<^const>\<open>None\<close> when the code does not return.
\<close>

section \<open>Events\<close>

definition cmd_text :: "uuid \<Rightarrow> string" where
  \<comment> \<open>\<open>if cmdID != uuid.Nil { cmdStr = cmdID.String() }\<close>\<close>
  "cmd_text cmdID = (if cmdID \<noteq> uuid_Nil then cmdID else [])"

definition BuildPlayerJoinedEvent ::
  "timestamp \<Rightarrow> uuid \<Rightarrow> nat \<Rightarrow> uuid \<Rightarrow> string \<Rightarrow> string \<Rightarrow> int \<Rightarrow> int \<Rightarrow> int \<Rightarrow> GameEvent" where
  "BuildPlayerJoinedEvent now gameID sq cmdID playerID userID seat buyIn stateVersion =
     \<lparr>evt_GameId = gameID, evt_Sequence = sq, evt_OccurredAt = Some now,
      evt_CausedByCommandId = cmd_text cmdID, evt_StateVersion = stateVersion,
      evt_Event = Some (EvPlayerJoined playerID userID seat buyIn)\<rparr>"

definition BuildPlayerLeftEvent ::
  "timestamp \<Rightarrow> uuid \<Rightarrow> nat \<Rightarrow> uuid \<Rightarrow> string \<Rightarrow> int \<Rightarrow> int \<Rightarrow> GameEvent" where
  "BuildPlayerLeftEvent now gameID sq cmdID playerID cashOut stateVersion =
     \<lparr>evt_GameId = gameID, evt_Sequence = sq, evt_OccurredAt = Some now,
      evt_CausedByCommandId = cmd_text cmdID, evt_StateVersion = stateVersion,
      evt_Event = Some (EvPlayerLeft playerID cashOut ''leave_request'')\<rparr>"

definition BuildAutoFoldEvent ::
  "timestamp \<Rightarrow> uuid \<Rightarrow> nat \<Rightarrow> uuid \<Rightarrow> string \<Rightarrow> int \<Rightarrow> GameEvent" where
  "BuildAutoFoldEvent now gameID sq cmdID playerID stateVersion =
     \<lparr>evt_GameId = gameID, evt_Sequence = sq, evt_OccurredAt = Some now,
      evt_CausedByCommandId = cmd_text cmdID, evt_StateVersion = stateVersion,
      evt_Event = Some (EvPlayerFolded playerID)\<rparr>"

section \<open>Seats\<close>

text \<open>\<open>for pid, uid := range state.GetPlayerUserIds()\<close>: the first entry in the order of the list.\<close>

definition findPlayerByUserID :: "GameState \<Rightarrow> string \<Rightarrow> string option" where
  "findPlayerByUserID st userID = map_option fst (find (\<lambda>(pid, uid). uid = userID) (PlayerUserIds st))"

definition seat_free :: "GameState \<Rightarrow> int \<Rightarrow> bool" where
  "seat_free st s \<longleftrightarrow> s \<notin> set (map (\<lambda>(i, p). Seat p) (Players st)) \<and> s \<notin> set (ReservedSeats st)"

definition selectSeat :: "GameState \<Rightarrow> int \<Rightarrow> go_err + int" where
  "selectSeat st requestedSeat =
     (let maxSeats = get_cfg MaxSeats 0 (Config st)
      in if requestedSeat > 0 then
           if requestedSeat > maxSeats \<or> \<not> seat_free st requestedSeat then Inl ErrSeatTaken
           else Inr requestedSeat
         else case find (seat_free st) [1..maxSeats] of
                Some s \<Rightarrow> Inr s
              | None \<Rightarrow> Inl ErrTableFull)"

section \<open>Joining\<close>

record JoinTableInput =
  ji_CommandID :: uuid
  ji_GameID :: uuid
  ji_UserID :: uuid
  ji_Seat :: int
  ji_BuyIn :: int

record JoinTableResult =
  jr_GameState :: GameState
  jr_NewSequence :: nat
  jr_UserNewBalance :: int

text \<open>What an already processed command answers: the state as it is now.\<close>

definition join_replay ::
  "'s Store \<Rightarrow> JoinTableInput \<Rightarrow> GameEvent \<Rightarrow> 's \<Rightarrow> ((go_err + JoinTableResult) \<times> 's) option" where
  "join_replay S input existing s =
     map_option (\<lambda>loaded. case loaded of
         Inl e \<Rightarrow> (Inl (Wrap ''load state for idempotency replay: '' e), s)
       | Inr (st, n) \<Rightarrow>
           (case GetUserSnapshot S (ji_UserID input) s of
              Inl e \<Rightarrow> (Inl (Wrap ''user snapshot for idempotency replay: '' e), s)
            | Inr snap \<Rightarrow> (Inr \<lparr>jr_GameState = st, jr_NewSequence = evt_Sequence existing,
                jr_UserNewBalance = us_ChipBalance snap\<rparr>, s)))
       (LoadState S (ji_GameID input) s)"

text \<open>Steps 3 to 9: the checks, the debit, the event.\<close>

definition join_seat :: "GameState \<Rightarrow> JoinTableInput \<Rightarrow> go_err + int" where
  "join_seat st input =
     (if Status st = GAME_STATUS_FINISHED \<or> Status st = GAME_STATUS_CLOSED then Inl ErrGameClosed
      else if ji_BuyIn input < get_cfg MinBuyIn 0 (Config st)
      then Inl (Wrap ''buy-in below the minimum'' ErrBuyInOutOfRange)
      else if get_cfg MaxBuyIn 0 (Config st) > 0 \<and> ji_BuyIn input > get_cfg MaxBuyIn 0 (Config st)
      then Inl (Wrap ''buy-in above the maximum'' ErrBuyInOutOfRange)
      else if findPlayerByUserID st (ji_UserID input) \<noteq> None then Inl ErrAlreadySeated
      else selectSeat st (ji_Seat input))"

definition join_debit ::
  "'s Store \<Rightarrow> timestamp \<Rightarrow> JoinTableInput \<Rightarrow> GameState \<Rightarrow> nat \<Rightarrow> int \<Rightarrow> 's
     \<Rightarrow> (go_err + JoinTableResult) \<times> 's" where
  "join_debit S now input st latestSeq seat s =
     (case DebitUserBalance S (ji_UserID input) (ji_BuyIn input) s of
        (Inl e, s1) \<Rightarrow>
          (Inl (if errors_Is e ErrInsufficientBalance then ErrInsufficientFunds
                else if errors_Is e ErrNotFound then ErrNotFound
                else Wrap ''debit user balance: '' e), s1)
      | (Inr userSnap, s1) \<Rightarrow>
          let nextSeq = to_uint64 (int latestSeq + 1);
              nextVersion = add64 (Version st) 1;
              evt = BuildPlayerJoinedEvent now (ji_GameID input) nextSeq (ji_CommandID input)
                (ji_UserID input) (ji_UserID input) seat (ji_BuyIn input) nextVersion
          in case AppendEvent S evt s1 of
               (Some e, s2) \<Rightarrow> (Inl e, s2)
             | (None, s2) \<Rightarrow> (Inr \<lparr>jr_GameState = Apply st evt, jr_NewSequence = nextSeq,
                 jr_UserNewBalance = us_ChipBalance userSnap\<rparr>, s2))"

definition join_new ::
  "'s Store \<Rightarrow> timestamp \<Rightarrow> JoinTableInput \<Rightarrow> 's \<Rightarrow> ((go_err + JoinTableResult) \<times> 's) option" where
  "join_new S now input s =
     map_option (\<lambda>loaded. case loaded of
         Inl e \<Rightarrow> (Inl (if errors_Is e ErrNotFound then ErrNotFound
                       else Wrap ''load game state: '' e), s)
       | Inr (st, latestSeq) \<Rightarrow>
           (case join_seat st input of
              Inl e \<Rightarrow> (Inl e, s)
            | Inr seat \<Rightarrow> join_debit S now input st latestSeq seat s))
       (LoadState S (ji_GameID input) s)"

definition JoinTable ::
  "'s Store \<Rightarrow> timestamp \<Rightarrow> JoinTableInput \<Rightarrow> 's \<Rightarrow> ((go_err + JoinTableResult) \<times> 's) option" where
  "JoinTable S now input =
     WithTx S (\<lambda>s.
       if ji_CommandID input \<noteq> uuid_Nil then
         (case FindEventByCommandID S (ji_CommandID input) (ji_GameID input) s of
            Inr existing \<Rightarrow> join_replay S input existing s
          | Inl e \<Rightarrow>
              if errors_Is e ErrNotFound then join_new S now input s
              else Some (Inl (Wrap ''idempotency check: '' e), s))
       else join_new S now input s)"

section \<open>Leaving\<close>

record LeaveTableInput =
  li_CommandID :: uuid
  li_GameID :: uuid
  li_UserID :: uuid

record LeaveTableResult =
  lr_GameState :: GameState
  lr_CashOutAmount :: int
  lr_UserNewBalance :: int

definition leave_replay ::
  "'s Store \<Rightarrow> LeaveTableInput \<Rightarrow> GameEvent \<Rightarrow> 's \<Rightarrow> ((go_err + LeaveTableResult) \<times> 's) option" where
  "leave_replay S input existing s =
     map_option (\<lambda>loaded. case loaded of
         Inl e \<Rightarrow> (Inl (Wrap ''load state for idempotency replay: '' e), s)
       | Inr (st, n) \<Rightarrow>
           (case GetUserSnapshot S (li_UserID input) s of
              Inl e \<Rightarrow> (Inl (Wrap ''user snapshot for idempotency replay: '' e), s)
            | Inr snap \<Rightarrow>
                let cashOut = (case evt_Event existing of
                                 Some (EvPlayerLeft pid c r) \<Rightarrow> c | _ \<Rightarrow> 0)
                in (Inr \<lparr>lr_GameState = st, lr_CashOutAmount = cashOut,
                     lr_UserNewBalance = us_ChipBalance snap\<rparr>, s)))
       (LoadState S (li_GameID input) s)"

text \<open>Step 3: a fold, when the player is in a hand and has not folded, and the departure.\<close>

definition leave_events ::
  "timestamp \<Rightarrow> LeaveTableInput \<Rightarrow> GameState \<Rightarrow> nat \<Rightarrow> string \<Rightarrow> PlayerState \<Rightarrow> GameEvent list" where
  "leave_events now input st latestSeq playerID p =
     (let sq = to_uint64 (int latestSeq + 1);
          v = add64 (Version st) 1;
          left = (\<lambda>sq v. BuildPlayerLeftEvent now (li_GameID input) sq (li_CommandID input) playerID (Stack p) v)
      in if CurrentHand st \<noteq> None \<and> \<not> IsFolded p
         then [BuildAutoFoldEvent now (li_GameID input) sq (li_CommandID input) playerID v,
               left (to_uint64 (int sq + 1)) (add64 v 1)]
         else [left sq v])"

text \<open>Steps 5 and 6: the credit, and the state to answer with.\<close>

definition leave_credit ::
  "'s Store \<Rightarrow> LeaveTableInput \<Rightarrow> GameState \<Rightarrow> int \<Rightarrow> GameEvent list \<Rightarrow> 's
     \<Rightarrow> (go_err + LeaveTableResult) \<times> 's" where
  "leave_credit S input st cashOut events s =
     (case (if cashOut > 0 then
              (case CreditUserBalance S (li_UserID input) cashOut s of
                 (Inl e, s1) \<Rightarrow> (Inl (Wrap ''credit user balance: '' e), s1)
               | (Inr snap, s1) \<Rightarrow> (Inr snap, s1))
            else
              (case GetUserSnapshot S (li_UserID input) s of
                 Inl e \<Rightarrow> (Inl (Wrap ''get user snapshot: '' e), s)
               | Inr snap \<Rightarrow> (Inr snap, s))) of
        (Inl e, s1) \<Rightarrow> (Inl e, s1)
      | (Inr snap, s1) \<Rightarrow>
          (Inr \<lparr>lr_GameState = applyAll st events, lr_CashOutAmount = cashOut,
             lr_UserNewBalance = us_ChipBalance snap\<rparr>, s1))"

definition leave_new ::
  "'s Store \<Rightarrow> timestamp \<Rightarrow> LeaveTableInput \<Rightarrow> 's \<Rightarrow> ((go_err + LeaveTableResult) \<times> 's) option" where
  "leave_new S now input s =
     map_option (\<lambda>loaded. case loaded of
         Inl e \<Rightarrow> (Inl (Wrap ''load game state: '' e), s)
       | Inr (st, latestSeq) \<Rightarrow>
           (case findPlayerByUserID st (li_UserID input) of
              None \<Rightarrow> (Inl ErrUserNotAtTable, s)
            | Some playerID \<Rightarrow>
                let p = (case player st playerID of None \<Rightarrow> empty_PlayerState | Some p \<Rightarrow> p);
                    events = leave_events now input st latestSeq playerID p
                in (case AppendEvents S events s of
                      (Some e, s1) \<Rightarrow> (Inl e, s1)
                    | (None, s1) \<Rightarrow> leave_credit S input st (Stack p) events s1)))
       (LoadState S (li_GameID input) s)"

definition LeaveTable ::
  "'s Store \<Rightarrow> timestamp \<Rightarrow> LeaveTableInput \<Rightarrow> 's \<Rightarrow> ((go_err + LeaveTableResult) \<times> 's) option" where
  "LeaveTable S now input =
     WithTx S (\<lambda>s.
       if li_CommandID input \<noteq> uuid_Nil then
         (case FindEventByCommandID S (li_CommandID input) (li_GameID input) s of
            Inr existing \<Rightarrow> leave_replay S input existing s
          | Inl e \<Rightarrow>
              if errors_Is e ErrNotFound then leave_new S now input s
              else Some (Inl (Wrap ''idempotency check: '' e), s))
       else leave_new S now input s)"

section \<open>Seats: the lowest free one\<close>

lemma selectSeat_free:
  "selectSeat st req = Inr s \<Longrightarrow> 1 \<le> s \<and> s \<le> get_cfg MaxSeats 0 (Config st) \<and> seat_free st s"
  by (auto simp: selectSeat_def Let_def find_Some_iff split: if_splits option.splits)

lemma find_upto: "find P [a..b] = Some s \<Longrightarrow> a \<le> x \<Longrightarrow> x < s \<Longrightarrow> \<not> P x" for x :: int
proof (induction a b rule: upto.induct)
  case (1 i j)
  then show ?case
    by (cases "i \<le> j"; cases "P i"; cases "x = i") (auto simp: upto_rec1)
qed

lemma selectSeat_lowest:
  "selectSeat st req = Inr s \<Longrightarrow> req \<le> 0 \<Longrightarrow> 1 \<le> x \<Longrightarrow> x < s \<Longrightarrow> \<not> seat_free st x"
  using find_upto [of "seat_free st" 1 "get_cfg MaxSeats 0 (Config st)" s x]
  by (auto simp: selectSeat_def Let_def split: option.splits)

lemma selectSeat_full:
  "req \<le> 0 \<Longrightarrow> (\<exists>s. selectSeat st req = Inr s)
     \<longleftrightarrow> (\<exists>s. 1 \<le> s \<and> s \<le> get_cfg MaxSeats 0 (Config st) \<and> seat_free st s)"
proof -
  assume "req \<le> 0"
  then have "(\<exists>s. selectSeat st req = Inr s) \<longleftrightarrow> find (seat_free st) [1..get_cfg MaxSeats 0 (Config st)] \<noteq> None"
    by (auto simp: selectSeat_def Let_def split: option.splits)
  then show ?thesis by (auto simp: find_None_iff)
qed

lemma join_seat_facts:
  assumes "join_seat st input = Inr seat"
  shows "1 \<le> seat \<and> seat \<le> get_cfg MaxSeats 0 (Config st) \<and> seat_free st seat
    \<and> get_cfg MinBuyIn 0 (Config st) \<le> ji_BuyIn input
    \<and> (get_cfg MaxBuyIn 0 (Config st) > 0 \<longrightarrow> ji_BuyIn input \<le> get_cfg MaxBuyIn 0 (Config st))
    \<and> findPlayerByUserID st (ji_UserID input) = None
    \<and> Status st \<noteq> GAME_STATUS_FINISHED \<and> Status st \<noteq> GAME_STATUS_CLOSED"
  using assms selectSeat_free by (fastforce simp: join_seat_def split: if_splits)

section \<open>Chips at a table and in the balances\<close>

text \<open>What the lobby relies on of a store beyond the log: the transactions keep the balances, a debit
  and a credit change one balance by the amount or fail.\<close>

locale cash_store = event_log S elog good known
  for S :: "'s Store" and elog :: "'s \<Rightarrow> uuid \<Rightarrow> GameEvent list" and good and known +
  fixes balance :: "'s \<Rightarrow> uuid \<Rightarrow> int option"
    and idle :: "'s \<Rightarrow> bool"
  assumes begin_keeps: "idle s \<Longrightarrow> Begin S s = (None, s1) \<Longrightarrow> balance s1 = balance s \<and> elog s1 = elog s"
    and commit_keeps: "Commit S s = (None, s1) \<Longrightarrow> balance s1 = balance s \<and> elog s1 = elog s"
    and debiting: "DebitUserBalance S u a s = (Inr snap, s1) \<Longrightarrow>
        elog s1 = elog s \<and> (\<exists>b. balance s u = Some b \<and> a \<le> b \<and> us_ChipBalance snap = b - a
          \<and> balance s1 = (balance s)(u \<mapsto> b - a))"
    and crediting: "CreditUserBalance S u a s = (Inr snap, s1) \<Longrightarrow>
        elog s1 = elog s \<and> (\<exists>b. balance s u = Some b \<and> us_ChipBalance snap = b + a
          \<and> balance s1 = (balance s)(u \<mapsto> b + a))"
    and reading_balance: "GetUserSnapshot S u s = Inr snap \<Longrightarrow> balance s u = Some (us_ChipBalance snap)"
    and append_keeps: "AppendEvent S e s = (None, s1) \<Longrightarrow> balance s1 = balance s"
    and appends_keep: "AppendEvents S evs s = (None, s1) \<Longrightarrow> balance s1 = balance s"
begin

text \<open>A committed transaction that was not a replay ran its body on the state after \<open>Begin\<close>.\<close>

lemma WithTx_Inr:
  assumes "WithTx S fn s = Some (Inr r, s')" and "Begin S s = (None, s1)"
  shows "\<exists>s2. fn s1 = Some (Inr r, s2) \<and> Commit S s2 = (None, s')"
proof -
  obtain out where out: "fn s1 = Some out" using assms by (auto simp: WithTx_def)
  then show ?thesis using assms
    by (cases out; cases "fst out") (auto simp: WithTx_def split: prod.splits option.splits)
qed

lemma join_moves:
  assumes "idle s" and "Begin S s = (None, s1)"
    and "ji_CommandID input = uuid_Nil \<or> FindEventByCommandID S (ji_CommandID input) (ji_GameID input) s1 = Inl ErrNotFound"
    and "LoadState S (ji_GameID input) s1 = Some (Inr (st, n))"
    and "JoinTable S now input s = Some (Inr r, s')"
  shows "\<exists>b seat evt. balance s (ji_UserID input) = Some b \<and> ji_BuyIn input \<le> b
    \<and> balance s' = (balance s)(ji_UserID input \<mapsto> b - ji_BuyIn input)
    \<and> jr_UserNewBalance r = b - ji_BuyIn input \<and> join_seat st input = Inr seat
    \<and> jr_GameState r = Apply st evt
    \<and> evt_Event evt = Some (EvPlayerJoined (ji_UserID input) (ji_UserID input) seat (ji_BuyIn input))"
proof -
  obtain s2 where body: "join_new S now input s1 = Some (Inr r, s2)" and c: "Commit S s2 = (None, s')"
    using WithTx_Inr [OF assms(5) [unfolded JoinTable_def] assms(2)] assms(3)
    by (auto simp: errors_Is_def split: if_splits)
  from body assms(4) obtain seat where seat: "join_seat st input = Inr seat"
    and d: "join_debit S now input st n seat s1 = (Inr r, s2)"
    by (auto simp: join_new_def split: sum.splits)
  obtain snap s3 where d1: "DebitUserBalance S (ji_UserID input) (ji_BuyIn input) s1 = (Inr snap, s3)"
    using d by (cases "DebitUserBalance S (ji_UserID input) (ji_BuyIn input) s1"; cases "fst (DebitUserBalance S (ji_UserID input) (ji_BuyIn input) s1)")
      (auto simp: join_debit_def)
  let ?evt = "BuildPlayerJoinedEvent now (ji_GameID input) (to_uint64 (int n + 1)) (ji_CommandID input)
      (ji_UserID input) (ji_UserID input) seat (ji_BuyIn input) (add64 (Version st) 1)"
  have a: "AppendEvent S ?evt s3 = (None, s2)" and r: "jr_GameState r = Apply st ?evt" "jr_UserNewBalance r = us_ChipBalance snap"
    using d d1 by (auto simp: join_debit_def Let_def split: prod.splits option.splits)
  obtain b where "balance s1 (ji_UserID input) = Some b" "ji_BuyIn input \<le> b"
    "us_ChipBalance snap = b - ji_BuyIn input" "balance s3 = (balance s1)(ji_UserID input \<mapsto> b - ji_BuyIn input)"
    using debiting [OF d1] by blast
  then have "balance s (ji_UserID input) = Some b \<and> ji_BuyIn input \<le> b
    \<and> balance s' = (balance s)(ji_UserID input \<mapsto> b - ji_BuyIn input)
    \<and> jr_UserNewBalance r = b - ji_BuyIn input"
    using begin_keeps [OF assms(1,2)] append_keeps [OF a] commit_keeps [OF c] r(2) by simp
  moreover have "evt_Event ?evt = Some (EvPlayerJoined (ji_UserID input) (ji_UserID input) seat (ji_BuyIn input))"
    by (simp add: BuildPlayerJoinedEvent_def)
  ultimately show ?thesis using seat r(1) by blast
qed

lemma leave_moves:
  assumes "idle s" and "Begin S s = (None, s1)"
    and "li_CommandID input = uuid_Nil \<or> FindEventByCommandID S (li_CommandID input) (li_GameID input) s1 = Inl ErrNotFound"
    and "LoadState S (li_GameID input) s1 = Some (Inr (st, n))"
    and "findPlayerByUserID st (li_UserID input) = Some pid" and "player st pid = Some p" and "0 \<le> Stack p"
    and "LeaveTable S now input s = Some (Inr r, s')"
  shows "\<exists>b. balance s (li_UserID input) = Some b
    \<and> balance s' = (balance s)(li_UserID input \<mapsto> b + Stack p)
    \<and> lr_UserNewBalance r = b + Stack p \<and> lr_CashOutAmount r = Stack p
    \<and> lr_GameState r = applyAll st (leave_events now input st n pid p)"
proof -
  let ?evs = "leave_events now input st n pid p" and ?u = "li_UserID input"
  obtain s2 where body: "leave_new S now input s1 = Some (Inr r, s2)" and c: "Commit S s2 = (None, s')"
    using WithTx_Inr [OF assms(8) [unfolded LeaveTable_def] assms(2)] assms(3)
    by (auto simp: errors_Is_def split: if_splits)
  from body assms(4-6) obtain s3 where a: "AppendEvents S ?evs s1 = (None, s3)"
    and cr: "leave_credit S input st (Stack p) ?evs s3 = (Inr r, s2)"
    by (auto simp: leave_new_def Let_def split: sum.splits prod.splits option.splits)
  have s1: "balance s3 = balance s" using appends_keep [OF a] begin_keeps [OF assms(1,2)] by simp
  have r: "lr_CashOutAmount r = Stack p" "lr_GameState r = applyAll st ?evs"
    using cr by (auto simp: leave_credit_def split: sum.splits prod.splits if_splits)
  have "\<exists>b. balance s3 ?u = Some b \<and> balance s2 = (balance s3)(?u \<mapsto> b + Stack p) \<and> lr_UserNewBalance r = b + Stack p"
  proof (cases "Stack p > 0")
    case True
    then obtain snap where "CreditUserBalance S ?u (Stack p) s3 = (Inr snap, s2)" "lr_UserNewBalance r = us_ChipBalance snap"
      using cr by (auto simp: leave_credit_def split: sum.splits prod.splits)
    then show ?thesis using crediting [of ?u "Stack p" s3 snap s2] by auto
  next
    case False
    then obtain snap where "GetUserSnapshot S ?u s3 = Inr snap" "lr_UserNewBalance r = us_ChipBalance snap" "s2 = s3"
      using cr by (auto simp: leave_credit_def split: sum.splits prod.splits)
    then show ?thesis using reading_balance False assms(7) by (auto simp: fun_upd_idem)
  qed
  then show ?thesis using s1 commit_keeps [OF c] r by auto
qed

end

section \<open>\<open>pgStore\<close> keeps balances\<close>

lemma pg_log_cong: "game_events (tables s) = game_events (tables s') \<Longrightarrow> pg_log s = pg_log s'"
  by (simp add: pg_log_def rows_of_game_def fun_eq_iff)

lemma set_balance_effect:
  assumes "set_balance u snap b s = (r, s')"
  shows "pg_log s' = pg_log s \<and> pg_balance s' = (pg_balance s)(u \<mapsto> b) \<and> (\<exists>snap'. r = Inr snap' \<and> us_ChipBalance snap' = b)"
proof -
  let ?snap = "snap\<lparr>us_ChipBalance := b, us_LastActivityAt := db_now s\<rparr>"
  have r: "r = Inr ?snap" and s': "s' = upd_tables (\<lambda>t. t\<lparr>user_snapshots := AList.update u ?snap (user_snapshots t)\<rparr>) s"
    using assms by (auto simp: set_balance_def Let_def)
  have "pg_log s' = pg_log s" unfolding s' by (rule pg_log_cong) simp
  moreover have "pg_balance s' = (pg_balance s)(u \<mapsto> b)"
    unfolding s' by (auto simp: pg_balance_def fun_eq_iff update_conv')
  ultimately show ?thesis using r by simp
qed

interpretation pg_cash: cash_store "pgStore parse" pg_log pg_good "\<lambda>g. parse g = Some g" pg_balance pg_idle
  for parse :: "string \<Rightarrow> uuid option"
proof unfold_locales
  fix s s1 u a snap e evs
  show "pg_idle s \<Longrightarrow> Begin (pgStore parse) s = (None, s1) \<Longrightarrow> pg_balance s1 = pg_balance s \<and> pg_log s1 = pg_log s"
    by (auto simp: pgStore_def pg_Begin_def pg_idle_def pg_balance_def tables_def fun_eq_iff
        intro!: pg_log_cong [THEN fun_cong] split: if_splits)
  show "Commit (pgStore parse) s = (None, s1) \<Longrightarrow> pg_balance s1 = pg_balance s \<and> pg_log s1 = pg_log s"
    by (auto simp: pgStore_def pg_Commit_def pg_balance_def tables_def fun_eq_iff
        intro!: pg_log_cong [THEN fun_cong] split: if_splits)
  show "DebitUserBalance (pgStore parse) u a s = (Inr snap, s1) \<Longrightarrow>
        pg_log s1 = pg_log s \<and> (\<exists>b. pg_balance s u = Some b \<and> a \<le> b \<and> us_ChipBalance snap = b - a
          \<and> pg_balance s1 = (pg_balance s)(u \<mapsto> b - a))"
    using set_balance_effect [of u _ _ s "Inr snap" s1]
    by (auto simp: pgStore_def pg_DebitUserBalance_def Let_def pg_balance_def split: if_splits option.splits)
  show "CreditUserBalance (pgStore parse) u a s = (Inr snap, s1) \<Longrightarrow>
        pg_log s1 = pg_log s \<and> (\<exists>b. pg_balance s u = Some b \<and> us_ChipBalance snap = b + a
          \<and> pg_balance s1 = (pg_balance s)(u \<mapsto> b + a))"
    using set_balance_effect [of u _ _ s "Inr snap" s1]
    by (auto simp: pgStore_def pg_CreditUserBalance_def Let_def pg_balance_def split: if_splits option.splits)
  show "GetUserSnapshot (pgStore parse) u s = Inr snap \<Longrightarrow> pg_balance s u = Some (us_ChipBalance snap)"
    by (auto simp: pgStore_def pg_GetUserSnapshot_def pg_balance_def split: if_splits option.splits)
  show "AppendEvent (pgStore parse) e s = (None, s1) \<Longrightarrow> pg_balance s1 = pg_balance s"
    by (auto simp: pgStore_def pg_AppendEvent_def insert_event_def pg_balance_def fun_eq_iff
        split: if_splits sum.splits)
  show "AppendEvents (pgStore parse) evs s = (None, s1) \<Longrightarrow> pg_balance s1 = pg_balance s"
    by (auto simp: pgStore_def pg_AppendEvents_def pg_balance_def tables_def fun_eq_iff
        split: if_splits sum.splits option.splits dest!: copy_events_Inr)
qed

section \<open>Chips at the table\<close>

lemma Apply_Some:
  "evt_Event evt = Some e \<Longrightarrow> \<exists>v. Apply st evt = apply_payload e (evt_OccurredAt evt) (st\<lparr>Version := v\<rparr>)"
  by (auto simp: Apply_def Let_def)

lemma join_chips:
  assumes "distinct (keys (Players st))" and "evt_Event evt = Some (EvPlayerJoined u v seat b)"
  shows "chips (Apply st evt) = chips st + b - stack_of st u"
    and "\<exists>p. player (Apply st evt) u = Some p \<and> Stack p = b \<and> Seat p = seat"
    and "q \<noteq> u \<Longrightarrow> player (Apply st evt) q = player st q"
proof -
  obtain v' where a: "Apply st evt = apply_PlayerJoined u v seat b (st\<lparr>Version := v'\<rparr>)"
    using Apply_Some [OF assms(2)] by auto
  show "chips (Apply st evt) = chips st + b - stack_of st u"
    unfolding a using assms(1) by (simp add: ledger_joined stack_of_def player_def)
  show "\<exists>p. player (Apply st evt) u = Some p \<and> Stack p = b \<and> Seat p = seat"
    "q \<noteq> u \<Longrightarrow> player (Apply st evt) q = player st q"
    by (simp_all add: a apply_PlayerJoined_def player_def update_conv')
qed

lemma stack_of_Version: "stack_of (st\<lparr>Version := v\<rparr>) q = stack_of st q"
  by (simp add: stack_of_def player_def)

lemma folded_chips:
  "chips (apply_PlayerFolded pid st) = chips st" "stack_of (apply_PlayerFolded pid st) q = stack_of st q"
  "keys (Players (apply_PlayerFolded pid st)) = keys (Players st)"
  by (auto simp: apply_PlayerFolded_def chips_def pot_of_def asum_map_entry_same done_acting_def stack_of_def
      player_upd_player split: option.splits)

lemma leave_chips:
  assumes "distinct (keys (Players st))" and "player st pid = Some p"
  shows "chips (applyAll st (leave_events now input st n pid p)) = chips st - Stack p"
    and "player (applyAll st (leave_events now input st n pid p)) pid = None"
proof -
  let ?st = "applyAll st (leave_events now input st n pid p)"
  let ?left = "\<lambda>sq v. BuildPlayerLeftEvent now (li_GameID input) sq (li_CommandID input) pid (Stack p) v"
  have left: "\<exists>w. Apply st' (?left sq v) = apply_PlayerLeft pid (st'\<lparr>Version := w\<rparr>)" for st' sq v
    using Apply_Some [of "?left sq v" "EvPlayerLeft pid (Stack p) ''leave_request''" st'] by (simp add: BuildPlayerLeftEvent_def)
  have fold: "\<exists>w. Apply st (BuildAutoFoldEvent now g sq c pid v) = apply_PlayerFolded pid (st\<lparr>Version := w\<rparr>)" for g sq c v
    using Apply_Some [of "BuildAutoFoldEvent now g sq c pid v" "EvPlayerFolded pid" st] by (simp add: BuildAutoFoldEvent_def)
  have a: "\<exists>v w. ?st = apply_PlayerLeft pid (st\<lparr>Version := v\<rparr>)
      \<or> ?st = apply_PlayerLeft pid ((apply_PlayerFolded pid (st\<lparr>Version := v\<rparr>))\<lparr>Version := w\<rparr>)"
    using left fold by (simp add: leave_events_def Let_def applyAll_def) metis
  have "stack_of st pid = Stack p" using assms(2) by (simp add: stack_of_def)
  then show "chips ?st = chips st - Stack p"
    using a assms(1) by (auto simp: ledger_left folded_chips stack_of_Version)
  show "player ?st pid = None"
    using a by (auto simp: apply_PlayerLeft_def player_def delete_conv)
qed

lemma params_of_env: "params_of parse evs = Inr rs \<Longrightarrow> map er_envelope rs = evs"
proof (induction evs arbitrary: rs)
  case (Cons e evs)
  then obtain r rs' where "eventToParams parse e = Inr r" "params_of parse evs = Inr rs'" "rs = r # rs'"
    by (auto split: sum.splits)
  then show ?case using Cons.IH by (auto simp: eventToParams_def Let_def split: option.splits if_splits)
qed simp

text \<open>Nothing that happens inside a transaction is committed before its end, except by \<open>AppendEvents\<close>.\<close>

definition in_tx :: "Db \<Rightarrow> Db \<Rightarrow> bool" where
  "in_tx s s' \<longleftrightarrow> committed s' = committed s \<and> open_tx s' \<noteq> None"

lemma in_tx_ops:
  assumes "open_tx s \<noteq> None"
  shows "pg_AppendEvent parse e s = (r, s') \<Longrightarrow> in_tx s s'"
    and "pg_DebitUserBalance u a s = (q, s') \<Longrightarrow> in_tx s s'"
  using assms by (auto simp: in_tx_def pg_AppendEvent_def pg_DebitUserBalance_def set_balance_def Let_def
      upd_tables_def split: if_splits sum.splits option.splits)

lemma in_tx_join:
  assumes "open_tx s \<noteq> None" and "join_new (pgStore parse) now input s = Some (r, s')"
  shows "in_tx s s'"
proof -
  have "in_tx s s2" if d: "join_debit (pgStore parse) now input st n seat s = (q, s2)" for st n seat q s2
  proof -
    obtain x s1 where x: "pg_DebitUserBalance (ji_UserID input) (ji_BuyIn input) s = (x, s1)" by fastforce
    then have "in_tx s s1" by (rule in_tx_ops(2) [OF assms(1)])
    moreover have "s2 = s1 \<or> in_tx s1 s2"
      using d x in_tx_ops(1) [of s1] \<open>in_tx s s1\<close>
      by (fastforce simp: join_debit_def pgStore_def Let_def in_tx_def split: sum.splits prod.splits option.splits)
    ultimately show ?thesis by (auto simp: in_tx_def)
  qed
  moreover have "in_tx s s" using assms(1) by (simp add: in_tx_def)
  moreover obtain x where "LoadState (pgStore parse) (ji_GameID input) s = Some x"
    using assms(2) by (auto simp: join_new_def)
  ultimately show ?thesis
    using assms(2) by (cases x) (auto simp: join_new_def split: sum.split_asm)
qed

lemma join_replay_reads: "join_replay S input existing s = Some (r, s') \<Longrightarrow> s' = s"
proof -
  assume r: "join_replay S input existing s = Some (r, s')"
  then obtain x where "LoadState S (ji_GameID input) s = Some x" by (auto simp: join_replay_def)
  then show "s' = s" using r by (cases x) (auto simp: join_replay_def split: sum.split_asm)
qed

lemma pg_WithTx_Inl:
  assumes "pg_idle s" and "WithTx (pgStore parse) fn s = Some (Inl e, s')"
    and "\<And>r s2. fn (tx_view s) = Some (r, s2) \<Longrightarrow> in_tx (tx_view s) s2"
  shows "committed s' = committed s \<and> open_tx s' = None"
proof (cases "down ''Begin'' s")
  case True
  then show ?thesis using assms(1,2) by (auto simp: WithTx_def pgStore_def pg_Begin_def pg_idle_def)
next
  case False
  then have b: "Begin (pgStore parse) s = (None, tx_view s)" by (simp add: pgStore_def pg_Begin_def tx_view_def)
  obtain r s2 where fn: "fn (tx_view s) = Some (r, s2)" using assms(2) b by (auto simp: WithTx_def)
  have "committed s2 = committed s" using assms(3) [OF fn] by (simp add: in_tx_def tx_view_def)
  then show ?thesis using assms(2) fn b
    by (cases r) (auto simp: WithTx_def pgStore_def pg_Commit_def pg_Rollback_def split: prod.splits option.splits if_splits)
qed

lemma join_fails:
  assumes "pg_idle s" and "JoinTable (pgStore parse) now input s = Some (Inl e, s')"
  shows "committed s' = committed s \<and> open_tx s' = None"
proof (rule pg_WithTx_Inl [OF assms(1) assms(2) [unfolded JoinTable_def]])
  fix r s2
  have o: "open_tx (tx_view s) \<noteq> None" by (simp add: tx_view_def)
  have "in_tx (tx_view s) (tx_view s)" by (simp add: in_tx_def tx_view_def)
  then show "(if ji_CommandID input \<noteq> uuid_Nil
         then case FindEventByCommandID (pgStore parse) (ji_CommandID input) (ji_GameID input) (tx_view s) of
                Inl e \<Rightarrow> if errors_Is e ErrNotFound then join_new (pgStore parse) now input (tx_view s)
                  else Some (Inl (Wrap ''idempotency check: '' e), tx_view s)
              | Inr existing \<Rightarrow> join_replay (pgStore parse) input existing (tx_view s)
         else join_new (pgStore parse) now input (tx_view s)) = Some (r, s2)
      \<Longrightarrow> in_tx (tx_view s) s2"
    using in_tx_join [OF o, of parse now input] join_replay_reads [of "pgStore parse" input _ "tx_view s"]
    by (fastforce split: if_split_asm sum.split_asm)
qed

section \<open>Properties\<close>

text \<open>C12. Sitting down moves chips and makes none: a join that succeeds and whose command id, if it has one,
  no event of the game carries (so it is not a retry) takes the buy-in, which is within the limits of
  the table, from the user's balance and from no other, and puts it in front of the user; the seat is
  one of the table's, nobody sits there and it is not reserved.\<close>

theorem joining_moves_chips:
  assumes "pg_idle s" and "faults s = []"
    and "ji_CommandID input = uuid_Nil
      \<or> FindEventByCommandID (pgStore parse) (ji_CommandID input) (ji_GameID input) (tx_view s) = Inl ErrNotFound"
    and "LoadState (pgStore parse) (ji_GameID input) (tx_view s) = Some (Inr (st, n))"
    and "distinct (keys (Players st))" and "player st (ji_UserID input) = None"
    and "JoinTable (pgStore parse) now input s = Some (Inr r, s')"
  shows "\<exists>b p. pg_balance s (ji_UserID input) = Some b \<and> ji_BuyIn input \<le> b
    \<and> pg_balance s' = (pg_balance s)(ji_UserID input \<mapsto> b - ji_BuyIn input)
    \<and> chips (jr_GameState r) = chips st + ji_BuyIn input
    \<and> player (jr_GameState r) (ji_UserID input) = Some p \<and> Stack p = ji_BuyIn input
    \<and> 1 \<le> Seat p \<and> Seat p \<le> get_cfg MaxSeats 0 (Config st) \<and> seat_free st (Seat p)
    \<and> get_cfg MinBuyIn 0 (Config st) \<le> ji_BuyIn input
    \<and> (get_cfg MaxBuyIn 0 (Config st) > 0 \<longrightarrow> ji_BuyIn input \<le> get_cfg MaxBuyIn 0 (Config st))"
proof -
  have b: "Begin (pgStore parse) s = (None, tx_view s)"
    using assms(2) by (simp add: pgStore_def pg_Begin_def tx_view_def down_def)
  obtain b seat evt where j: "pg_balance s (ji_UserID input) = Some b" "ji_BuyIn input \<le> b"
    "pg_balance s' = (pg_balance s)(ji_UserID input \<mapsto> b - ji_BuyIn input)" "join_seat st input = Inr seat"
    "jr_GameState r = Apply st evt"
    "evt_Event evt = Some (EvPlayerJoined (ji_UserID input) (ji_UserID input) seat (ji_BuyIn input))"
    using pg_cash.join_moves [OF assms(1) b assms(3,4,7)] by blast
  have "stack_of st (ji_UserID input) = 0" using assms(6) by (simp add: stack_of_def)
  then show ?thesis
    using j join_chips [OF assms(5) j(6)] join_seat_facts [OF j(4)] by auto
qed

text \<open>A join that fails leaves nothing behind: whatever the reason, a taken seat, too few chips, a
  number already used or a statement that fails, the committed tables are as they were.\<close>

theorem failed_join_changes_nothing:
  assumes "pg_idle s" and "JoinTable (pgStore parse) now input s = Some (Inl e, s')"
  shows "committed s' = committed s \<and> open_tx s' = None"
  using assms by (rule join_fails)

text \<open>Automatic seating takes the lowest free seat, and answers that the table is full only when
  no seat is free; a requested seat is granted exactly when it exists and is free.\<close>

theorem seat_is_lowest_free:
  "case selectSeat st req of
     Inr s \<Rightarrow> 1 \<le> s \<and> s \<le> get_cfg MaxSeats 0 (Config st) \<and> seat_free st s
       \<and> (if 0 < req then s = req else \<forall>x. 1 \<le> x \<and> x < s \<longrightarrow> \<not> seat_free st x)
   | Inl e \<Rightarrow>
       if 0 < req then get_cfg MaxSeats 0 (Config st) < req \<or> \<not> seat_free st req
       else \<forall>x. 1 \<le> x \<and> x \<le> get_cfg MaxSeats 0 (Config st) \<longrightarrow> \<not> seat_free st x"
proof (cases "selectSeat st req")
  case (Inl e)
  show ?thesis
  proof (cases "0 < req")
    case False
    then have "\<not> (\<exists>s. selectSeat st req = Inr s)" using Inl by simp
    then show ?thesis using False Inl selectSeat_full [of req st] by auto
  qed (use Inl in \<open>simp add: selectSeat_def Let_def split: if_splits\<close>)
next
  case (Inr s)
  have "0 < req \<Longrightarrow> s = req" using Inr by (simp add: selectSeat_def Let_def split: if_splits)
  then show ?thesis using selectSeat_free [OF Inr] selectSeat_lowest [OF Inr] by (simp add: Inr)
qed

text \<open>Leaving moves the stack back and makes no chips: a leave that is not a retry pays exactly the
  player's stack to the user's balance and to no other, the player is gone from the table, and
  what the table loses is what the user gains; what was bet stays in the pot.\<close>

theorem leaving_moves_chips:
  assumes "pg_idle s" and "faults s = []" and "li_CommandID input = uuid_Nil"
    and "LoadState (pgStore parse) (li_GameID input) (tx_view s) = Some (Inr (st, n))"
    and "distinct (keys (Players st))" and "findPlayerByUserID st (li_UserID input) = Some pid"
    and "player st pid = Some p" and "0 \<le> Stack p"
    and "LeaveTable (pgStore parse) now input s = Some (Inr r, s')"
  shows "\<exists>b. pg_balance s (li_UserID input) = Some b
    \<and> pg_balance s' = (pg_balance s)(li_UserID input \<mapsto> b + Stack p)
    \<and> lr_CashOutAmount r = Stack p \<and> chips (lr_GameState r) = chips st - Stack p
    \<and> player (lr_GameState r) pid = None"
proof -
  have b: "Begin (pgStore parse) s = (None, tx_view s)"
    using assms(2) by (simp add: pgStore_def pg_Begin_def tx_view_def down_def)
  show ?thesis
    using pg_cash.leave_moves [OF assms(1) b disjI1 [OF assms(3)] assms(4,6-9)]
      leave_chips [OF assms(5,7), of now input n] by auto
qed

text \<open>What the code does when the credit fails after the departure was recorded: \<open>AppendEvents\<close>
  commits the events of a leave in a transaction of its own, so when the statement that credits
  the balance fails, the call reports an error, the balance is unchanged, and the log says that
  the player left with the whole stack: those chips belong to nobody.\<close>

theorem failed_credit_loses_stack:
  assumes "pg_idle s" and "faults s = [''CreditUserBalance'']" and "li_CommandID input = uuid_Nil"
    and "LoadState (pgStore parse) (li_GameID input) (tx_view s) = Some (Inr (st, n))"
    and "findPlayerByUserID st (li_UserID input) = Some pid" and "player st pid = Some p" and "0 < Stack p"
    and "pg_AppendEvents parse (leave_events now input st n pid p) (tx_view s) = (None, s2)"
  shows "\<exists>e s' rs. LeaveTable (pgStore parse) now input s = Some (Inl e, s')
    \<and> pg_balance s' = pg_balance s
    \<and> game_events (committed s') = game_events (committed s) @ rs
    \<and> map er_envelope rs = leave_events now input st n pid p"
proof -
  let ?evs = "leave_events now input st n pid p"
  have b: "Begin (pgStore parse) s = (None, tx_view s)"
    using assms(2) by (simp add: pgStore_def pg_Begin_def tx_view_def down_def)
  obtain rs where rs: "params_of parse ?evs = Inr rs" "copy_events rs (committed s) = Inr (committed s2)"
    "faults s2 = faults s"
    using assms(8) by (auto simp: pg_AppendEvents_def tx_view_def split: if_splits sum.splits)
  have t: "committed s2 = (committed s)\<lparr>game_events := game_events (committed s) @ rs\<rparr>"
    using copy_events_Inr [OF rs(2)] by simp
  obtain e where "leave_credit (pgStore parse) input st (Stack p) ?evs s2 = (Inl e, s2)"
    using assms(2,7) rs(3) by (auto simp: leave_credit_def pgStore_def pg_CreditUserBalance_def down_def)
  then have "leave_new (pgStore parse) now input (tx_view s) = Some (Inl e, s2)"
    using assms(4-6,8) by (simp add: leave_new_def pgStore_def Let_def)
  then have "LeaveTable (pgStore parse) now input s = Some (Inl e, pg_Rollback s2)"
    using assms(3) b by (simp add: LeaveTable_def WithTx_def) (simp add: pgStore_def)
  moreover have "pg_balance (pg_Rollback s2) = pg_balance s"
    using assms(1) t by (simp add: pg_balance_def pg_Rollback_def tables_def pg_idle_def fun_eq_iff)
  moreover have "game_events (committed (pg_Rollback s2)) = game_events (committed s) @ rs"
    using t by (simp add: pg_Rollback_def)
  ultimately show ?thesis using params_of_env [OF rs(1)] by blast
qed

text \<open>What the code does with the bets of a player who leaves during a hand: the player's entry is
  deleted with what it says was committed, and the pots of a showdown are computed from the
  entries, so together they are smaller than the pot by exactly that amount. Nobody wins it.\<close>

theorem leaver_shrinks_the_pots:
  assumes "books_ok st" and "CurrentHand st = Some h" and "player st pid = Some p"
  shows "sum_list (map pot_amount (computePots (apply_PlayerLeft pid st))) = Pot h - TotalCommittedThisHand p
    \<and> CurrentHand (apply_PlayerLeft pid st) = Some h"
proof -
  let ?st = "apply_PlayerLeft pid st"
  note ok = books_pots_ok [OF assms(1,2), unfolded pots_ok_def] and hb = books_pot [OF assms(1,2)]
  have d: "distinct (keys (Players st))" using ok by simp
  have sum: "committed_sum ?st = committed_sum st - TotalCommittedThisHand p"
    using asum_delete [of "Players st" pid p TotalCommittedThisHand] assms(3) d
    by (simp add: committed_sum_def apply_PlayerLeft_def player_def)
  have sub: "set (Players ?st) \<subseteq> set (Players st)" by (auto simp: apply_PlayerLeft_def AList.delete_eq)
  have nn: "\<forall>(i, p) \<in> set (Players ?st). 0 \<le> TotalCommittedThisHand p" using ok sub by blast
  then have "0 \<le> committed_sum ?st" unfolding committed_sum_def by (intro asum_nonneg) auto
  moreover have "0 \<le> TotalCommittedThisHand p" using ok assms(3) by (auto simp: player_def dest!: map_of_SomeD)
  ultimately have "in64 (committed_sum ?st)"
    using ok sum in64_between [of "committed_sum st" "committed_sum ?st"] by simp
  moreover have "distinct (keys (Players ?st))"
    using d by (simp add: apply_PlayerLeft_def keys_def distinct_delete)
  ultimately have "pots_ok ?st" using nn by (simp add: pots_ok_def)
  then show ?thesis using computePots_sum sum hb(3) assms(2) by (simp add: apply_PlayerLeft_def)
qed

section \<open>The theorems at work\<close>

text \<open>\<open>bob\<close> sits at seat 1 with 500, \<open>ann\<close> has 1000 at home.\<close>

definition lobby_state :: GameState where
  "lobby_state = (sample_state [(''bob'', sample_player ''bob'' 1 500 0 False)] None)
     \<lparr>Config := Some rake_config, PlayerUserIds := [(''bob'', ''bob'')]\<rparr>"

definition user_balance :: "uuid \<Rightarrow> int \<Rightarrow> uuid \<times> UserSnapshot" where
  "user_balance u b = (u, \<lparr>us_UserID = u, us_ChipBalance = b, us_TotalDeposited = 0, us_TotalReports = 0,
     us_LastDepositAt = None, us_LastActivityAt = 0\<rparr>)"

definition lobby_db :: Db where
  "lobby_db = \<lparr>committed = \<lparr>game_configs = [], game_events = [],
       game_snapshots = [\<lparr>sr_game_id = ''g'', sr_sequence = 1, sr_hand_number = 0, sr_state = lobby_state\<rparr>],
       users = [], user_snapshots = [user_balance ''ann'' 1000, user_balance ''bob'' 70],
       user_daily_steps = [], step_deposit_reports = []\<rparr>,
     open_tx = None, db_now = 0, faults = []\<rparr>"

definition ann_joins :: "int \<Rightarrow> JoinTableInput" where
  "ann_joins buyIn = \<lparr>ji_CommandID = uuid_Nil, ji_GameID = ''g'', ji_UserID = ''ann'', ji_Seat = 0, ji_BuyIn = buyIn\<rparr>"

definition bob_leaves :: LeaveTableInput where
  "bob_leaves = \<lparr>li_CommandID = uuid_Nil, li_GameID = ''g'', li_UserID = ''bob''\<rparr>"

lemma lobby_loads:
  assumes "s = lobby_db\<lparr>faults := fs\<rparr>" and "''GetEventsForGame'' \<notin> set fs" and "''GetLatestSnapshot'' \<notin> set fs"
  shows "LoadState (pgStore Some) ''g'' (tx_view s) = Some (Inr (lobby_state, 1))"
proof -
  have "pg_GetLatestSnapshot ''g'' (tx_view s) = Inr (lobby_state, 1)"
    using assms by (simp add: pg_GetLatestSnapshot_def tx_view_def lobby_db_def tables_def down_def to_uint64_def)
  moreover have "pg_GetEventsForGame ''g'' n lim (tx_view s) = Inr []" for n lim
    using assms by (simp add: pg_GetEventsForGame_def rows_of_game_def tx_view_def lobby_db_def tables_def down_def)
  ultimately show ?thesis
    by (simp add: LoadState_def load_loop.simps pgStore_def del: One_nat_def)
qed

lemma lobby_loads_all: "LoadState (pgStore Some) ''g'' (tx_view lobby_db) = Some (Inr (lobby_state, 1))"
  by (rule lobby_loads [of _ "[]"]) (simp_all add: lobby_db_def)

lemma lobby_facts:
  "pg_idle lobby_db" "faults lobby_db = []" "distinct (keys (Players lobby_state))"
  "player lobby_state ''ann'' = None" "findPlayerByUserID lobby_state ''bob'' = Some ''bob''"
  "player lobby_state ''bob'' = Some (sample_player ''bob'' 1 500 0 False)"
  by code_simp+

text \<open>A successful call, evaluated from the loaded state on.\<close>

lemma joining_moves_chips_witness:
  "\<exists>r s'. JoinTable (pgStore Some) 5 ((ann_joins 300)\<lparr>ji_CommandID := ''k''\<rparr>) lobby_db = Some (Inr r, s')
    \<and> pg_balance s' ''ann'' = Some 700 \<and> chips (jr_GameState r) = 800"
proof -
  let ?in = "(ann_joins 300)\<lparr>ji_CommandID := ''k''\<rparr>"
  have c: "ji_GameID ?in = ''g''" "ji_UserID ?in = ''ann''" "ji_BuyIn ?in = 300"
    by (simp_all add: ann_joins_def)
  have new: "FindEventByCommandID (pgStore Some) ''k'' ''g'' (tx_view lobby_db) = Inl ErrNotFound" "''k'' \<noteq> uuid_Nil" by code_simp+
  let ?out = "case join_seat lobby_state ?in of Inl e \<Rightarrow> (Inl e, tx_view lobby_db)
        | Inr seat \<Rightarrow> join_debit (pgStore Some) 5 ?in lobby_state 1 seat (tx_view lobby_db)"
  have run: "join_new (pgStore Some) 5 ?in (tx_view lobby_db) = Some ?out"
    using lobby_loads_all c(1) by (simp add: join_new_def del: One_nat_def)
  have "\<not> isl (fst ?out)" "faults (snd ?out) = []" "chips lobby_state = 500"
    "pg_balance lobby_db ''ann'' = Some 1000" by code_simp+
  then obtain r s2 where out: "?out = (Inr r, s2)" "faults s2 = []" by (cases ?out; cases "fst ?out") auto
  have opens: "Begin (pgStore Some) lobby_db = (None, tx_view lobby_db)"
    using lobby_facts(2) by (simp add: pgStore_def pg_Begin_def tx_view_def down_def)
  have commit: "Commit (pgStore Some) s2 = (None, snd (pg_Commit s2))"
    using out(2) by (simp add: pgStore_def pg_Commit_def down_def)
  have "JoinTable (pgStore Some) 5 ?in lobby_db = Some (Inr r, snd (pg_Commit s2))"
    using run out(1) opens commit new by (simp add: JoinTable_def WithTx_def c(1) errors_Is_def)
  moreover from joining_moves_chips [OF lobby_facts(1,2) _ _ lobby_facts(3) _ this] c new lobby_loads_all lobby_facts(4)
  have "pg_balance (snd (pg_Commit s2)) ''ann'' = Some 700" "chips (jr_GameState r) = 800"
    using \<open>chips lobby_state = 500\<close> \<open>pg_balance lobby_db ''ann'' = Some 1000\<close> by auto
  ultimately show ?thesis by blast
qed

lemma failed_join_changes_nothing_witness:
  "\<exists>e s'. JoinTable (pgStore Some) 5 (ann_joins 1001) lobby_db = Some (Inl e, s') \<and> committed s' = committed lobby_db"
proof -
  have c: "ji_CommandID (ann_joins 1001) = uuid_Nil" "ji_GameID (ann_joins 1001) = ''g''"
    by (simp_all add: ann_joins_def)
  let ?out = "case join_seat lobby_state (ann_joins 1001) of Inl e \<Rightarrow> (Inl e, tx_view lobby_db)
        | Inr seat \<Rightarrow> join_debit (pgStore Some) 5 (ann_joins 1001) lobby_state 1 seat (tx_view lobby_db)"
  have "fst ?out = Inl ErrInsufficientFunds" by code_simp
  then obtain s2 where out: "?out = (Inl ErrInsufficientFunds, s2)" by (cases ?out) auto
  have "join_new (pgStore Some) 5 (ann_joins 1001) (tx_view lobby_db) = Some ?out"
    using lobby_loads_all c(2) by (simp add: join_new_def del: One_nat_def)
  then have "JoinTable (pgStore Some) 5 (ann_joins 1001) lobby_db = Some (Inl ErrInsufficientFunds, pg_Rollback s2)"
    using out c(1) lobby_facts(2)
    by (simp add: JoinTable_def WithTx_def) (simp add: pgStore_def pg_Begin_def down_def tx_view_def)
  from this failed_join_changes_nothing [OF lobby_facts(1) this] show ?thesis by blast
qed

lemma seat_is_lowest_free_witness: "selectSeat lobby_state 0 = Inr 2 \<and> \<not> seat_free lobby_state 1"
proof -
  have "selectSeat lobby_state 0 = Inr 2" by code_simp
  then show ?thesis using seat_is_lowest_free [where st = lobby_state and req = 0] by auto
qed

lemma bob_events:
  "leave_events 5 bob_leaves lobby_state 1 ''bob'' (sample_player ''bob'' 1 500 0 False)
    = [BuildPlayerLeftEvent 5 ''g'' 2 uuid_Nil ''bob'' 500 2]"
  by code_simp

lemma leaving_moves_chips_witness:
  "\<exists>r s'. LeaveTable (pgStore Some) 5 bob_leaves lobby_db = Some (Inr r, s')
    \<and> pg_balance s' ''bob'' = Some 570 \<and> chips (lr_GameState r) = 0"
proof -
  have c: "li_CommandID bob_leaves = uuid_Nil" "li_GameID bob_leaves = ''g''" "li_UserID bob_leaves = ''bob''"
    by (simp_all add: bob_leaves_def)
  let ?p = "sample_player ''bob'' 1 500 0 False"
  let ?evs = "leave_events 5 bob_leaves lobby_state 1 ''bob'' ?p"
  let ?a = "pg_AppendEvents Some ?evs (tx_view lobby_db)"
  let ?out = "leave_credit (pgStore Some) bob_leaves lobby_state 500 ?evs (snd ?a)"
  have f: "fst ?a = None" "\<not> isl (fst ?out)" "faults (snd ?out) = []" "chips lobby_state = 500"
    "pg_balance lobby_db ''bob'' = Some 70" "Stack ?p = 500" by code_simp+
  then obtain s1 r s2 where out: "?a = (None, s1)" "?out = (Inr r, s2)" "faults s2 = []"
    by (cases ?a; cases ?out; cases "fst ?out") auto
  have "leave_new (pgStore Some) 5 bob_leaves (tx_view lobby_db) = Some (Inr r, s2)"
    using lobby_loads_all c lobby_facts(5,6) out(1,2) f(6) by (simp add: leave_new_def Let_def) (simp add: pgStore_def)
  then have run: "LeaveTable (pgStore Some) 5 bob_leaves lobby_db = Some (Inr r, snd (pg_Commit s2))"
    using out(3) c(1) lobby_facts(2)
    by (simp add: LeaveTable_def WithTx_def) (simp add: pgStore_def pg_Begin_def pg_Commit_def down_def tx_view_def)
  from leaving_moves_chips [OF lobby_facts(1,2) c(1) _ lobby_facts(3) _ lobby_facts(6) _ this] c lobby_loads_all lobby_facts(5) f(4-6)
  have "pg_balance (snd (pg_Commit s2)) ''bob'' = Some 570" "chips (lr_GameState r) = 0" by auto
  then show ?thesis using run by blast
qed

lemma failed_credit_loses_stack_witness:
  "\<exists>e s' rs. LeaveTable (pgStore Some) 5 bob_leaves (lobby_db\<lparr>faults := [''CreditUserBalance'']\<rparr>) = Some (Inl e, s')
    \<and> pg_balance s' ''bob'' = Some 70
    \<and> map er_envelope rs = [BuildPlayerLeftEvent 5 ''g'' 2 uuid_Nil ''bob'' 500 2]
    \<and> game_events (committed s') = rs"
proof -
  let ?s = "lobby_db\<lparr>faults := [''CreditUserBalance'']\<rparr>" and ?p = "sample_player ''bob'' 1 500 0 False"
  have c: "li_CommandID bob_leaves = uuid_Nil" "li_GameID bob_leaves = ''g''" "li_UserID bob_leaves = ''bob''"
    by (simp_all add: bob_leaves_def)
  have f: "fst (pg_AppendEvents Some (leave_events 5 bob_leaves lobby_state 1 ''bob'' ?p) (tx_view ?s)) = None"
    "pg_balance ?s ''bob'' = Some 70" "Stack ?p = 500" by code_simp+
  then obtain s2 where a: "pg_AppendEvents Some (leave_events 5 bob_leaves lobby_state 1 ''bob'' ?p) (tx_view ?s) = (None, s2)"
    by (cases "pg_AppendEvents Some (leave_events 5 bob_leaves lobby_state 1 ''bob'' ?p) (tx_view ?s)") auto
  have i: "pg_idle ?s" "faults ?s = [''CreditUserBalance'']" "game_events (committed ?s) = []"
    by (simp_all add: pg_idle_def lobby_db_def)
  have l: "LoadState (pgStore Some) (li_GameID bob_leaves) (tx_view ?s) = Some (Inr (lobby_state, 1))"
    unfolding c(2) by (rule lobby_loads [of _ "[''CreditUserBalance'']"]) simp_all
  have b: "findPlayerByUserID lobby_state (li_UserID bob_leaves) = Some ''bob''" using c(3) lobby_facts(5) by simp
  have "0 < Stack ?p" by (simp add: f(3))
  from failed_credit_loses_stack [OF i(1,2) c(1) l b lobby_facts(6) this a] show ?thesis
    unfolding i(3) bob_events using f(2) by auto
qed

lemma leaver_shrinks_the_pots_witness:
  "sum_list (map pot_amount (computePots (apply_PlayerLeft ''b'' flop_state))) = 240"
proof -
  have "player flop_state ''b'' = Some (flop_player ''b'' 2 360 40 140)" by code_simp
  then show ?thesis
    using leaver_shrinks_the_pots [OF flop_facts(3,1)] by (simp add: flop_player_def flop_hand_def)
qed
end
