(* ===== verification/Actor.thy ===== *)
theory Actor
  imports Session Lobby
begin

text \<open>
  The concurrency of \<open>src/internal/engine/session.go\<close>: calls of \<open>Submit\<close> put an envelope into the buffered
  channel \<open>inbox\<close> and wait for the reply; one goroutine takes the envelopes out, one at a time, until its
  context is cancelled or the idle timer fires. The steps of all of them interleave freely; where a
  \<open>select\<close> has several cases ready, each may be taken. Other parts of the program write to the store in
  between, as \<open>others\<close> allows. Reaping is that of \<open>router.go\<close>.
\<close>

section \<open>Steps\<close>

record SessionOptions =
  InboxSize :: nat
  IdleAfter :: int

text \<open>\<open>IdleAfter\<close> is in seconds.\<close>

definition withDefaults :: "SessionOptions \<Rightarrow> SessionOptions" where
  "withDefaults o1 =
     (let o2 = (if InboxSize o1 = 0 then o1\<lparr>InboxSize := 64\<rparr> else o1)
      in if IdleAfter o2 = 0 then o2\<lparr>IdleAfter := 600\<rparr> else o2)"

text \<open>The channel of the reply is the number of the call that made it.\<close>

record envelope =
  env_cmd :: PlayerCommand
  env_actor :: string
  env_reply :: nat

record ('s, 'd) Actor =
  ac_world :: "('s, 'd) World"
  ac_inbox :: "envelope list"
  ac_closed :: bool
  ac_calls :: nat
  ac_waiting :: "nat list"
  ac_replies :: "(nat \<times> (go_err + GameEvent list)) list"

definition NewSession :: "('s, 'd) World \<Rightarrow> ('s, 'd) Actor" where
  "NewSession w = \<lparr>ac_world = w, ac_inbox = [], ac_closed = False, ac_calls = 0, ac_waiting = [], ac_replies = []\<rparr>"

text \<open>What \<open>Submit\<close> returns: the result of the command, or one of its own errors.\<close>

datatype answer = Result "go_err + GameEvent list" | SessionClosed | InboxFull | CtxDone

datatype action =
    Sent envelope
  | Ran envelope "go_err + GameEvent list"
  | Fired
  | Wrote
  | Stopped
  | Answered nat answer

definition put :: "envelope \<Rightarrow> ('s, 'd) Actor \<Rightarrow> ('s, 'd) Actor" where
  \<comment> \<open>\<open>s.inbox <- env\<close>\<close>
  "put env a = a\<lparr>ac_inbox := ac_inbox a @ [env], ac_calls := Suc (ac_calls a), ac_waiting := ac_calls a # ac_waiting a\<rparr>"

definition took :: "envelope list \<Rightarrow> ('s, 'd) World \<Rightarrow> nat \<times> (go_err + GameEvent list) \<Rightarrow> ('s, 'd) Actor \<Rightarrow> ('s, 'd) Actor" where
  \<comment> \<open>an envelope is gone from the channel, its command is processed and the result sent\<close>
  "took rest w r a = a\<lparr>ac_inbox := rest, ac_world := w, ac_replies := r # ac_replies a\<rparr>"

definition returned :: "nat \<Rightarrow> ('s, 'd) Actor \<Rightarrow> ('s, 'd) Actor" where
  "returned t a = a\<lparr>ac_waiting := remove1 t (ac_waiting a)\<rparr>"

definition refused :: "('s, 'd) Actor \<Rightarrow> ('s, 'd) Actor" where
  "refused a = a\<lparr>ac_calls := Suc (ac_calls a)\<rparr>"

text \<open>\<open>n\<close> is the size of the inbox. The first four rules are the first \<open>select\<close> of \<open>Submit\<close>, the next
  four the loop \<open>run\<close>, the last three the second \<open>select\<close> of \<open>Submit\<close>.\<close>

inductive actor_step ::
  "'s Store \<Rightarrow> (string \<Rightarrow> uuid option) \<Rightarrow> (int \<Rightarrow> string) \<Rightarrow> 'd Dealer \<Rightarrow> uuid \<Rightarrow> nat \<Rightarrow> ('s \<Rightarrow> 's \<Rightarrow> bool)
     \<Rightarrow> ('s, 'd) Actor \<Rightarrow> action \<Rightarrow> ('s, 'd) Actor \<Rightarrow> bool"
  for S parse uuid_New dlr g n others where
  send: "length (ac_inbox a) < n \<Longrightarrow> env_reply env = ac_calls a
    \<Longrightarrow> actor_step S parse uuid_New dlr g n others a (Sent env) (put env a)"
| refuse_closed: "ac_closed a
    \<Longrightarrow> actor_step S parse uuid_New dlr g n others a (Answered (ac_calls a) SessionClosed) (refused a)"
| refuse_full: "n \<le> length (ac_inbox a) \<Longrightarrow> \<not> ac_closed a
    \<Longrightarrow> actor_step S parse uuid_New dlr g n others a (Answered (ac_calls a) InboxFull) (refused a)"
| refuse_ctx: "actor_step S parse uuid_New dlr g n others a (Answered (ac_calls a) CtxDone) (refused a)"
| receive: "\<not> ac_closed a \<Longrightarrow> ac_inbox a = env # rest
    \<Longrightarrow> out = process S parse uuid_New dlr g now (w_state (ac_world a)) (env_actor env) (env_cmd env)
          (w_store (ac_world a)) (w_dealer (ac_world a))
    \<Longrightarrow> actor_step S parse uuid_New dlr g n others a (Ran env (fst out))
          (took rest (finish now (w_state (ac_world a)) out) (env_reply env, fst out) a)"
| fire: "\<not> ac_closed a \<Longrightarrow> w_timer (ac_world a) = Some t \<Longrightarrow> t \<le> now
    \<Longrightarrow> out = runProactiveAdvance S uuid_New dlr g now (w_state (ac_world a)) (w_store (ac_world a)) (w_dealer (ac_world a))
    \<Longrightarrow> actor_step S parse uuid_New dlr g n others a Fired (a\<lparr>ac_world := finish now (w_state (ac_world a)) out\<rparr>)"
| stop: "\<not> ac_closed a \<Longrightarrow> actor_step S parse uuid_New dlr g n others a Stopped (a\<lparr>ac_closed := True\<rparr>)"
| elsewhere: "others (w_store (ac_world a)) s
    \<Longrightarrow> actor_step S parse uuid_New dlr g n others a Wrote (a\<lparr>ac_world := (ac_world a)\<lparr>w_store := s\<rparr>\<rparr>)"
| reply: "t \<in> set (ac_waiting a) \<Longrightarrow> (t, r) \<in> set (ac_replies a)
    \<Longrightarrow> actor_step S parse uuid_New dlr g n others a (Answered t (Result r)) (returned t a)"
| give_up_closed: "t \<in> set (ac_waiting a) \<Longrightarrow> ac_closed a
    \<Longrightarrow> actor_step S parse uuid_New dlr g n others a (Answered t SessionClosed) (returned t a)"
| give_up_ctx: "t \<in> set (ac_waiting a)
    \<Longrightarrow> actor_step S parse uuid_New dlr g n others a (Answered t CtxDone) (returned t a)"

text \<open>A history is a list of steps; the last one comes last.\<close>

inductive actor_run ::
  "'s Store \<Rightarrow> (string \<Rightarrow> uuid option) \<Rightarrow> (int \<Rightarrow> string) \<Rightarrow> 'd Dealer \<Rightarrow> uuid \<Rightarrow> nat \<Rightarrow> ('s \<Rightarrow> 's \<Rightarrow> bool)
     \<Rightarrow> ('s, 'd) Actor \<Rightarrow> action list \<Rightarrow> ('s, 'd) Actor \<Rightarrow> bool"
  for S parse uuid_New dlr g n others a where
  nothing: "actor_run S parse uuid_New dlr g n others a [] a"
| further: "actor_run S parse uuid_New dlr g n others a ls b \<Longrightarrow> actor_step S parse uuid_New dlr g n others b l c
    \<Longrightarrow> actor_run S parse uuid_New dlr g n others a (ls @ [l]) c"

text \<open>\<open>reapOnce\<close> of the router: sessions that have stopped leave the map.\<close>

definition reapOnce :: "(uuid \<times> ('s, 'd) Actor) list \<Rightarrow> (uuid \<times> ('s, 'd) Actor) list" where
  "reapOnce sessions = filter (\<lambda>(g, a). \<not> ac_closed a) sessions"

text \<open>\<open>Close\<close> empties the map and waits until every session has stopped.\<close>

definition Router_Close ::
  "(uuid \<times> ('s, 'd) Actor) list \<Rightarrow> (uuid \<times> ('s, 'd) Actor) list \<times> ('s, 'd) Actor list" where
  "Router_Close sessions = ([], map (\<lambda>(g, a). a\<lparr>ac_closed := True\<rparr>) sessions)"

section \<open>Views of a history\<close>

definition sent :: "action list \<Rightarrow> envelope list" where
  "sent ls = concat (map (\<lambda>l. case l of Sent env \<Rightarrow> [env] | _ \<Rightarrow> []) ls)"

definition ran :: "action list \<Rightarrow> (envelope \<times> (go_err + GameEvent list)) list" where
  "ran ls = concat (map (\<lambda>l. case l of Ran env r \<Rightarrow> [(env, r)] | _ \<Rightarrow> []) ls)"

definition answered :: "action list \<Rightarrow> (nat \<times> answer) list" where
  "answered ls = concat (map (\<lambda>l. case l of Answered t r \<Rightarrow> [(t, r)] | _ \<Rightarrow> []) ls)"

lemma view_simps [simp]:
  "sent [] = []" "ran [] = []" "answered [] = []"
  "sent (ls @ [l]) = sent ls @ (case l of Sent env \<Rightarrow> [env] | _ \<Rightarrow> [])"
  "ran (ls @ [l]) = ran ls @ (case l of Ran env r \<Rightarrow> [(env, r)] | _ \<Rightarrow> [])"
  "answered (ls @ [l]) = answered ls @ (case l of Answered t r \<Rightarrow> [(t, r)] | _ \<Rightarrow> [])"
  by (simp_all add: sent_def ran_def answered_def)

section \<open>Calls and answers\<close>

text \<open>The commands are taken in the order in which they were sent, each once.\<close>

definition inbox_ok :: "nat \<Rightarrow> action list \<Rightarrow> ('s, 'd) Actor \<Rightarrow> bool" where
  "inbox_ok n ls a \<longleftrightarrow> length (ac_inbox a) \<le> n \<and> sent ls = map fst (ran ls) @ ac_inbox a
     \<and> distinct (map env_reply (sent ls)) \<and> env_reply ` set (sent ls) \<subseteq> {..<ac_calls a}"

text \<open>The calls made so far are \<open>0..<k\<close>; each was refused, is waiting or has its answer.\<close>

definition answers_ok :: "action list \<Rightarrow> ('s, 'd) Actor \<Rightarrow> bool" where
  "answers_ok ls a \<longleftrightarrow> distinct (map fst (answered ls) @ ac_waiting a)
     \<and> set (map fst (answered ls) @ ac_waiting a) = {..<ac_calls a}"

text \<open>Results that were sent, and results that a caller got.\<close>

definition results :: "action list \<Rightarrow> (nat \<times> (go_err + GameEvent list)) list" where
  "results ls = map (\<lambda>(env, r). (env_reply env, r)) (ran ls)"

definition got :: "action list \<Rightarrow> (nat \<times> (go_err + GameEvent list)) list" where
  "got ls = concat (map (\<lambda>(t, x). case x of Result r \<Rightarrow> [(t, r)] | _ \<Rightarrow> []) (answered ls))"

lemma results_simps [simp]:
  "results [] = []" "got [] = []"
  "results (ls @ [l]) = results ls @ (case l of Ran env r \<Rightarrow> [(env_reply env, r)] | _ \<Rightarrow> [])"
  "got (ls @ [l]) = got ls @ (case l of Answered t (Result r) \<Rightarrow> [(t, r)] | _ \<Rightarrow> [])"
  by (simp_all add: results_def got_def split: action.split answer.split)

definition replies_ok :: "action list \<Rightarrow> ('s, 'd) Actor \<Rightarrow> bool" where
  "replies_ok ls a \<longleftrightarrow> set (ac_replies a) \<subseteq> set (results ls) \<and> set (got ls) \<subseteq> set (results ls)"

lemmas actor_parts = put_def took_def returned_def refused_def

lemma inbox_same:
  assumes "inbox_ok n ls a" and "sent ls' = sent ls" and "map fst (ran ls') @ ac_inbox b = map fst (ran ls) @ ac_inbox a"
    and "length (ac_inbox b) \<le> length (ac_inbox a)" and "ac_calls a \<le> ac_calls b"
  shows "inbox_ok n ls' b"
proof -
  have "env_reply ` set (sent ls) \<subseteq> {..<ac_calls b}" using assms(1,5) unfolding inbox_ok_def by (meson lessThan_subset_iff subset_trans)
  then show ?thesis using assms(1,4) unfolding inbox_ok_def assms(2,3) by (meson le_trans)
qed

lemma inbox_step:
  assumes "actor_step S parse uuid_New dlr g n others a l b" and "inbox_ok n ls a"
  shows "inbox_ok n (ls @ [l]) b"
  using assms(1)
proof cases
  case (send env)
  have i: "sent ls = map fst (ran ls) @ ac_inbox a" "distinct (map env_reply (sent ls))"
    "env_reply ` set (sent ls) \<subseteq> {..<ac_calls a}"
    using assms(2) unfolding inbox_ok_def by blast+
  have "{..<ac_calls a} \<subseteq> {..<Suc (ac_calls a)}" by auto
  with i(3) have "env_reply ` set (sent ls) \<subseteq> {..<Suc (ac_calls a)}" by (rule subset_trans)
  moreover have "env_reply env \<notin> env_reply ` set (sent ls)" using send(4) subsetD [OF i(3)] by fastforce
  ultimately have "distinct (map env_reply (sent ls @ [env]))" "env_reply ` set (sent ls @ [env]) \<subseteq> {..<Suc (ac_calls a)}"
    using i(2) send(4) by simp_all
  then show ?thesis using send(1-3) i(1) by (simp only: inbox_ok_def view_simps action.case actor_parts) simp
qed (rule inbox_same [OF assms(2)]; simp add: actor_parts)+

lemma answers_step:
  assumes "actor_step S parse uuid_New dlr g n others a l b" and "answers_ok ls a"
  shows "answers_ok (ls @ [l]) b"
proof -
  have gone: "distinct (xs @ ys) \<Longrightarrow> t \<in> set ys \<Longrightarrow> distinct (xs @ t # remove1 t ys)
      \<and> set (xs @ t # remove1 t ys) = set (xs @ ys)" for xs ys and t :: nat
    by (auto simp: set_remove1_eq)
  from assms(1) show ?thesis
  proof cases
    case (reply t r)
    then show ?thesis using assms(2) gone [of "map fst (answered ls)" "ac_waiting a" t] by (simp add: answers_ok_def actor_parts)
  next
    case (give_up_closed t)
    then show ?thesis using assms(2) gone [of "map fst (answered ls)" "ac_waiting a" t] by (simp add: answers_ok_def actor_parts)
  next
    case (give_up_ctx t)
    then show ?thesis using assms(2) gone [of "map fst (answered ls)" "ac_waiting a" t] by (simp add: answers_ok_def actor_parts)
  qed (use assms(2) in \<open>auto simp: answers_ok_def actor_parts lessThan_Suc\<close>)
qed

lemma replies_step:
  assumes "actor_step S parse uuid_New dlr g n others a l b" and "replies_ok ls a"
  shows "replies_ok (ls @ [l]) b"
  using assms(1) by cases (use assms(2) in \<open>auto simp: replies_ok_def actor_parts\<close>)

lemma run_ok:
  assumes "actor_run S parse uuid_New dlr g n others (NewSession w) ls a"
  shows "inbox_ok n ls a \<and> answers_ok ls a \<and> replies_ok ls a"
  using assms
proof induction
  case nothing
  then show ?case by (simp add: inbox_ok_def answers_ok_def replies_ok_def NewSession_def)
next
  case (further ls b l c)
  then show ?case using inbox_step [OF further(2)] answers_step [OF further(2)] replies_step [OF further(2)] by blast
qed

text \<open>C23. The inbox serialises the callers: whatever their calls, the loop, its timers and the end of the
  session do in between, the commands are processed in the order in which they were sent, each at most
  once, and those not yet processed are the inbox, which never holds more than its size. Every call
  is refused, waiting or answered, never answered twice, and a caller that gets a result gets that of
  processing its own command.\<close>

theorem calls_in_order:
  assumes "actor_run S parse uuid_New dlr g n others (NewSession w) ls a"
  shows "sent ls = map fst (ran ls) @ ac_inbox a \<and> length (ac_inbox a) \<le> n
    \<and> distinct (map env_reply (sent ls))
    \<and> distinct (map fst (answered ls)) \<and> set (map fst (answered ls)) \<union> set (ac_waiting a) = {..<ac_calls a}
    \<and> (\<forall>(t, r) \<in> set (got ls). \<exists>env. (env, r) \<in> set (ran ls) \<and> env_reply env = t)"
proof -
  note ok = run_ok [OF assms]
  have "distinct (map fst (answered ls))" "set (map fst (answered ls)) \<union> set (ac_waiting a) = {..<ac_calls a}"
    using ok by (simp_all add: answers_ok_def)
  moreover have "\<forall>(t, r) \<in> set (got ls). \<exists>env. (env, r) \<in> set (ran ls) \<and> env_reply env = t"
    using ok by (auto simp: replies_ok_def results_def)
  ultimately show ?thesis using ok unfolding inbox_ok_def by blast
qed

section \<open>What is answered is stored\<close>

lemma append_keeps_log:
  assumes "pg_AppendEvents parse evs s = (None, s')"
  shows "set (pg_log s g) \<union> {e \<in> set evs. parse (evt_GameId e) = Some g} \<subseteq> set (pg_log s' g)"
proof -
  obtain rs t where rs: "params_of parse evs = Inr rs" "copy_events rs (committed s) = Inr t"
    and s': "s' = s\<lparr>committed := t, open_tx := map_option (\<lambda>v. v\<lparr>game_events := game_events v @ rs\<rparr>) (open_tx s)\<rparr>"
    using assms by (auto simp: pg_AppendEvents_def split: if_splits sum.splits)
  have ev: "game_events (tables s') = game_events (tables s) @ rs"
    using copy_events_Inr [OF rs(2)] by (simp add: s' tables_def split: option.split)
  have "e \<in> er_envelope ` {r \<in> set rs. er_game_id r = g}" if "e \<in> set evs" "parse (evt_GameId e) = Some g" for e
    using rs(1) that
  proof (induction evs arbitrary: rs)
    case (Cons x evs)
    obtain r rs' where r: "eventToParams parse x = Inr r" "params_of parse evs = Inr rs'" "rs = r # rs'"
      using Cons.prems(1) by (auto split: sum.splits)
    then have "er_envelope r = x" "er_game_id r = the (parse (evt_GameId x))"
      by (auto simp: eventToParams_def Let_def split: option.splits if_splits)
    then show ?case using Cons.IH [OF r(2)] Cons.prems(2,3) r(3) by (auto simp: image_iff)
  qed simp
  then show ?thesis by (auto simp: pg_log_def rows_set ev)
qed

lemma stamp_game: "e \<in> set (stamp_from g now sq evs) \<Longrightarrow> evt_GameId e = g"
  by (induction g now sq evs rule: stamp_from.induct) (auto simp: Let_def)

lemma persist_stores:
  assumes "persist (pgStore parse) g now what events s = (r, s')" and "parse g = Some g"
  shows "set (pg_log s g) \<subseteq> set (pg_log s' g) \<and> (\<forall>evs. r = Inr evs \<longrightarrow> set evs \<subseteq> set (pg_log s' g))"
proof (cases r)
  case (Inl e)
  then show ?thesis using pg.persist_failed assms(1) by fastforce
next
  case (Inr evs)
  have a: "pg_AppendEvents parse evs s = (None, s')" and "stampEvents (pgStore parse) g now events s = Inr evs"
    using assms(1) Inr by (auto simp: persist_def pgStore_def split: sum.splits prod.splits option.splits)
  then have "\<forall>e \<in> set evs. evt_GameId e = g"
    using stamp_game by (auto simp: stampEvents_def split: if_splits sum.splits)
  then show ?thesis using append_keeps_log [OF a, of g] Inr assms(2) by auto
qed

lemma process_stores:
  assumes "process (pgStore parse) parse uuid_New dlr g now st actor cmd s d = (r, s', d')" and "parse g = Some g"
  shows "set (pg_log s g) \<subseteq> set (pg_log s' g) \<and> (\<forall>evs. r = Inr evs \<longrightarrow> set evs \<subseteq> set (pg_log s' g))"
proof (cases "already_seen (pgStore parse) parse g cmd s")
  case None
  then show ?thesis using pg.process_persists [OF assms(1)] persist_stores assms(2) by fastforce
next
  case (Some existing)
  have r: "r = Inr existing" "s' = s" using assms(1) Some by (simp_all add: process_def)
  obtain cid evt where "existing = [evt]" "pg_FindEventByCommandID cid g s = Inr evt"
    using Some by (auto simp: already_seen_def lookupByCommandID_def pgStore_def split: if_splits sum.splits option.splits)
  moreover have "evt \<in> set (pg_log s g)"
    using calculation(2) by (auto simp: pg_FindEventByCommandID_def pg_log_def filter_eq_Cons_iff split: if_splits list.splits)
  ultimately show ?thesis using r by simp
qed

lemma advance_stores:
  assumes "runProactiveAdvance (pgStore parse) uuid_New dlr g now st s d = (r, s', d')" and "parse g = Some g"
  shows "set (pg_log s g) \<subseteq> set (pg_log s' g)"
  using pg.advance_persists [OF assms(1)] persist_stores assms(2) by fastforce

lemma finish_store [simp]: "w_store (finish now st out) = fst (snd out)"
  by (simp add: finish_def Let_def split_beta)

lemma log_grows:
  assumes "actor_step (pgStore parse) parse uuid_New dlr g n others a l b" and "parse g = Some g"
    and "\<And>s s'. others s s' \<Longrightarrow> set (pg_log s g) \<subseteq> set (pg_log s' g)"
  shows "set (pg_log (w_store (ac_world a)) g) \<subseteq> set (pg_log (w_store (ac_world b)) g)
    \<and> (\<forall>env evs. l = Ran env (Inr evs) \<longrightarrow> set evs \<subseteq> set (pg_log (w_store (ac_world b)) g))"
  using assms(1)
proof cases
  case (receive env rest out now)
  obtain r s' d' where out: "out = (r, s', d')" by (cases out)
  then show ?thesis using process_stores [OF receive(5) [symmetric, unfolded out] assms(2)] receive(1,2)
    by (simp add: actor_parts)
next
  case (fire t now out)
  obtain r s' d' where out: "out = (r, s', d')" by (cases out)
  then show ?thesis using advance_stores [OF fire(6) [symmetric, unfolded out] assms(2)] fire(1,2) by simp
qed (use assms(3) in \<open>auto simp: actor_parts\<close>)

text \<open>C7. What a caller is told has happened is in the log: every event that a call of \<open>Submit\<close> was answered
  with is stored in the log of the game, then and ever after, whatever other callers, timers and the
  end of the session do, as long as the others that write to the store take nothing away from it.\<close>

theorem acknowledged_is_stored:
  assumes "actor_run (pgStore parse) parse uuid_New dlr g n others (NewSession w) ls a" and "parse g = Some g"
    and "\<And>s s'. others s s' \<Longrightarrow> set (pg_log s g) \<subseteq> set (pg_log s' g)"
    and "(t, Inr evs) \<in> set (got ls)"
  shows "set evs \<subseteq> set (pg_log (w_store (ac_world a)) g)"
proof -
  have "\<forall>env es. (env, Inr es) \<in> set (ran ls) \<longrightarrow> set es \<subseteq> set (pg_log (w_store (ac_world a)) g)"
    using assms(1)
  proof induction
    case (further ls b l c)
    have "set (pg_log (w_store (ac_world b)) g) \<subseteq> set (pg_log (w_store (ac_world c)) g)"
      "\<forall>env es. l = Ran env (Inr es) \<longrightarrow> set es \<subseteq> set (pg_log (w_store (ac_world c)) g)"
      using log_grows [OF further(2) assms(2,3)] by blast+
    then show ?case using further(3) by (fastforce split: action.split_asm)
  qed simp
  moreover have "(t, Inr evs) \<in> set (results ls)" using run_ok [OF assms(1)] assms(4) by (auto simp: replies_ok_def)
  ultimately show ?thesis by (auto simp: results_def)
qed

section \<open>A session that has stopped\<close>

lemma stopped_step:
  assumes "actor_step S parse uuid_New dlr g n others a l b" and "ac_closed a"
  shows "ac_closed b \<and> ran [l] = [] \<and> w_state (ac_world b) = w_state (ac_world a)
    \<and> w_dealer (ac_world b) = w_dealer (ac_world a) \<and> ac_replies b = ac_replies a \<and> ac_calls a \<le> ac_calls b"
  using assms by cases (auto simp: actor_parts ran_def)

lemma stopped_run:
  assumes "actor_run S parse uuid_New dlr g n others a ms b" and "ac_closed a"
    and "\<forall>(t, r) \<in> set (ac_replies a). t < k"
  shows "ac_closed b \<and> ran ms = [] \<and> w_state (ac_world b) = w_state (ac_world a)
    \<and> ac_replies b = ac_replies a
    \<and> (\<forall>(t, x) \<in> set (answered ms). k \<le> t \<longrightarrow> x = SessionClosed \<or> x = CtxDone)"
  using assms(1)
proof induction
  case (further ms b l c)
  have b: "ac_closed b" "ac_replies b = ac_replies a" using further(3) by blast+
  have "case l of Answered t x \<Rightarrow> k \<le> t \<longrightarrow> x = SessionClosed \<or> x = CtxDone | _ \<Rightarrow> True"
    using further(2) by cases (use b assms(3) in auto)
  then show ?case using stopped_step [OF further(2) b(1)] further(3) by (auto simp: ran_def split: action.split_asm)
qed (simp add: assms(2))

text \<open>The sessions as the map of the router in \<open>Session\<close> has them.\<close>

definition in_memory :: "(uuid \<times> ('s, 'd) Actor) list \<Rightarrow> (uuid \<times> GameState \<times> 'd) list" where
  "in_memory = map (\<lambda>(g, a). (g, w_state (ac_world a), w_dealer (ac_world a)))"

lemma map_of_in_memory: "map_of (in_memory sessions) g = map_option (\<lambda>a. (w_state (ac_world a), w_dealer (ac_world a))) (map_of sessions g)"
  by (induction sessions) (auto simp: in_memory_def)

text \<open>C27. What the code does with a session that has stopped, because nobody played for a while: it
  processes nothing any more, every later call is refused with \<open>ErrSessionClosed\<close> (or its caller gave
  up), and nobody who waits is left without an answer. The router, which looks only at its map, goes on
  to hand out the stopped session and loads nothing, until the reaper has come by.\<close>

theorem stopped_session_refuses:
  assumes "actor_run S parse uuid_New dlr g n others (NewSession w) ls a" and "ac_closed a"
    and "actor_run S parse uuid_New dlr g n others a ms b"
    and "map_of sessions g = Some b" and "distinct (keys sessions)"
  shows "ran ms = [] \<and> w_state (ac_world b) = w_state (ac_world a)
    \<and> (\<forall>(t, x) \<in> set (answered ms). ac_calls a \<le> t \<longrightarrow> x = SessionClosed \<or> x = CtxDone)
    \<and> (\<forall>t \<in> set (ac_waiting b). \<exists>c. actor_step S parse uuid_New dlr g n others b (Answered t SessionClosed) c)
    \<and> getOrLoad S' newDealer g s (in_memory sessions)
      = Some (Inr (w_state (ac_world b), w_dealer (ac_world b)), in_memory sessions)
    \<and> map_of (reapOnce sessions) g = None"
proof -
  have ok: "set (ac_replies a) \<subseteq> set (results ls)" "env_reply ` set (sent ls) \<subseteq> {..<ac_calls a}"
    "sent ls = map fst (ran ls) @ ac_inbox a"
    using run_ok [OF assms(1)] unfolding replies_ok_def inbox_ok_def by blast+
  have "\<forall>(t, r) \<in> set (ac_replies a). t < ac_calls a"
  proof (clarify)
    fix t r assume "(t, r) \<in> set (ac_replies a)"
    then obtain env where "(env, r) \<in> set (ran ls)" "env_reply env = t" using ok(1) by (auto simp: results_def)
    then have "t \<in> env_reply ` set (sent ls)" unfolding ok(3) by force
    then show "t < ac_calls a" using ok(2) by blast
  qed
  note stopped = stopped_run [OF assms(3,2) this]
  have "map_of (reapOnce sessions) g = None"
    using assms(4,5) stopped
    by (auto simp: reapOnce_def map_of_eq_None_iff keys_def dest!: map_of_SomeD dest: eq_key_imp_eq_value)
  moreover have "\<forall>t \<in> set (ac_waiting b). \<exists>c. actor_step S parse uuid_New dlr g n others b (Answered t SessionClosed) c"
    using stopped actor_step.give_up_closed by blast
  ultimately show ?thesis using stopped assms(4) by (simp add: getOrLoad_def map_of_in_memory)
qed

section \<open>The theorems at work\<close>

text \<open>The call of \<open>a\<close> on the flop, through the inbox.\<close>

definition flop_env :: envelope where
  "flop_env = \<lparr>env_cmd = command_of (CmdCall 40), env_actor = ''a'', env_reply = 0\<rparr>"

definition flop_history :: "action list" where
  "flop_history = [Sent flop_env, Ran flop_env (fst flop_call), Answered 0 (Result (fst flop_call))]"

lemma flop_actor:
  "\<exists>a. actor_run (pgStore Some) Some (\<lambda>_. ''u'') FixedDealer ''g'' 64 (\<lambda>_ _. False) (NewSession flop_world) flop_history a"
proof -
  let ?step = "actor_step (pgStore Some) Some (\<lambda>_. ''u'') FixedDealer ''g'' 64 (\<lambda>_ _. False)"
  let ?run = "actor_run (pgStore Some) Some (\<lambda>_. ''u'') FixedDealer ''g'' 64 (\<lambda>_ _. False) (NewSession flop_world)"
  let ?a1 = "put flop_env (NewSession flop_world)"
  let ?a2 = "took [] (finish 5 flop_state flop_call) (0, fst flop_call) ?a1"
  have "?step (NewSession flop_world) (Sent flop_env) ?a1"
    by (rule actor_step.send) (simp_all add: NewSession_def flop_env_def)
  then have 1: "?run ([] @ [Sent flop_env]) ?a1" by (rule actor_run.further [OF actor_run.nothing])
  have "?step ?a1 (Ran flop_env (fst flop_call)) ?a2"
    using actor_step.receive [of ?a1 flop_env "[]" flop_call "pgStore Some" Some "\<lambda>_. ''u''" FixedDealer "''g''" 5]
    by (simp add: put_def NewSession_def flop_env_def flop_call_def flop_world_def)
  then have 2: "?run (([] @ [Sent flop_env]) @ [Ran flop_env (fst flop_call)]) ?a2" by (rule actor_run.further [OF 1])
  have "?step ?a2 (Answered 0 (Result (fst flop_call))) (returned 0 ?a2)"
    by (rule actor_step.reply) (simp_all add: actor_parts NewSession_def)
  from actor_run.further [OF 2 this] show ?thesis unfolding flop_history_def by fastforce
qed

lemma flop_history_views:
  "sent flop_history = [flop_env]" "ran flop_history = [(flop_env, fst flop_call)]" "got flop_history = [(0, fst flop_call)]"
  by (simp_all add: flop_history_def sent_def ran_def got_def answered_def)

lemma calls_in_order_witness:
  "\<exists>a. actor_run (pgStore Some) Some (\<lambda>_. ''u'') FixedDealer ''g'' 64 (\<lambda>_ _. False) (NewSession flop_world) flop_history a
    \<and> ac_inbox a = [] \<and> set (ac_waiting a) \<subseteq> {..<ac_calls a}"
proof -
  obtain a where a: "actor_run (pgStore Some) Some (\<lambda>_. ''u'') FixedDealer ''g'' 64 (\<lambda>_ _. False) (NewSession flop_world) flop_history a"
    using flop_actor by blast
  show ?thesis using calls_in_order [OF a] a unfolding flop_history_views by auto
qed

lemma acknowledged_is_stored_witness:
  "\<exists>a evs. actor_run (pgStore Some) Some (\<lambda>_. ''u'') FixedDealer ''g'' 64 (\<lambda>_ _. False) (NewSession flop_world) flop_history a
    \<and> length evs = 4 \<and> set evs \<subseteq> set (pg_log (w_store (ac_world a)) ''g'')"
proof -
  obtain a where a: "actor_run (pgStore Some) Some (\<lambda>_. ''u'') FixedDealer ''g'' 64 (\<lambda>_ _. False) (NewSession flop_world) flop_history a"
    using flop_actor by blast
  have "\<not> isl (fst flop_call)" "length (projr (fst flop_call)) = 4" by code_simp+
  then obtain evs where "fst flop_call = Inr evs" "length evs = 4" by (cases "fst flop_call") auto
  then show ?thesis using acknowledged_is_stored [OF a refl, of 0 evs] a by (auto simp: flop_history_views)
qed

lemma stopped_session_refuses_witness:
  "\<exists>b. getOrLoad (pgStore Some) (NewFixedDealer []) ''g'' flop_db (in_memory [(''g'', b)])
      = Some (Inr (flop_state, NewFixedDealer [0..<52]), in_memory [(''g'', b)])
    \<and> reapOnce [(''g'', b)] = [] \<and> w_store (ac_world b) = flop_db"
proof -
  let ?run = "actor_run (pgStore Some) Some (\<lambda>_. ''u'') FixedDealer ''g'' 64 (\<lambda>_ _. False)"
  let ?a = "(NewSession flop_world)\<lparr>ac_closed := True\<rparr>"
  have o: "\<not> ac_closed (NewSession flop_world)" "ac_closed ?a" by (simp_all add: NewSession_def)
  have 1: "?run (NewSession flop_world) ([] @ [Stopped]) ?a"
    by (rule actor_run.further [OF actor_run.nothing actor_step.stop [OF o(1)]])
  have 2: "?run ?a ([] @ [Answered (ac_calls ?a) SessionClosed]) (refused ?a)"
    by (rule actor_run.further [OF actor_run.nothing actor_step.refuse_closed [OF o(2)]])
  have m: "map_of [(''g'', refused ?a)] ''g'' = Some (refused ?a)" "distinct (keys [(''g'', refused ?a)])"
    by (simp_all add: keys_def)
  have w: "w_state (ac_world (refused ?a)) = flop_state" "w_dealer (ac_world (refused ?a)) = NewFixedDealer [0..<52]"
    "w_store (ac_world (refused ?a)) = flop_db"
    by (simp_all add: refused_def NewSession_def flop_world_def)
  have "getOrLoad (pgStore Some) (NewFixedDealer []) ''g'' flop_db (in_memory [(''g'', refused ?a)])
      = Some (Inr (flop_state, NewFixedDealer [0..<52]), in_memory [(''g'', refused ?a)])"
    using stopped_session_refuses [OF 1 o(2) 2 m, of "pgStore Some" "NewFixedDealer []" flop_db] w by simp
  moreover have "reapOnce [(''g'', refused ?a)] = []" by (simp add: reapOnce_def refused_def)
  ultimately show ?thesis using w(3) by blast
qed

end
