(* ===== verification/EngineEvents.thy ===== *)
theory EngineEvents
  imports Lifecycle
begin

text \<open>
  Which events the engine emits: those of the commands and the server's moves that deal no card, those
  that start a hand, and those that deal. Everything else in the log comes from the lobby. Two views
  of a table that most events leave alone are built on it: the cards (\<open>Cards\<close>, \<open>Dealing\<close>) and the seats
  (\<open>Table\<close>).
\<close>

section \<open>Kinds of events\<close>

definition action_event :: "EventPayload \<Rightarrow> bool" where
  "action_event p \<longleftrightarrow> (case p of
      EvPlayerFolded pid \<Rightarrow> True | EvPlayerChecked pid \<Rightarrow> True | EvPlayerCalled pid a \<Rightarrow> True
    | EvPlayerBet pid a \<Rightarrow> True | EvPlayerRaised pid to b \<Rightarrow> True | EvPlayerAllIn pid a \<Rightarrow> True
    | EvPlayerSatOut pid \<Rightarrow> True | EvPlayerSatIn pid \<Rightarrow> True | EvPlayerShowedCards pid c1 c2 \<Rightarrow> True
    | EvPlayerMuckedCards pid \<Rightarrow> True | EvCommandAccepted c \<Rightarrow> True | EvCommandRejected c r k \<Rightarrow> True
    | EvChatMessageSent pid m \<Rightarrow> True | EvPlayerEmoteSent pid m \<Rightarrow> True | EvRunItTwiceAgreed ps \<Rightarrow> True
    | EvPlayerTimedOut pid d \<Rightarrow> True | EvActionStarted pid d dl \<Rightarrow> True | EvBettingRoundEnded ph pt \<Rightarrow> True
    | EvShowdown ps \<Rightarrow> True | EvSidePotCreated a el \<Rightarrow> True | EvRakeTaken a \<Rightarrow> True
    | EvPotAwarded a ws c d \<Rightarrow> True | EvHandEnded n \<Rightarrow> True | _ \<Rightarrow> False)"

definition dealing_event :: "EventPayload \<Rightarrow> bool" where
  "dealing_event p \<longleftrightarrow> keeps_fresh p \<or> (case p of EvHandStarted hid n d sb bb s b \<Rightarrow> True
     | EvFlopDealt a b c \<Rightarrow> True | EvTurnDealt c \<Rightarrow> True | EvRiverDealt c \<Rightarrow> True | _ \<Rightarrow> False)"

text \<open>All events of a list carry a payload of the kind.\<close>

definition all_events :: "(EventPayload \<Rightarrow> bool) \<Rightarrow> GameEvent list \<Rightarrow> bool" where
  "all_events P evs \<longleftrightarrow> (\<forall>e \<in> set evs. \<exists>p. evt_Event e = Some p \<and> P p)"

lemma all_events_simps [simp]:
  "all_events P []"
  "all_events P (e # evs) \<longleftrightarrow> (\<exists>p. evt_Event e = Some p \<and> P p) \<and> all_events P evs"
  "all_events P (evs @ evs') \<longleftrightarrow> all_events P evs \<and> all_events P evs'"
  by (auto simp: all_events_def)

lemma all_events_mono: "all_events P evs \<Longrightarrow> (\<And>p. P p \<Longrightarrow> Q p) \<Longrightarrow> all_events Q evs"
  by (fastforce simp: all_events_def)

lemma all_events_payloads: "map evt_Event evs = map evt_Event evs' \<Longrightarrow> all_events P evs = all_events P evs'"
proof -
  have "all_events P es \<longleftrightarrow> (\<forall>x \<in> set (map evt_Event es). \<exists>p. x = Some p \<and> P p)" for es
    by (simp add: all_events_def)
  then show "map evt_Event evs = map evt_Event evs' \<Longrightarrow> ?thesis" by presburger
qed

lemma mk_event_payload [simp]: "evt_Event (mk_event p) = Some p"
  by (simp add: mk_event_def)

lemma rejected_payload [simp]:
  "\<exists>p. evt_Event (toCommandRejectedEvent r g c) = Some p \<and> action_event p"
  by (simp add: toCommandRejectedEvent_def action_event_def)

lemma commandEvents_actions: "all_events action_event (commandEvents st cmd actor)"
proof -
  have "all_events action_event (build_payload_events st c actor p)" for c p
    by (cases p) (simp_all add: action_event_def Let_def toCommandRejectedEvent_def)
  then show ?thesis by (simp add: commandEvents_def buildCommandEvents_def action_event_def split: option.split)
qed

lemma move_actions:
  "all_events action_event (timeoutAction st)" "all_events action_event (startNextAction st now)"
  "all_events action_event (endHandUncontested st)" "all_events action_event (endHandShowdown st)"
  by (auto simp: timeoutAction_def startNextAction_def endHandUncontested_def endHandShowdown_def
      award_pot_def action_event_def all_events_def Let_def split: option.splits if_splits prod.splits)

section \<open>What a move emits\<close>

definition engine_event :: "EventPayload \<Rightarrow> bool" where
  "engine_event p \<longleftrightarrow> action_event p \<or> dealing_event p"

lemma dealHoleCards_emits: "dealHoleCards dlr ps d = (Inr evs, d') \<Longrightarrow> all_events dealing_event evs"
  using dealHoleCards_events [of dlr ps d evs d'] by (auto simp: all_events_def dealing_event_def)

lemma hand_opening_emits: "all_events dealing_event (hand_opening hid st active dealer sb bb)"
  by (auto simp: hand_opening_def all_events_def dealing_event_def keeps_fresh_def Let_def)

lemma advance_emits:
  assumes "advance uuid dlr now st d = (Inr evs, d')"
  shows "all_events engine_event evs"
proof -
  have act: "all_events action_event es \<Longrightarrow> all_events engine_event es" for es
    by (erule all_events_mono) (simp add: engine_event_def)
  show ?thesis
  proof (cases "CurrentHand st")
    case None
    have deal: "all_events dealing_event es \<Longrightarrow> all_events engine_event es" for es
      by (erule all_events_mono) (simp add: engine_event_def)
    have start: "startNewHand uuid dlr st active d = (Inr evs, d') \<Longrightarrow> ?thesis" for active
      using deal [OF hand_opening_emits] deal [OF dealHoleCards_emits]
      by (auto simp: startNewHand_def Let_def split: prod.splits option.splits sum.splits)
    have "all_events action_event (map (\<lambda>p. mk_event (EvPlayerSatOut (PlayerId p))) ps)" for ps :: "PlayerState list"
      by (simp add: all_events_def action_event_def)
    with None assms start act show ?thesis
      by (fastforce simp: advance_def advanceIdle_def Let_def split: if_splits)
  next
    case (Some h)
    have street: "advanceStreet dlr st d = (Inr evs, d') \<Longrightarrow> ?thesis"
      using Some act [OF move_actions(4)]
      by (cases "Phase h") (auto simp: advanceStreet_def Let_def engine_event_def action_event_def dealing_event_def
          split: prod.splits sum.splits)
    with Some assms act move_actions show ?thesis
      by (auto simp: advance_def advanceHand_def Let_def split: if_splits)
  qed
qed

lemma run_steps_emits:
  "run_steps k uuid dlr now st d = (Inr evs, d') \<Longrightarrow> all_events engine_event evs"
proof (induction k arbitrary: st d evs)
  case (Suc k)
  obtain batch d1 where b: "advance uuid dlr now st d = (Inr batch, d1)"
    using Suc.prems by (auto split: prod.splits sum.splits)
  then show ?case using Suc.prems advance_emits [OF b] Suc.IH
    by (auto split: prod.splits sum.splits if_splits)
qed simp

lemma HandleCommand_emits:
  assumes "HandleCommand uuid now st cmd actor dlr d = (Inr evs, d')"
  shows "all_events engine_event evs"
proof -
  have "all_events engine_event (commandEvents st cmd actor)"
    using commandEvents_actions by (rule all_events_mono) (simp add: engine_event_def)
  then show ?thesis using assms run_steps_emits
    by (auto simp: HandleCommand_def runAdvance_def Let_def split: prod.splits sum.splits)
qed

end
