(* ===== verification/Cards.thy ===== *)
theory Cards
  imports EngineEvents
begin

text \<open>
  The deck is enough: a hand of up to 22 players draws at most 52 cards, so the engine never meets an
  empty deck. The invariant counts the cards that the streets still to come will take; it holds for
  every dealer that keeps the contract \<^const>\<open>fair_source\<close>, and is instantiated for the one of the
  production code, \<open>engine/dealer.go\<close>.
\<close>

section \<open>How far a hand is\<close>

text \<open>Three cards for the flop, one for the turn and one for the river, each street after a burned card.\<close>

definition phase_needs :: "HandPhase \<Rightarrow> nat" where
  "phase_needs ph = (case ph of HAND_PHASE_PREFLOP \<Rightarrow> 8 | HAND_PHASE_FLOP \<Rightarrow> 4 | HAND_PHASE_TURN \<Rightarrow> 2 | _ \<Rightarrow> 0)"

definition cards_needed :: "GameState \<Rightarrow> nat" where
  "cards_needed st = (case CurrentHand st of None \<Rightarrow> 0 | Some h \<Rightarrow> phase_needs (Phase h))"

definition stage :: "GameState \<Rightarrow> HandPhase option" where
  "stage st = map_option Phase (CurrentHand st)"

lemma cards_needed_stage: "cards_needed st = (case stage st of None \<Rightarrow> 0 | Some ph \<Rightarrow> phase_needs ph)"
  by (simp add: cards_needed_def stage_def split: option.splits)

text \<open>The events that neither open a street nor add a player.\<close>

definition quiet :: "EventPayload \<Rightarrow> bool" where
  "quiet e \<longleftrightarrow> (case e of EvHandStarted hid n d sb bb s b \<Rightarrow> False | EvFlopDealt a b c \<Rightarrow> False
     | EvTurnDealt c \<Rightarrow> False | EvPlayerJoined pid uid seat b \<Rightarrow> False | _ \<Rightarrow> True)"

definition quiet_event :: "GameEvent \<Rightarrow> bool" where
  "quiet_event evt \<longleftrightarrow> (case evt_Event evt of None \<Rightarrow> True | Some e \<Rightarrow> quiet e)"

lemma quiet_mk [simp]: "quiet_event (mk_event e) = quiet e"
  by (simp add: quiet_event_def mk_event_def)

definition no_worse :: "GameState \<Rightarrow> GameState \<Rightarrow> bool" where
  "no_worse st st' \<longleftrightarrow> cards_needed st' \<le> cards_needed st \<and> length (Players st') \<le> length (Players st)"

lemma no_worse_refl [simp, intro]: "no_worse st st" by (simp add: no_worse_def)

lemma no_worse_trans: "no_worse st st1 \<Longrightarrow> no_worse st1 st2 \<Longrightarrow> no_worse st st2"
  by (simp add: no_worse_def)

lemma length_map_entry [simp]: "length (AList.map_entry k f m) = length m"
  using arg_cong [OF keys_map_entry [of k f m], of length] by (simp add: keys_def del: keys_map_entry)

lemma length_values_upd [simp]: "length (values_upd f m) = length m"
  by (simp add: values_upd_def)

lemma length_delete_le: "length (AList.delete k m) \<le> length m"
  by (simp add: AList.delete_eq)

text \<open>Each block of the handlers keeps \<open>no_worse\<close>, whatever came before it.\<close>

lemma no_worse_upd_player: "no_worse st s \<Longrightarrow> no_worse st (upd_player pid f s)"
  and no_worse_upd_all: "no_worse st s \<Longrightarrow> no_worse st (upd_all_players g s)"
  by (simp_all add: no_worse_def cards_needed_def)

lemma no_worse_upd_hand:
  "(\<And>h. phase_needs (Phase (k h)) \<le> phase_needs (Phase h)) \<Longrightarrow> no_worse st s \<Longrightarrow> no_worse st (upd_hand k s)"
  by (erule no_worse_trans) (simp add: no_worse_def cards_needed_def upd_hand_def split: option.split)

lemma no_worse_fields:
  "CurrentHand st' = CurrentHand st \<or> CurrentHand st' = None \<Longrightarrow> length (Players st') \<le> length (Players st)
     \<Longrightarrow> no_worse st st'"
  by (auto simp: no_worse_def cards_needed_def)

lemma no_worse_with:
  assumes "\<And>p h. Phase (snd (f p h)) = Phase h"
  shows "no_worse st (with_player_and_hand pid f st)"
proof (cases "CurrentHand st")
  case (Some h)
  show ?thesis
  proof (cases "player st pid")
    case (Some p)
    show ?thesis
      using assms with_player_and_hand_Some [OF \<open>CurrentHand st = Some h\<close> Some]
      by (simp add: no_worse_def cards_needed_def \<open>CurrentHand st = Some h\<close>)
  qed (simp add: with_player_and_hand_def Some)
qed (simp add: with_player_and_hand_def)

lemma no_worse_award: "no_worse st s \<Longrightarrow> no_worse st (award_winners a b ws s)"
  by (induction ws arbitrary: a s) (simp_all add: no_worse_upd_player)

lemma no_worse_reset: "no_worse st s \<Longrightarrow> no_worse st (resetStreetState s)"
  unfolding resetStreetState_def Let_def by (intro no_worse_upd_hand no_worse_upd_all) simp_all

lemmas no_worse_intros = no_worse_upd_player no_worse_upd_all no_worse_upd_hand no_worse_award
  no_worse_reset no_worse_with

lemma no_worse_payload:
  assumes "quiet e"
  shows "no_worse st (apply_payload e t st)"
proof (cases e)
  case (EvPlayerLeft x1 x2 x3)
  then show ?thesis by (simp add: apply_PlayerLeft_def no_worse_fields length_delete_le)
next
  case (EvPlayerKicked x1 x2)
  then show ?thesis by (simp add: apply_PlayerLeft_def no_worse_fields length_delete_le)
next
  case (EvHandEnded n)
  then show ?thesis by (simp add: apply_HandEnded_def no_worse_fields Let_def)
next
  case (EvPlayerAllIn x1 x2)
  then show ?thesis
    by (auto simp: apply_PlayerAllIn_def all_in_raise_def done_acting_def Let_def
        intro!: no_worse_intros split: option.split)
next
  case (EvPotAwarded x1 x2 x3 x4)
  then show ?thesis by (simp add: apply_PotAwarded_def Let_def no_worse_intros)
next
  case (EvRiverDealt c)
  then show ?thesis by (auto simp: apply_RiverDealt_def phase_needs_def intro!: no_worse_reset no_worse_upd_hand)
next
  case (EvShowdown pids)
  then show ?thesis by (auto simp: apply_Showdown_def phase_needs_def intro!: no_worse_upd_hand)
qed (use assms in \<open>auto simp: quiet_def handler_defs apply_BlindPosted_def apply_AntePosted_def
      apply_StraddlePosted_def apply_PlayerCalled_def apply_PlayerBet_def apply_PlayerRaised_def
      apply_SidePotCreated_def reopen_action_def done_acting_def Let_def
      intro!: no_worse_intros intro: no_worse_fields\<close>)

lemma no_worse_Version [simp]: "no_worse st (st\<lparr>Version := v\<rparr>)"
  by (rule no_worse_fields) simp_all

lemma no_worse_Apply:
  assumes "quiet_event evt"
  shows "no_worse st (Apply st evt)"
proof (cases "evt_Event evt")
  case (Some e)
  then have "quiet e" using assms by (simp add: quiet_event_def)
  then show ?thesis using Some
    by (simp add: Apply_def Let_def no_worse_trans [OF no_worse_Version no_worse_payload])
qed (simp add: Apply_def Let_def)

lemma no_worse_applyAll: "\<forall>e \<in> set evs. quiet_event e \<Longrightarrow> no_worse st (applyAll st evs)"
proof (induction evs arbitrary: st)
  case (Cons e evs)
  then have "no_worse st (Apply st e)" "no_worse (Apply st e) (applyAll (Apply st e) evs)"
    by (simp_all add: no_worse_Apply)
  then show ?case using no_worse_trans by simp
qed simp

section \<open>The engine's own events are quiet\<close>

lemma quiet_action: "action_event p \<Longrightarrow> quiet p"
  by (cases p) (simp_all add: quiet_def action_event_def)

lemma quiet_actions: "all_events action_event evs \<Longrightarrow> \<forall>e \<in> set evs. quiet_event e"
  using quiet_action by (force simp: all_events_def quiet_event_def)

lemmas quiet_commandEvents = quiet_actions [OF commandEvents_actions]
  and quiet_moves = quiet_actions [OF move_actions(1)] quiet_actions [OF move_actions(2)]
    quiet_actions [OF move_actions(3)] quiet_actions [OF move_actions(4)]

section \<open>The deck covers the hand\<close>

definition deck_covers :: "('d \<Rightarrow> bool) \<Rightarrow> ('d \<Rightarrow> card list) \<Rightarrow> GameState \<Rightarrow> 'd \<Rightarrow> bool" where
  "deck_covers ok rest st d \<longleftrightarrow>
     ok d \<and> cards_needed st \<le> length (rest d) \<and> length (Players st) \<le> 22"

text \<open>What every move of the engine comes to: the shuffle lacks randomness and has left all 52 cards, or the
  invariant holds after it.\<close>

definition served ::
  "('d \<Rightarrow> bool) \<Rightarrow> ('d \<Rightarrow> card list) \<Rightarrow> GameState \<Rightarrow> (go_error + GameEvent list) \<times> 'd \<Rightarrow> bool" where
  "served ok rest st out \<longleftrightarrow>
     (case out of (Inl e, d) \<Rightarrow> (\<exists>m. e = ''shuffle: '' @ m) \<and> ok d \<and> length (rest d) = 52
      | (Inr evs, d) \<Rightarrow> deck_covers ok rest (applyAll st evs) d)"

lemma cards_needed_le: "cards_needed st \<le> 8"
  by (simp add: cards_needed_def phase_needs_def split: option.split HandPhase.split)

lemma served_quiet:
  "deck_covers ok rest st d \<Longrightarrow> \<forall>e \<in> set evs. quiet_event e \<Longrightarrow> served ok rest st (Inr evs, d)"
  using no_worse_applyAll [of evs st] by (auto simp: served_def deck_covers_def no_worse_def)

text \<open>The events that open a street.\<close>

definition opens :: "HandPhase \<Rightarrow> GameEvent \<Rightarrow> bool" where
  "opens ph e \<longleftrightarrow> (\<forall>s. length (Players (Apply s e)) = length (Players s)
     \<and> (\<forall>h. CurrentHand (Apply s e) = Some h \<longrightarrow> Phase h = ph))"

lemma opens_street:
  "opens HAND_PHASE_FLOP (mk_event (EvFlopDealt a b c))"
  "opens HAND_PHASE_TURN (mk_event (EvTurnDealt c))"
  "opens HAND_PHASE_RIVER (mk_event (EvRiverDealt c))"
  by (auto simp: opens_def Apply_def mk_event_def apply_FlopDealt_def apply_TurnDealt_def
      apply_RiverDealt_def resetStreetState_def upd_hand_def Let_def split: option.splits if_splits)

lemma served_street:
  assumes "deck_covers ok rest st d" and "quiet_event bre" and "opens ph e" and "ok d'"
    and "phase_needs ph \<le> length (rest d')"
  shows "served ok rest st (Inr [bre, e], d')"
proof -
  have "length (Players (Apply st bre)) \<le> 22"
    using no_worse_Apply [OF assms(2), of st] assms(1) by (simp add: deck_covers_def no_worse_def)
  then show ?thesis using assms(3-5)
    by (auto simp: served_def deck_covers_def cards_needed_def applyAll_def opens_def split: option.split)
qed

lemma hand_started:
  "length (Players (apply_HandStarted x1 x2 x3 x4 x5 x6 x7 t s)) = length (Players s)
   \<and> cards_needed (apply_HandStarted x1 x2 x3 x4 x5 x6 x7 t s) = 8"
  by (simp add: apply_HandStarted_def Let_def cards_needed_def phase_needs_def split: option.split)

lemma keeps_fresh_quiet: "keeps_fresh e \<Longrightarrow> quiet e"
  by (cases e) (simp_all add: keeps_fresh_def quiet_def)

text \<open>A shuffle that fails has thrown no card away.\<close>

locale full_source = fair_source +
  assumes shuffle_size: "Shuffle dlr d = (e, d') \<Longrightarrow> length (rest d') = 52"
begin

lemma burn_and_deal_ok:
  assumes "ok d" and "n < length (rest d)"
  shows "\<exists>cs d'. burn_and_deal dlr street n d = (Inr cs, d') \<and> ok d'
     \<and> length (rest d') = length (rest d) - Suc n"
proof -
  obtain c cs where r: "rest d = c # cs" using assms(2) by (cases "rest d") auto
  then obtain d1 where "Burn dlr d = (None, d1)" "rest d1 = cs" "ok d1"
    using burn_Cons assms(1) by blast
  then show ?thesis using deal_n_ok [of d1 n] assms(2) r by (auto simp: burn_and_deal_def)
qed

lemma dealHoleCards_ok:
  "ok d \<Longrightarrow> 2 * length ps \<le> length (rest d) \<Longrightarrow>
   \<exists>evs d'. dealHoleCards dlr ps d = (Inr evs, d') \<and> ok d'
     \<and> length (rest d') = length (rest d) - 2 * length ps"
proof (induction ps arbitrary: d)
  case (Cons p ps)
  then obtain c1 c2 cs where r: "rest d = c1 # c2 # cs"
    by (cases "rest d"; cases "tl (rest d)") auto
  then obtain d1 where d1: "Deal dlr d = (Inr c1, d1)" "rest d1 = c2 # cs" "ok d1"
    using deal_Cons Cons.prems(1) by blast
  then obtain d2 where d2: "Deal dlr d1 = (Inr c2, d2)" "rest d2 = cs" "ok d2"
    using deal_Cons by blast
  then obtain evs d' where "dealHoleCards dlr ps d2 = (Inr evs, d')" "ok d'"
    "length (rest d') = length cs - 2 * length ps"
    using Cons.IH [of d2] Cons.prems(2) r by auto
  then show ?case using d1(1) d2(1) r by simp
qed simp

lemma street_served:
  assumes "deck_covers ok rest st d" and "quiet_event bre" and "\<And>cs. opens ph (f cs)"
    and "n < length (rest d)" and "phase_needs ph \<le> length (rest d) - Suc n"
  shows "served ok rest st (case burn_and_deal dlr street n d of
      (Inl e, d1) \<Rightarrow> (Inl e, d1) | (Inr cs, d1) \<Rightarrow> (Inr [bre, f cs], d1))"
proof -
  obtain cs d' where d': "burn_and_deal dlr street n d = (Inr cs, d')" "ok d'"
    "length (rest d') = length (rest d) - Suc n"
    using burn_and_deal_ok [of d n street] assms(1,4) by (auto simp: deck_covers_def)
  then show ?thesis using served_street [OF assms(1,2,3)] assms(5) by simp
qed

lemma advanceStreet_served:
  assumes "deck_covers ok rest st d" and "CurrentHand st = Some h"
  shows "served ok rest st (advanceStreet dlr st d)"
proof -
  have bre: "quiet_event (mk_event (EvBettingRoundEnded ph p))" for ph p by (simp add: quiet_def)
  have need: "phase_needs (Phase h) \<le> length (rest d)"
    using assms by (simp add: deck_covers_def cards_needed_def)
  show ?thesis
  proof (cases "Phase h")
    case HAND_PHASE_PREFLOP
    with need show ?thesis unfolding advanceStreet_def
      by (simp add: assms(2) phase_needs_def street_served [OF assms(1) bre opens_street(1)])
  next
    case HAND_PHASE_FLOP
    with need show ?thesis unfolding advanceStreet_def
      by (simp add: assms(2) phase_needs_def street_served [OF assms(1) bre opens_street(2)])
  next
    case HAND_PHASE_TURN
    with need show ?thesis unfolding advanceStreet_def
      by (simp add: assms(2) phase_needs_def street_served [OF assms(1) bre opens_street(3)])
  qed (use assms bre quiet_moves(4) in \<open>auto simp: advanceStreet_def intro!: served_quiet\<close>)
qed

lemma startNewHand_served:
  assumes "length (Players st) \<le> 22"
  shows "served ok rest st (startNewHand uuid dlr st (activePlayers st) d)"
proof -
  let ?act = "activePlayers st"
  obtain sb bb where p: "blind_positions (length ?act) (newDealerIdx ?act (DealerSeat st) (HandNumber st)) = (sb, bb)"
    by fastforce
  obtain e d1 where s: "Shuffle dlr d = (e, d1)" by fastforce
  show ?thesis
  proof (cases e)
    case (Some m)
    then show ?thesis using s p shuffle_ok [OF s] shuffle_size [OF s] by (simp add: startNewHand_def served_def)
  next
    case None
    have n: "length ?act \<le> 22"
      using assms le_trans [OF length_filter_le] by (simp add: activePlayers_def)
    have d1: "length (rest d1) = 52" "ok d1" using s None shuffle_length shuffle_ok by auto
    then obtain holes d2 where h: "dealHoleCards dlr ?act d1 = (Inr holes, d2)" "ok d2"
      "length (rest d2) = 52 - 2 * length ?act" using dealHoleCards_ok [of d1 ?act] n by auto
    obtain hs where hs: "holes = map mk_event hs" "\<forall>e \<in> set hs. keeps_fresh e"
      using dealHoleCards_events [OF h(1)] by blast
    have "served ok rest st (Inr (hand_opening hid st ?act dealer sbp bbp @ holes), d2)" for hid dealer sbp bbp
    proof -
      obtain e0 es where ev: "hand_opening hid st ?act dealer sbp bbp @ holes = e0 # es"
        "\<forall>e \<in> set es. quiet_event e"
        and e0: "\<exists>x1 x2 x3 x4 x5 x6 x7. e0 = mk_event (EvHandStarted x1 x2 x3 x4 x5 x6 x7)"
        using hs keeps_fresh_quiet by (force simp: hand_opening_def Let_def quiet_def)
      obtain x1 x2 x3 x4 x5 x6 x7 v
        where "Apply st e0 = apply_HandStarted x1 x2 x3 x4 x5 x6 x7 None (st\<lparr>Version := v\<rparr>)"
        using e0 Apply_mk_event by (metis apply_payload.simps(19))
      then have "cards_needed (Apply st e0) = 8" "length (Players (Apply st e0)) = length (Players st)"
        by (simp_all add: hand_started)
      moreover have "8 \<le> length (rest d2)" using h(3) n by simp
      moreover have "no_worse (Apply st e0) (applyAll (Apply st e0) es)"
        using ev(2) by (rule no_worse_applyAll)
      ultimately show ?thesis using h(2) assms unfolding ev(1)
        by (simp add: served_def deck_covers_def no_worse_def)
    qed
    then show ?thesis using s None p h(1) by (simp add: startNewHand_def Let_def)
  qed
qed

lemma advance_served:
  assumes "deck_covers ok rest st d"
  shows "served ok rest st (advance uuid dlr now st d)"
proof (cases "CurrentHand st")
  case None
  have "served ok rest st (Inr (map (\<lambda>p. mk_event (EvPlayerSatOut (PlayerId p))) ps), d)" for ps :: "PlayerState list"
    using assms by (rule served_quiet) (auto simp: quiet_def)
  moreover have "length (Players st) \<le> 22" using assms by (simp add: deck_covers_def)
  ultimately show ?thesis using None assms startNewHand_served [of st uuid d]
    by (simp add: advance_def advanceIdle_def Let_def served_quiet)
next
  case (Some h)
  then show ?thesis using assms advanceStreet_served [OF assms Some] quiet_moves
    by (auto simp: advance_def advanceHand_def Let_def intro: served_quiet)
qed

lemma run_steps_served:
  "deck_covers ok rest st d \<Longrightarrow> served ok rest st (run_steps k uuid dlr now st d)"
proof (induction k arbitrary: st d)
  case (Suc k)
  obtain r d1 where r: "advance uuid dlr now st d = (r, d1)" by fastforce
  note one = advance_served [OF Suc.prems, of uuid now, unfolded r]
  show ?case
  proof (cases r)
    case (Inl e)
    then show ?thesis using one r by (simp add: served_def)
  next
    case (Inr batch)
    then have "deck_covers ok rest (applyAll st batch) d1" using one by (simp add: served_def)
    then have "served ok rest (applyAll st batch) (run_steps k uuid dlr now (applyAll st batch) d1)"
      by (rule Suc.IH)
    then show ?thesis using one r Inr
      by (cases "run_steps k uuid dlr now (applyAll st batch) d1")
        (auto simp: served_def applyAll_def split: sum.splits)
  qed
qed (simp add: served_quiet)

lemma HandleCommand_served:
  assumes "deck_covers ok rest st d" and "HandleCommand uuid now st cmd actor dlr d = (r, d')"
  shows "case r of Inl e \<Rightarrow> (\<exists>m. e = ''advance: shuffle: '' @ m) \<and> deck_covers ok rest st d'
    | Inr evs \<Rightarrow> deck_covers ok rest (applyAll st evs) d'"
proof -
  let ?st = "applyAll st (commandEvents st cmd actor)"
  have "deck_covers ok rest ?st d"
    using served_quiet [OF assms(1) quiet_commandEvents] by (simp add: served_def)
  then have "served ok rest ?st (runAdvance uuid dlr now ?st d)"
    unfolding runAdvance_def by (rule run_steps_served)
  then show ?thesis using assms cards_needed_le [of st]
    by (cases "runAdvance uuid dlr now ?st d")
      (auto simp: deck_covers_def HandleCommand_def Let_def served_def applyAll_def split: sum.splits)
qed

end

section \<open>No card twice\<close>

text \<open>The cards an event deals, and those dealt since the start of the hand.\<close>

definition dealt_by :: "GameEvent \<Rightarrow> card list" where
  "dealt_by e = (case evt_Event e of
      Some (EvHoleCardsRevealed pid c1 c2) \<Rightarrow> [c1, c2]
    | Some (EvFlopDealt c1 c2 c3) \<Rightarrow> [c1, c2, c3]
    | Some (EvTurnDealt c) \<Rightarrow> [c]
    | Some (EvRiverDealt c) \<Rightarrow> [c]
    | _ \<Rightarrow> [])"

definition starts_hand :: "GameEvent \<Rightarrow> bool" where
  "starts_hand e \<longleftrightarrow> (case evt_Event e of Some (EvHandStarted hid n dl sb bb s b) \<Rightarrow> True | _ \<Rightarrow> False)"

definition hand_cards :: "card list \<Rightarrow> GameEvent list \<Rightarrow> card list" where
  "hand_cards cs evs = foldl (\<lambda>cs e. (if starts_hand e then [] else cs) @ dealt_by e) cs evs"

lemma hand_cards_simps [simp]:
  "hand_cards cs [] = cs"
  "hand_cards cs (e # evs) = hand_cards ((if starts_hand e then [] else cs) @ dealt_by e) evs"
  "hand_cards cs (evs @ evs') = hand_cards (hand_cards cs evs) evs'"
  by (simp_all add: hand_cards_def)

definition deals_nothing :: "GameEvent \<Rightarrow> bool" where
  "deals_nothing e \<longleftrightarrow> \<not> starts_hand e \<and> dealt_by e = []"

lemma hand_cards_same: "\<forall>e \<in> set evs. deals_nothing e \<Longrightarrow> hand_cards cs evs = cs"
  by (induction evs) (simp_all add: deals_nothing_def)

lemmas dealing_defs = deals_nothing_def starts_hand_def dealt_by_def mk_event_def

lemma deals_nothing_action: "evt_Event e = Some p \<Longrightarrow> action_event p \<Longrightarrow> deals_nothing e"
  by (cases p) (simp_all add: deals_nothing_def starts_hand_def dealt_by_def action_event_def)

lemma deals_nothing_actions: "all_events action_event evs \<Longrightarrow> \<forall>e \<in> set evs. deals_nothing e"
  using deals_nothing_action by (force simp: all_events_def)

lemmas deals_nothing_commands = deals_nothing_actions [OF commandEvents_actions]
  and deals_nothing_moves = deals_nothing_actions [OF move_actions(1)] deals_nothing_actions [OF move_actions(2)]
    deals_nothing_actions [OF move_actions(3)] deals_nothing_actions [OF move_actions(4)]

text \<open>The cards of the hand so far and those the dealer still holds are all different.\<close>

definition no_repeats :: "('d \<Rightarrow> bool) \<Rightarrow> ('d \<Rightarrow> card list) \<Rightarrow> card list \<Rightarrow> 'd \<Rightarrow> bool" where
  "no_repeats ok rest cs d \<longleftrightarrow> ok d \<and> distinct (cs @ rest d) \<and> set (cs @ rest d) \<subseteq> {0..<52}"

lemma no_repeats_drop:
  "no_repeats ok rest cs d \<Longrightarrow> rest d = burned @ new @ rest d' \<Longrightarrow> ok d' \<Longrightarrow> no_repeats ok rest (cs @ new) d'"
  by (auto simp: no_repeats_def)

lemma hand_opening_cards:
  "hand_cards cs (hand_opening hid st active dealer sb bb @ holes) = hand_cards [] holes"
  by (auto simp: hand_opening_def Let_def dealing_defs intro!: arg_cong [of _ _ "\<lambda>x. hand_cards x holes"] hand_cards_same)

context card_source
begin

lemma Deal_Inr: "ok d \<Longrightarrow> Deal dlr d = (Inr c, d') \<Longrightarrow> rest d = c # rest d' \<and> ok d'"
  using deal_Cons [of d] deal_Nil [of d] by (cases "rest d") auto

lemma Burn_None: "ok d \<Longrightarrow> Burn dlr d = (None, d') \<Longrightarrow> (\<exists>c. rest d = c # rest d') \<and> ok d'"
  using burn_Cons [of d] burn_Nil [of d] by (cases "rest d") auto

lemma deal_n_Inr: "ok d \<Longrightarrow> deal_n dlr n d = (Inr cs, d') \<Longrightarrow> rest d = cs @ rest d' \<and> length cs = n \<and> ok d'"
proof (induction n arbitrary: d cs)
  case (Suc n)
  obtain c d1 cs' where 1: "Deal dlr d = (Inr c, d1)" "deal_n dlr n d1 = (Inr cs', d')" "cs = c # cs'"
    using Suc.prems(2) by (auto split: prod.splits sum.splits)
  show ?case using Deal_Inr [OF Suc.prems(1) 1(1)] Suc.IH [OF _ 1(2)] 1(3) by simp
qed simp

lemma burn_and_deal_Inr:
  "ok d \<Longrightarrow> burn_and_deal dlr street n d = (Inr cs, d') \<Longrightarrow>
   (\<exists>c. rest d = [c] @ cs @ rest d') \<and> length cs = n \<and> ok d'"
proof -
  assume ok: "ok d" and "burn_and_deal dlr street n d = (Inr cs, d')"
  then obtain d1 where 1: "Burn dlr d = (None, d1)" "deal_n dlr n d1 = (Inr cs, d')"
    by (auto simp: burn_and_deal_def split: prod.splits option.splits)
  show ?thesis using Burn_None [OF ok 1(1)] deal_n_Inr [OF _ 1(2)] by auto
qed

lemma dealHoleCards_Inr:
  "ok d \<Longrightarrow> dealHoleCards dlr ps d = (Inr evs, d') \<Longrightarrow>
   ok d' \<and> (\<exists>new. rest d = new @ rest d' \<and> (\<forall>cs. hand_cards cs evs = cs @ new))"
proof (induction ps arbitrary: d evs)
  case (Cons p ps)
  obtain c1 d1 c2 d2 evs' where 1: "Deal dlr d = (Inr c1, d1)" "Deal dlr d1 = (Inr c2, d2)"
    "dealHoleCards dlr ps d2 = (Inr evs', d')"
    "evs = mk_event (EvHoleCardsDealt (PlayerId p)) # mk_event (EvHoleCardsRevealed (PlayerId p) c1 c2) # evs'"
    using Cons.prems(2) by (auto split: prod.splits sum.splits)
  have d: "rest d = c1 # c2 # rest d2" "ok d2"
    using Deal_Inr [OF Cons.prems(1) 1(1)] Deal_Inr [OF _ 1(2)] by auto
  obtain new where "ok d'" "rest d2 = new @ rest d'" "\<forall>cs. hand_cards cs evs' = cs @ new"
    using Cons.IH [OF d(2) 1(3)] by blast
  then show ?case using d 1(4) by (auto simp: dealing_defs)
qed simp

end

context fair_source
begin

lemma street_no_repeats:
  assumes "no_repeats ok rest cs d" and "deals_nothing bre"
    and "\<And>new. length new = n \<Longrightarrow> \<not> starts_hand (f new) \<and> dealt_by (f new) = new"
    and "(case burn_and_deal dlr street n d of
      (Inl e, d1) \<Rightarrow> (Inl e, d1) | (Inr new, d1) \<Rightarrow> (Inr [bre, f new], d1)) = (Inr evs, d')"
  shows "no_repeats ok rest (hand_cards cs evs) d'"
proof -
  obtain new where new: "burn_and_deal dlr street n d = (Inr new, d')" "evs = [bre, f new]"
    using assms(4) by (auto split: prod.splits sum.splits)
  obtain c where c: "rest d = [c] @ new @ rest d'" "length new = n" "ok d'"
    using burn_and_deal_Inr [OF _ new(1)] assms(1) by (auto simp: no_repeats_def)
  then show ?thesis using no_repeats_drop [OF assms(1) c(1,3)] assms(2) assms(3) [OF c(2)] new(2)
    by (simp add: deals_nothing_def)
qed

lemma street_cards:
  "length new = 3 \<Longrightarrow> \<not> starts_hand (mk_event (EvFlopDealt (new ! 0) (new ! 1) (new ! 2)))
     \<and> dealt_by (mk_event (EvFlopDealt (new ! 0) (new ! 1) (new ! 2))) = new"
  "length new = 1 \<Longrightarrow> \<not> starts_hand (mk_event (EvTurnDealt (new ! 0))) \<and> dealt_by (mk_event (EvTurnDealt (new ! 0))) = new"
  "length new = 1 \<Longrightarrow> \<not> starts_hand (mk_event (EvRiverDealt (new ! 0))) \<and> dealt_by (mk_event (EvRiverDealt (new ! 0))) = new"
  by (auto simp: dealing_defs length_Suc_conv numeral_3_eq_3 numeral_2_eq_2)

lemma advanceStreet_no_repeats:
  assumes "no_repeats ok rest cs d" and "CurrentHand st = Some h" and "advanceStreet dlr st d = (Inr evs, d')"
  shows "no_repeats ok rest (hand_cards cs evs) d'"
proof -
  let ?bre = "mk_event (EvBettingRoundEnded (Phase h) (Pot h))"
  have bre: "deals_nothing (mk_event (EvBettingRoundEnded ph p))" for ph p by (simp add: dealing_defs)
  show ?thesis
  proof (cases "Phase h")
    case HAND_PHASE_PREFLOP
    show ?thesis by (rule street_no_repeats [OF assms(1) bre [of HAND_PHASE_PREFLOP "Pot h"] street_cards(1), where street = "''flop''"])
      (use assms(2,3) HAND_PHASE_PREFLOP in \<open>auto simp: advanceStreet_def\<close>)
  next
    case HAND_PHASE_FLOP
    show ?thesis by (rule street_no_repeats [OF assms(1) bre [of HAND_PHASE_FLOP "Pot h"] street_cards(2), where street = "''turn''"])
      (use assms(2,3) HAND_PHASE_FLOP in \<open>auto simp: advanceStreet_def\<close>)
  next
    case HAND_PHASE_TURN
    show ?thesis by (rule street_no_repeats [OF assms(1) bre [of HAND_PHASE_TURN "Pot h"] street_cards(3), where street = "''river''"])
      (use assms(2,3) HAND_PHASE_TURN in \<open>auto simp: advanceStreet_def\<close>)
  next
    case HAND_PHASE_RIVER
    with assms(2,3) have "evs = ?bre # endHandShowdown st" "d' = d" by (simp_all add: advanceStreet_def)
    then show ?thesis using assms(1) bre deals_nothing_moves(4) hand_cards_same [of evs cs] by simp
  qed (use assms in \<open>simp_all add: advanceStreet_def\<close>)
qed

lemma startNewHand_no_repeats:
  assumes "startNewHand uuid dlr st active d = (Inr evs, d')"
  shows "no_repeats ok rest (hand_cards cs evs) d'"
proof -
  obtain d1 holes hid dl sb bb where 1: "Shuffle dlr d = (None, d1)" "dealHoleCards dlr active d1 = (Inr holes, d')"
    "evs = hand_opening hid st active dl sb bb @ holes"
    using assms by (auto simp: startNewHand_def Let_def split: prod.splits option.splits sum.splits)
  obtain new where "ok d'" "rest d1 = new @ rest d'" "hand_cards [] holes = new"
    using dealHoleCards_Inr [OF shuffle_ok [OF 1(1)] 1(2)] by auto
  then show ?thesis using shuffle_full [OF 1(1)] unfolding 1(3) hand_opening_cards by (auto simp: no_repeats_def)
qed

lemma advance_no_repeats:
  assumes "no_repeats ok rest cs d" and "advance uuid dlr now st d = (Inr evs, d')"
  shows "no_repeats ok rest (hand_cards cs evs) d'"
proof -
  have quiet: "\<forall>e \<in> set evs. deals_nothing e \<Longrightarrow> d' = d \<Longrightarrow> ?thesis"
    using assms(1) by (simp add: hand_cards_same)
  show ?thesis
  proof (cases "CurrentHand st")
    case None
    have "deals_nothing (mk_event (EvPlayerSatOut p))" for p by (simp add: dealing_defs)
    then show ?thesis using assms(2) None startNewHand_no_repeats quiet
      by (fastforce simp: advance_def advanceIdle_def Let_def split: if_splits)
  next
    case (Some h)
    then show ?thesis
      using assms advanceStreet_no_repeats [OF assms(1) Some] deals_nothing_moves quiet
      by (auto simp: advance_def advanceHand_def Let_def split: if_splits)
  qed
qed

lemma run_steps_no_repeats:
  "no_repeats ok rest cs d \<Longrightarrow> run_steps k uuid dlr now st d = (Inr evs, d') \<Longrightarrow>
   no_repeats ok rest (hand_cards cs evs) d'"
proof (induction k arbitrary: cs st d evs)
  case (Suc k)
  obtain batch d1 where b: "advance uuid dlr now st d = (Inr batch, d1)"
    using Suc.prems(2) by (auto split: prod.splits sum.splits)
  have n: "no_repeats ok rest (hand_cards cs batch) d1" by (rule advance_no_repeats [OF Suc.prems(1) b])
  show ?case
  proof (cases "batch = []")
    case False
    then obtain more where "run_steps k uuid dlr now (applyAll st batch) d1 = (Inr more, d')" "evs = batch @ more"
      using Suc.prems(2) b by (auto split: prod.splits sum.splits)
    then show ?thesis using Suc.IH [OF n] by simp
  qed (use Suc.prems(2) b n in simp)
qed simp

lemma HandleCommand_no_repeats:
  assumes "no_repeats ok rest cs d" and "HandleCommand uuid now st cmd actor dlr d = (Inr evs, d')"
  shows "no_repeats ok rest (hand_cards cs evs) d'"
proof -
  let ?c = "commandEvents st cmd actor"
  obtain more where "runAdvance uuid dlr now (applyAll st ?c) d = (Inr more, d')" "evs = ?c @ more"
    using assms(2) by (auto simp: HandleCommand_def Let_def split: prod.splits sum.splits)
  then show ?thesis using run_steps_no_repeats [OF assms(1)] hand_cards_same [OF deals_nothing_commands]
    by (simp add: runAdvance_def)
qed

end

interpretation crypto_full: full_source CryptoDealer crypto_rest crypto_ok
proof unfold_locales
  fix d e d'
  assume "Shuffle CryptoDealer d = (e, d')"
  then have "mset (crypto_rest d') = mset [0..<52]"
    by (auto simp: CryptoDealer_def Size_def dest: Crypto_Shuffle_rest)
  then show "length (crypto_rest d') = 52" using size_mset [of "crypto_rest d'"] by simp
qed

section \<open>The deck suffices\<close>

text \<open>A table of up to 22 players never runs out of cards: as long as the dealer holds the cards that the
  streets still to come will take, a command fails only when the random source of a shuffle does, and
  it leaves the dealer with the cards that the rest of the hand will take, also when it failed and
  the state stays as it was. A fresh dealer holds them for any state.\<close>

theorem deck_suffices:
  assumes "crypto_ok d" and "cards_needed st \<le> length (crypto_rest d)" and "length (Players st) \<le> 22"
    and "HandleCommand uuid_New now st cmd actor CryptoDealer d = (r, d')"
  shows "crypto_ok d' \<and> (case r of
      Inl e \<Rightarrow> (\<exists>m. e = ''advance: shuffle: '' @ m) \<and> cards_needed st \<le> length (crypto_rest d')
    | Inr evs \<Rightarrow> cards_needed (applyAll st evs) \<le> length (crypto_rest d')
        \<and> length (Players (applyAll st evs)) \<le> 22)"
  using crypto_full.HandleCommand_served [of st d uuid_New now cmd actor r d'] assms
  by (cases r) (simp_all add: deck_covers_def)

lemma fresh_dealer_covers:
  "crypto_ok (NewCryptoDealer rng) \<and> cards_needed st \<le> length (crypto_rest (NewCryptoDealer rng))"
  using cards_needed_le [of st]
  by (simp add: crypto_ok_def crypto_rest_def deck_rest_def NewCryptoDealer_def NewDeck_def Size_def)

text \<open>On the flop \<open>a\<close> folds.\<close>

lemma deck_suffices_witness:
  "\<exists>evs d'. HandleCommand (\<lambda>_. ''u'') 5 flop_state (command_of CmdFold) ''a'' CryptoDealer
       (NewCryptoDealer (replicate 51 0)) = (Inr evs, d')
     \<and> crypto_ok d' \<and> cards_needed (applyAll flop_state evs) \<le> length (crypto_rest d')"
proof -
  let ?d = "NewCryptoDealer (replicate 51 0)"
  let ?r = "HandleCommand (\<lambda>_. ''u'') 5 flop_state (command_of CmdFold) ''a'' CryptoDealer ?d"
  have "isl (fst ?r) = False" by code_simp
  then obtain evs d' where r: "?r = (Inr evs, d')" by (cases ?r; cases "fst ?r") auto
  have "length (Players flop_state) \<le> 22" by code_simp
  from deck_suffices [OF _ _ this r] fresh_dealer_covers r show ?thesis by simp
qed

end
