(* ===== verification/Server.thy ===== *)
theory Server
  imports Session Lobby Auth
begin

text \<open>
  \<open>src/internal/server\<close>: the requests of the poker service. \<open>parse\<close> is \<open>uuid.Parse\<close>, \<open>newID\<close> what
  \<open>uuid.New()\<close> returns, \<open>now k\<close> the clock at an attempt. \<open>ctxErr k\<close> tells that the request was given up
  after the attempt. A request that joins or leaves writes to the log beside the session of the
  game; \<open>Invalidate\<close> makes the router load the game again. The answers \<open>Unimplemented\<close> of the other
  requests are one definition.
\<close>

section \<open>Table configurations\<close>

definition isValidCurrency :: "string \<Rightarrow> bool" where
  "isValidCurrency c \<longleftrightarrow> c \<in> {''USD'', ''EUR'', ''GBP'', ''CAD'', ''AUD'', ''JPY'', ''PLAY''}"

definition validate_fixed_limit :: "CashGameConfig \<Rightarrow> string option" where
  "validate_fixed_limit cfg =
     (if SmallBet cfg \<le> 0 \<or> BigBet cfg \<le> SmallBet cfg
      then Some ''fixed limit requires small_bet > 0 and big_bet > small_bet''
      else if MaxRaisesPerStreet cfg < 1 then Some ''fixed limit requires max_raises_per_street >= 1''
      else None)"

text \<open>\<^const>\<open>None\<close> is \<open>nil\<close>, no error. The length of a Go string is its length in bytes.\<close>

definition validateCashGameConfig :: "CashGameConfig option \<Rightarrow> string option" where
  "validateCashGameConfig c =
     (case c of
        None \<Rightarrow> Some ''config is required''
      | Some cfg \<Rightarrow>
          if TableName cfg = [] then Some ''table_name is required''
          else if length (TableName cfg) > 100 then Some ''table_name must be <= 100 characters''
          else if Variant cfg = GAME_VARIANT_UNSPECIFIED then Some ''variant is required''
          else if Structure cfg = BETTING_STRUCTURE_UNSPECIFIED then Some ''structure is required''
          else if \<not> isValidCurrency (Currency cfg) then Some ''invalid currency''
          else if SmallBlind cfg \<le> 0 then Some ''small_blind must be positive''
          else if BigBlind cfg \<le> SmallBlind cfg then Some ''big_blind must be greater than small_blind''
          else if MaxSeats cfg < 2 \<or> MaxSeats cfg > 10 then Some ''max_seats must be between 2 and 10''
          else if MinPlayersToStart cfg < 2 \<or> MinPlayersToStart cfg > MaxSeats cfg
          then Some ''min_players_to_start must be between 2 and max_seats''
          else if MinBuyIn cfg \<le> 0 then Some ''min_buy_in must be positive''
          else if MaxBuyIn cfg \<noteq> 0 \<and> MaxBuyIn cfg < MinBuyIn cfg then Some ''max_buy_in must be >= min_buy_in''
          else if RakeBps cfg < 0 \<or> RakeBps cfg > 10000 then Some ''rake_bps must be 0..10000''
          else
            (case (if Structure cfg = BETTING_STRUCTURE_FIXED_LIMIT then validate_fixed_limit cfg else None) of
               Some e \<Rightarrow> Some e
             | None \<Rightarrow>
                 if IsPrivate cfg \<and> Password cfg = [] then Some ''private tables require a password'' else None))"

section \<open>Helpers\<close>

definition parseOrGenUUID :: "(string \<Rightarrow> uuid option) \<Rightarrow> uuid \<Rightarrow> string \<Rightarrow> uuid option" where
  "parseOrGenUUID parse newID x = (if x = [] then Some newID else parse x)"

definition actorFromContext :: "Principal option \<Rightarrow> codes + uuid" where
  "actorFromContext ctx = (case ctx of None \<Rightarrow> Inl Unauthenticated | Some p \<Rightarrow> Inr (pr_UserID p))"

definition concurrent_write :: "go_err + 'a \<Rightarrow> bool" where
  "concurrent_write r = (case r of Inl e \<Rightarrow> errors_Is e ErrConcurrentWrite | Inr _ \<Rightarrow> False)"

text \<open>\<open>r\<close> is what the variables \<open>result\<close> and \<open>err\<close> hold before the attempt.\<close>

primrec retryOnConcurrentWrite ::
  "(nat \<Rightarrow> bool) \<Rightarrow> (nat \<Rightarrow> 's \<Rightarrow> ((go_err + 'a) \<times> 's) option) \<Rightarrow> nat \<Rightarrow> go_err + 'a \<Rightarrow> 's
     \<Rightarrow> ((go_err + 'a) \<times> 's) option" where
  "retryOnConcurrentWrite ctxErr fn 0 r s = Some (r, s)"
| "retryOnConcurrentWrite ctxErr fn (Suc k) r s =
     (case fn k s of
        None \<Rightarrow> None
      | Some (r1, s1) \<Rightarrow>
          if \<not> concurrent_write r1 \<or> ctxErr k then Some (r1, s1)
          else retryOnConcurrentWrite ctxErr fn k r1 s1)"

definition mapLobbyError :: "go_err \<Rightarrow> codes" where
  "mapLobbyError e =
     (if errors_Is e ErrInsufficientFunds then FailedPrecondition
      else if errors_Is e ErrSeatTaken then FailedPrecondition
      else if errors_Is e ErrBuyInOutOfRange then InvalidArgument
      else if errors_Is e ErrGameClosed then FailedPrecondition
      else if errors_Is e ErrAlreadySeated then AlreadyExists
      else if errors_Is e ErrTableFull then ResourceExhausted
      else if errors_Is e ErrUserNotAtTable then NotFound
      else if errors_Is e ErrNotFound then NotFound
      else if errors_Is e ErrConcurrentWrite then Unavailable
      else Internal)"

section \<open>Requests\<close>

definition rpc_CreateTable ::
  "'s Store \<Rightarrow> (string \<Rightarrow> uuid option) \<Rightarrow> uuid \<Rightarrow> uuid \<Rightarrow> timestamp \<Rightarrow> CashGameConfig option \<Rightarrow> string \<Rightarrow> 's
     \<Rightarrow> ((codes + GameState) \<times> 's) option" where
  "rpc_CreateTable S parse newID gid now cfg command_id s =
     (if validateCashGameConfig cfg \<noteq> None then Some (Inl InvalidArgument, s)
      else case parseOrGenUUID parse newID command_id of
        None \<Rightarrow> Some (Inl InvalidArgument, s)
      | Some cmdID \<Rightarrow>
          let create = map_option (apfst (case_sum (\<lambda>_. Inl Internal) Inr)) (CreateTable S gid now cfg cmdID s)
          in if cmdID \<noteq> uuid_Nil then
               (case FindEventByCommandIDGlobal S cmdID s of
                  Inr existing \<Rightarrow>
                    let gameID = (case parse (evt_GameId existing) of None \<Rightarrow> uuid_Nil | Some g \<Rightarrow> g)
                    in (case GetLatestSnapshot S gameID s of
                          Inl e \<Rightarrow> Some (Inl Internal, s)
                        | Inr (snap, n) \<Rightarrow> Some (Inr snap, s))
                | Inl e \<Rightarrow> create)
             else create)"

record JoinTableCommand =
  jc_GameId :: string
  jc_Seat :: int
  jc_BuyIn :: int
  jc_CommandId :: string

definition rpc_JoinTable ::
  "'s Store \<Rightarrow> (string \<Rightarrow> uuid option) \<Rightarrow> uuid \<Rightarrow> (nat \<Rightarrow> timestamp) \<Rightarrow> (nat \<Rightarrow> bool) \<Rightarrow> Principal option
     \<Rightarrow> JoinTableCommand \<Rightarrow> (uuid \<times> 'a) list \<times> 's \<Rightarrow> ((codes + GameState) \<times> (uuid \<times> 'a) list \<times> 's) option" where
  "rpc_JoinTable S parse newID now ctxErr ctx req = (\<lambda>(sessions, s).
     case parse (jc_GameId req) of
       None \<Rightarrow> Some (Inl InvalidArgument, sessions, s)
     | Some gameID \<Rightarrow>
         (case actorFromContext ctx of
            Inl e \<Rightarrow> Some (Inl e, sessions, s)
          | Inr userID \<Rightarrow>
              if jc_BuyIn req \<le> 0 then Some (Inl InvalidArgument, sessions, s)
              else if jc_Seat req < 0 then Some (Inl InvalidArgument, sessions, s)
              else
                (case parseOrGenUUID parse newID (jc_CommandId req) of
                   None \<Rightarrow> Some (Inl InvalidArgument, sessions, s)
                 | Some cmdID \<Rightarrow>
                     let input = \<lparr>ji_CommandID = cmdID, ji_GameID = gameID, ji_UserID = userID,
                           ji_Seat = jc_Seat req, ji_BuyIn = jc_BuyIn req\<rparr>
                     in map_option (\<lambda>(r, s1). case r of
                            Inl e \<Rightarrow> (Inl (mapLobbyError e), sessions, s1)
                          | Inr res \<Rightarrow> (Inr (jr_GameState res), Invalidate gameID sessions, s1))
                          (retryOnConcurrentWrite ctxErr (\<lambda>k. JoinTable S (now k) input) 3
                             (Inl (NewError ''no attempt'')) s))))"

definition rpc_LeaveTable ::
  "'s Store \<Rightarrow> (string \<Rightarrow> uuid option) \<Rightarrow> uuid \<Rightarrow> (nat \<Rightarrow> timestamp) \<Rightarrow> (nat \<Rightarrow> bool) \<Rightarrow> Principal option
     \<Rightarrow> string \<Rightarrow> string \<Rightarrow> (uuid \<times> 'a) list \<times> 's \<Rightarrow> ((codes + int) \<times> (uuid \<times> 'a) list \<times> 's) option" where
  "rpc_LeaveTable S parse newID now ctxErr ctx game_id command_id = (\<lambda>(sessions, s).
     case parse game_id of
       None \<Rightarrow> Some (Inl InvalidArgument, sessions, s)
     | Some gameID \<Rightarrow>
         (case actorFromContext ctx of
            Inl e \<Rightarrow> Some (Inl e, sessions, s)
          | Inr userID \<Rightarrow>
              (case parseOrGenUUID parse newID command_id of
                 None \<Rightarrow> Some (Inl InvalidArgument, sessions, s)
               | Some cmdID \<Rightarrow>
                   map_option (\<lambda>(r, s1). case r of
                       Inl e \<Rightarrow> (Inl (mapLobbyError e), sessions, s1)
                     | Inr res \<Rightarrow> (Inr (lr_CashOutAmount res), Invalidate gameID sessions, s1))
                     (retryOnConcurrentWrite ctxErr
                        (\<lambda>k. LeaveTable S (now k) \<lparr>li_CommandID = cmdID, li_GameID = gameID, li_UserID = userID\<rparr>) 3
                        (Inl (NewError ''no attempt'')) s))))"

definition rpc_unimplemented :: "codes + GameState" where
  "rpc_unimplemented = Inl Unimplemented"

section \<open>A playing session\<close>

text \<open>The router's \<open>Submit\<close> for a session whose loop is waiting for a command.\<close>

datatype submit_err = ErrInboxFull | SubmitFailed go_err

definition Router_Submit ::
  "'s Store \<Rightarrow> (string \<Rightarrow> uuid option) \<Rightarrow> (int \<Rightarrow> string) \<Rightarrow> 'd Dealer \<Rightarrow> 'd \<Rightarrow> timestamp \<Rightarrow> uuid \<Rightarrow> string
     \<Rightarrow> PlayerCommand \<Rightarrow> (uuid \<times> GameState \<times> 'd) list \<times> 's
     \<Rightarrow> ((submit_err + GameEvent list) \<times> (uuid \<times> GameState \<times> 'd) list \<times> 's) option" where
  "Router_Submit S parse uuid_New dlr newDealer now gameID actor cmd = (\<lambda>(sessions, s).
     map_option (\<lambda>(r, sessions1). case r of
         Inl e \<Rightarrow> (Inl (SubmitFailed e), sessions1, s)
       | Inr (st, d) \<Rightarrow>
           (case process S parse uuid_New dlr gameID now st actor cmd s d of
              (res, s1, d1) \<Rightarrow>
                (map_sum SubmitFailed id res,
                 AList.update gameID (after_result st res, d1) sessions1, s1)))
       (getOrLoad S newDealer gameID s sessions))"

definition shouldSuppressFromActor :: "GameEvent \<Rightarrow> string \<Rightarrow> bool" where
  "shouldSuppressFromActor ev actor =
     (case evt_Event ev of
        Some (EvHoleCardsRevealed pid c1 c2) \<Rightarrow> pid \<noteq> actor
      | _ \<Rightarrow> False)"

definition buildRejection :: "PlayerCommand \<Rightarrow> string \<Rightarrow> string \<Rightarrow> GameEvent" where
  "buildRejection cmd code reason =
     \<lparr>evt_GameId = cmd_GameId cmd, evt_Sequence = 0, evt_OccurredAt = None, evt_CausedByCommandId = [],
      evt_StateVersion = 0, evt_Event = Some (EvCommandRejected (cmd_CommandId cmd) code reason)\<rparr>"

text \<open>What a stream receives, how it ends; it takes \<open>k\<close> more messages before \<open>Send\<close> fails. \<open>errText\<close> is
  the text of an error, with \<^const>\<open>None\<close> for that of \<open>uuid.Parse\<close>.\<close>

datatype received = Recv PlayerCommand | RecvEOF | RecvError

datatype stream_end = Waiting | Ended | StreamError | Status codes

definition deliver ::
  "GameEvent list \<Rightarrow> nat \<Rightarrow> 'w \<Rightarrow> (nat \<Rightarrow> (GameEvent list \<times> stream_end \<times> 'w) option)
     \<Rightarrow> (GameEvent list \<times> stream_end \<times> 'w) option" where
  "deliver evs k w rest =
     (if length evs \<le> k then map_option (apfst ((@) evs)) (rest (k - length evs))
      else Some (take k evs, StreamError, w))"

primrec play_loop ::
  "(string \<Rightarrow> uuid option) \<Rightarrow> (go_err option \<Rightarrow> string)
     \<Rightarrow> (uuid \<Rightarrow> string \<Rightarrow> PlayerCommand \<Rightarrow> 'w \<Rightarrow> ((submit_err + GameEvent list) \<times> 'w) option)
     \<Rightarrow> string \<Rightarrow> received list \<Rightarrow> nat \<Rightarrow> 'w \<Rightarrow> (GameEvent list \<times> stream_end \<times> 'w) option" where
  "play_loop parse errText submit actor [] k w = Some ([], Waiting, w)"
| "play_loop parse errText submit actor (r # rs) k w =
     (case r of
        RecvEOF \<Rightarrow> Some ([], Ended, w)
      | RecvError \<Rightarrow> Some ([], StreamError, w)
      | Recv cmd \<Rightarrow>
          (case parse (cmd_GameId cmd) of
             None \<Rightarrow> deliver [buildRejection cmd ''INVALID_GAME_ID'' (errText None)] k w
                       (\<lambda>k'. play_loop parse errText submit actor rs k' w)
           | Some g \<Rightarrow>
               (case submit g actor cmd w of
                  None \<Rightarrow> None
                | Some (Inl ErrInboxFull, w1) \<Rightarrow> Some ([], Status ResourceExhausted, w1)
                | Some (Inl (SubmitFailed e), w1) \<Rightarrow>
                    deliver [buildRejection cmd ''INTERNAL'' (errText (Some e))] k w1
                      (\<lambda>k'. play_loop parse errText submit actor rs k' w1)
                | Some (Inr events, w1) \<Rightarrow>
                    deliver (filter (\<lambda>ev. \<not> shouldSuppressFromActor ev actor) events) k w1
                      (\<lambda>k'. play_loop parse errText submit actor rs k' w1))))"

definition PlaySession ::
  "(string \<Rightarrow> uuid option) \<Rightarrow> (go_err option \<Rightarrow> string)
     \<Rightarrow> (uuid \<Rightarrow> string \<Rightarrow> PlayerCommand \<Rightarrow> 'w \<Rightarrow> ((submit_err + GameEvent list) \<times> 'w) option)
     \<Rightarrow> Principal option \<Rightarrow> received list \<Rightarrow> nat \<Rightarrow> 'w \<Rightarrow> (GameEvent list \<times> stream_end \<times> 'w) option" where
  "PlaySession parse errText submit ctx rs k w =
     (case actorFromContext ctx of
        Inl e \<Rightarrow> Some ([], Status e, w)
      | Inr u \<Rightarrow> play_loop parse errText submit u rs k w)"

section \<open>Lemmas\<close>

lemma deliver_sends:
  assumes "deliver evs k w rest = Some (out, e, w')" and "\<forall>ev \<in> set evs. P ev"
    and "\<And>k' out' e' w''. rest k' = Some (out', e', w'') \<Longrightarrow> \<forall>ev \<in> set out'. P ev"
  shows "\<forall>ev \<in> set out. P ev"
proof (cases "length evs \<le> k")
  case True
  then obtain x where "rest (k - length evs) = Some x" "out = evs @ fst x"
    using assms(1) by (auto simp: deliver_def apfst_def map_prod_def split: prod.splits)
  then show ?thesis using assms(2,3) by (cases x) auto
qed (use assms(1,2) in \<open>auto simp: deliver_def dest: in_set_takeD\<close>)

text \<open>A stream never shows its player the hole cards of somebody else.\<close>

lemma rejection_shown: "\<not> shouldSuppressFromActor (buildRejection cmd c t) actor"
  by (simp add: shouldSuppressFromActor_def buildRejection_def)

lemma play_loop_private:
  "play_loop parse errText submit actor rs k w = Some (out, e, w')
   \<Longrightarrow> \<forall>ev \<in> set out. \<not> shouldSuppressFromActor ev actor"
proof (induction rs arbitrary: k w out e w')
  case (Cons r rs)
  have sent: "\<forall>ev \<in> set out. \<not> shouldSuppressFromActor ev actor"
    if "deliver evs k w1 (\<lambda>k'. play_loop parse errText submit actor rs k' w1) = Some (out, e, w')"
      "\<forall>ev \<in> set evs. \<not> shouldSuppressFromActor ev actor" for evs w1
    using that(1,2) by (rule deliver_sends) (rule Cons.IH)
  from Cons.prems show ?case
    by (auto split: received.split_asm option.split_asm sum.split_asm submit_err.split_asm prod.split_asm
        dest!: sent simp: rejection_shown)
qed simp

lemma retry_last:
  assumes "retryOnConcurrentWrite ctxErr fn (Suc k) r0 s = Some (r, s')" and "P s"
    and "\<And>j s e s'. P s \<Longrightarrow> fn j s = Some (Inl e, s') \<Longrightarrow> P s'"
  shows "\<exists>j s1. P s1 \<and> fn j s1 = Some (r, s')"
  using assms(1,2)
proof (induction k arbitrary: s r0)
  case 0
  then have "fn 0 s = Some (r, s')" by (auto split: option.splits if_splits)
  then show ?case using "0.prems"(2) by blast
next
  case (Suc k)
  then obtain r1 s1 where f: "fn (Suc k) s = Some (r1, s1)" by (auto split: option.splits)
  show ?case
  proof (cases "\<not> concurrent_write r1 \<or> ctxErr (Suc k)")
    case True
    then show ?thesis using Suc.prems f by auto
  next
    case False
    then obtain e where "r1 = Inl e" by (auto simp: concurrent_write_def split: sum.splits)
    then have "P s1" using assms(3) Suc.prems(2) f by blast
    then show ?thesis using Suc.IH [of r1 s1] Suc.prems(1) f False by simp
  qed
qed

section \<open>A join and the session loaded after it\<close>

lemma pg_good_tx: "pg_good s \<Longrightarrow> pg_good (tx_view s)"
  by (simp add: pg_good_def tx_view_def tables_def)

lemma pg_log_tx: "pg_idle s \<Longrightarrow> pg_log (tx_view s) = pg_log s"
  by (rule pg_log_cong) (simp add: idle_tables)

lemma join_debit_pg:
  assumes "join_debit (pgStore parse) now input st n seat v = (Inr r, s2)"
    and "pg_good v" and "open_tx v \<noteq> None" and "parse (ji_GameID input) = Some (ji_GameID input)"
    and "Suc n < max_seq" and above: "\<forall>e \<in> set (pg_log v (ji_GameID input)). evt_Sequence e \<le> n"
  shows "\<exists>evt row rows. jr_GameState r = Apply st evt \<and> evt_Sequence evt = Suc n \<and> er_envelope row = evt \<and> row_ok row
    \<and> evt_StateVersion evt = add64 (Version st) 1
    \<and> evt_Event evt = Some (EvPlayerJoined (ji_UserID input) (ji_UserID input) seat (ji_BuyIn input))
    \<and> er_game_id row = ji_GameID input \<and> faults s2 = faults v
    \<and> tables s2 = (tables v)\<lparr>user_snapshots := rows, game_events := game_events (tables v) @ [row]\<rparr>
    \<and> (\<forall>q \<in> set (game_events (tables v)). er_game_id q = ji_GameID input \<longrightarrow> er_sequence q < er_sequence row)"
proof -
  let ?g = "ji_GameID input"
  let ?evt = "BuildPlayerJoinedEvent now ?g (Suc n) (ji_CommandID input) (ji_UserID input) (ji_UserID input)
    seat (ji_BuyIn input) (add64 (Version st) 1)"
  have sq: "to_uint64 (int n + 1) = Suc n" using assms(5) by (simp add: to_uint64_def max_seq_def)
  obtain snap s1 where deb: "pg_DebitUserBalance (ji_UserID input) (ji_BuyIn input) v = (Inr snap, s1)"
    using assms(1) by (auto simp: join_debit_def pgStore_def split: prod.splits sum.splits)
  have app: "pg_AppendEvent parse ?evt s1 = (None, s2)" and r: "jr_GameState r = Apply st ?evt"
    using assms(1) deb sq by (auto simp: join_debit_def pgStore_def Let_def split: prod.splits option.splits)
  obtain rows where t1: "tables s1 = (tables v)\<lparr>user_snapshots := rows\<rparr>"
    using deb by (auto simp: pg_DebitUserBalance_def set_balance_def Let_def split: option.splits if_splits)
  obtain row t where row: "eventToParams parse ?evt = Inr row" "insert_event row (tables s1) = Inr t" "tables s2 = t"
    using app by (auto simp: pg_AppendEvent_def split: sum.splits if_splits)
  have w: "wrap64 (int (Suc n)) = int (Suc n)"
    using assms(5) by (subst wrap64_id) (auto simp: in64_def max_seq_def)
  have rk: "er_envelope row = ?evt" "er_game_id row = ?g" "er_sequence row = int (Suc n)" "evt_Sequence ?evt = Suc n"
    "evt_StateVersion ?evt = add64 (Version st) 1"
    "evt_Event ?evt = Some (EvPlayerJoined (ji_UserID input) (ji_UserID input) seat (ji_BuyIn input))"
    using row(1) assms(4) w
    by (auto simp: eventToParams_def BuildPlayerJoinedEvent_def Let_def split: if_splits option.splits)
  have "row_ok row" using rk assms(5) by (simp add: row_ok_def)
  moreover have "t = (tables v)\<lparr>user_snapshots := rows, game_events := game_events (tables v) @ [row]\<rparr>"
    using row(2) t1 by (simp add: insert_event_def split: if_splits)
  moreover have "er_sequence q < er_sequence row" if "q \<in> set (game_events (tables v))" "er_game_id q = ?g" for q
  proof -
    have "q \<in> set (rows_of_game ?g v)" using that by (simp add: rows_set)
    then have "row_ok q" "er_envelope q \<in> set (pg_log v ?g)" using rows_ok [OF assms(2)] by (auto simp: pg_log_def)
    then have "evt_Sequence (er_envelope q) \<le> n" "er_sequence q = int (evt_Sequence (er_envelope q))"
      using above by (auto simp: row_ok_def)
    then show ?thesis using rk(3) by simp
  qed
  moreover have "faults s2 = faults v"
    using deb app by (auto simp: pg_DebitUserBalance_def set_balance_def pg_AppendEvent_def Let_def
        split: option.splits if_splits sum.splits)
  ultimately show ?thesis using r rk row(3) by blast
qed

lemma log_after_join:
  assumes "pg_good v" and "tables s' = (tables v)\<lparr>user_snapshots := rows, game_events := game_events (tables v) @ [row]\<rparr>"
    and "committed s' = tables s'" and "row_ok row" and "er_game_id row = g"
    and less: "\<forall>q \<in> set (game_events (tables v)). er_game_id q = g \<longrightarrow> er_sequence q < er_sequence row"
  shows "pg_good s' \<and> pg_log s' g = pg_log v g @ [er_envelope row]"
proof -
  have "rows_of_game g s' = rows_of_game g v @ [row]"
    using rows_of_game_append [of "[row]" g "game_events (tables v)"] assms(2,5) less by (simp add: rows_of_game_def)
  moreover have "pg_good s'"
    using assms by (fastforce simp: pg_good_def)
  ultimately show ?thesis by (simp add: pg_log_def)
qed

lemma JoinTable_body:
  assumes "JoinTable (pgStore parse) now input s = Some (Inr r, s')" and "faults s = []"
  obtains (new) s2 where "join_new (pgStore parse) now input (tx_view s) = Some (Inr r, s2)"
      "s' = s2\<lparr>committed := tables s2, open_tx := None\<rparr>"
    | (replay) e where "join_replay (pgStore parse) input e (tx_view s) = Some (Inr r, tx_view s)"
      "s' = s\<lparr>open_tx := None\<rparr>" "FindEventByCommandID (pgStore parse) (ji_CommandID input) (ji_GameID input) (tx_view s) = Inr e"
proof -
  let ?S = "pgStore parse" and ?v = "tx_view s"
  have b: "Begin ?S s = (None, ?v)" using assms(2) by (simp add: pgStore_def pg_Begin_def tx_view_def down_def)
  obtain s2 where fn: "(if ji_CommandID input \<noteq> uuid_Nil then
         (case FindEventByCommandID ?S (ji_CommandID input) (ji_GameID input) ?v of
            Inr existing \<Rightarrow> join_replay ?S input existing ?v
          | Inl e \<Rightarrow>
              if errors_Is e ErrNotFound then join_new ?S now input ?v
              else Some (Inl (Wrap ''idempotency check: '' e), ?v))
       else join_new ?S now input ?v) = Some (Inr r, s2)"
    and c: "Commit ?S s2 = (None, s')"
    using pg_cash.WithTx_Inr [OF assms(1) [unfolded JoinTable_def] b] by blast
  have s': "s' = s2\<lparr>committed := tables s2, open_tx := None\<rparr>"
    using c by (simp add: pgStore_def pg_Commit_def split: if_splits)
  consider (n) "join_new ?S now input ?v = Some (Inr r, s2)" | (o) e where "join_replay ?S input e ?v = Some (Inr r, s2)"
      "FindEventByCommandID ?S (ji_CommandID input) (ji_GameID input) ?v = Inr e"
    using fn by (auto split: if_splits sum.splits)
  then show thesis
  proof cases
    case n
    then show thesis using s' by (rule that(1))
  next
    case (o e)
    then have "s2 = ?v" by (blast dest: join_replay_reads)
    then show thesis using that(2) o s' by (simp add: tx_view_def tables_def)
  qed
qed

lemma pg_snapshot_tables: "tables s' = (tables s)\<lparr>user_snapshots := rows, game_events := evs\<rparr> \<or> tables s' = tables s
  \<Longrightarrow> faults s' = faults s \<Longrightarrow> pg_GetLatestSnapshot g s' = pg_GetLatestSnapshot g s"
  by (auto simp: pg_GetLatestSnapshot_def down_def)

text \<open>A new join appends one event to the log of the game; nothing else of the log changes.\<close>

lemma join_new_appends:
  assumes "join_new (pgStore parse) now input (tx_view s) = Some (Inr r, s2)"
    and s': "s' = s2\<lparr>committed := tables s2, open_tx := None\<rparr>"
    and idle: "pg_idle s" and good: "pg_good s" and g: "parse (ji_GameID input) = Some (ji_GameID input)"
    and ld: "LoadState (pgStore parse) (ji_GameID input) (tx_view s) = Some (Inr (st, n))"
    and "Suc n < max_seq" and below: "\<forall>e \<in> set (pg_log s (ji_GameID input)). evt_Sequence e \<le> n"
  shows "\<exists>evt seat. jr_GameState r = Apply st evt \<and> evt_Sequence evt = Suc n \<and> evt_StateVersion evt = add64 (Version st) 1
    \<and> evt_Event evt = Some (EvPlayerJoined (ji_UserID input) (ji_UserID input) seat (ji_BuyIn input))
    \<and> pg_good s' \<and> pg_log s' (ji_GameID input) = pg_log s (ji_GameID input) @ [evt]
    \<and> (\<forall>g. pg_GetLatestSnapshot g s' = pg_GetLatestSnapshot g s) \<and> faults s' = faults s"
proof -
  let ?g = "ji_GameID input" and ?v = "tx_view s"
  have ts: "tables s' = tables s2" "committed s' = tables s2" "faults s' = faults s2" by (simp_all add: s' tables_def)
  obtain seat where jd: "join_debit (pgStore parse) now input st n seat ?v = (Inr r, s2)"
    using assms(1) ld by (auto simp: join_new_def split: sum.splits)
  obtain evt row rows where d: "jr_GameState r = Apply st evt" "evt_Sequence evt = Suc n"
    "er_envelope row = evt" "row_ok row" "er_game_id row = ?g" "faults s2 = faults ?v"
    "tables s2 = (tables ?v)\<lparr>user_snapshots := rows, game_events := game_events (tables ?v) @ [row]\<rparr>"
    "\<forall>q \<in> set (game_events (tables ?v)). er_game_id q = ?g \<longrightarrow> er_sequence q < er_sequence row"
    "evt_StateVersion evt = add64 (Version st) 1"
    "evt_Event evt = Some (EvPlayerJoined (ji_UserID input) (ji_UserID input) seat (ji_BuyIn input))"
    using join_debit_pg [OF jd pg_good_tx [OF good] open_tx_view g assms(7) below [folded pg_log_tx [OF idle]]] by blast
  have t: "tables s' = (tables ?v)\<lparr>user_snapshots := rows, game_events := game_events (tables ?v) @ [row]\<rparr>"
    using ts d(7) by simp
  then have "pg_good s'" "pg_log s' ?g = pg_log s ?g @ [evt]"
    using log_after_join [OF pg_good_tx [OF good] _ _ d(4,5,8), of s' rows] ts d(3) pg_log_tx [OF idle] by simp_all
  moreover have f: "faults s' = faults s" using ts(3) d(6) by (simp add: tx_view_def)
  moreover have "pg_GetLatestSnapshot g s' = pg_GetLatestSnapshot g s" for g
    by (rule pg_snapshot_tables [OF disjI1 f]) (use t idle in \<open>simp add: idle_tables\<close>)
  ultimately show ?thesis using d(1,2,9,10) by blast
qed

lemma join_then_load:
  assumes j: "JoinTable (pgStore parse) now input s = Some (Inr r, s')"
    and idle: "pg_idle s" and good: "pg_good s" and up: "faults s = []"
    and g: "parse (ji_GameID input) = Some (ji_GameID input)"
    and snap: "pg_GetLatestSnapshot (ji_GameID input) s = Inr (st0, n0)"
    and room: "Suc n0 < max_seq" "Suc (latest_seq (pg_log s (ji_GameID input))) < max_seq"
  shows "router_loadState (pgStore parse) (ji_GameID input) s' = Some (Inr (jr_GameState r))"
proof -
  let ?g = "ji_GameID input" and ?S = "pgStore parse" and ?v = "tx_view s"
  let ?l = "pg_log s ?g"
  let ?n = "if after n0 ?l = [] then n0 else latest_seq ?l"
  have reads: "\<forall>n lim. \<exists>evs. GetEventsForGame ?S g n lim x = Inr evs" if "faults x = []" for g and x :: Db
    using that by (simp add: pgStore_def pg_GetEventsForGame_def down_def)
  have snapshot: "GetLatestSnapshot ?S g x = pg_GetLatestSnapshot g x" for g x by (simp add: pgStore_def)
  have snapv: "pg_GetLatestSnapshot ?g ?v = Inr (st0, n0)"
    unfolding snap [symmetric] by (rule pg_snapshot_tables) (use idle in \<open>simp_all add: idle_tables\<close>)
  note load = pg.LoadState_result [OF pg_good_tx [OF good] snapv [folded snapshot] _ reads, unfolded pg_log_tx [OF idle]]
  have ld: "LoadState ?S ?g ?v = Some (Inr (applyAll st0 (after n0 ?l), ?n))"
    using load(1) room(1) up by simp
  have below: "\<forall>e \<in> set (pg_log s ?g). evt_Sequence e \<le> ?n"
    using latest_ge [OF pg_log_sorted [OF good]]
    by (auto simp: after_def filter_empty_conv not_less)
  show ?thesis
  proof (cases rule: JoinTable_body [OF j up])
    case (2 e)
    have "jr_GameState r = applyAll st0 (after n0 ?l)" "s' = s"
      using 2 ld idle by (auto simp: join_replay_def pg_idle_def split: sum.splits)
    then show ?thesis
      using pg.LoadState_result(2) [OF good, of parse ?g st0 n0] room(1) reads [OF up] snap snapshot by simp
  next
    case (1 s2)
    have small: "Suc ?n < max_seq" using room by simp
    obtain evt where d: "jr_GameState r = Apply (applyAll st0 (after n0 ?l)) evt" "evt_Sequence evt = Suc ?n"
      and lg: "pg_good s'" "pg_log s' ?g = ?l @ [evt]" and same: "\<forall>g. pg_GetLatestSnapshot g s' = pg_GetLatestSnapshot g s"
      "faults s' = faults s"
      using join_new_appends [OF 1 idle good g ld small below] by blast
    have "n0 < Suc ?n"
    proof (cases "after n0 ?l = []")
      case False
      then obtain e where "e \<in> set ?l" "n0 < evt_Sequence e" by (auto simp: after_def filter_empty_conv)
      then show ?thesis using latest_ge [OF pg_log_sorted [OF good]] False by fastforce
    qed simp
    then have af: "after n0 (pg_log s' ?g) = after n0 ?l @ [evt]" using d(2) by (simp add: lg(2) after_def)
    have "pg_GetLatestSnapshot ?g s' = Inr (st0, n0)" using snap same(1) by simp
    then show ?thesis
      using pg.LoadState_result(2) [OF lg(1), of parse ?g st0 n0] room(1) reads [of s'] d(1) same(2) up af snapshot
      by (simp add: applyAll_def)
  qed
qed

text \<open>The state a join answers is the loaded one, with the player who joined.\<close>

lemma join_answer:
  assumes "JoinTable (pgStore parse) now input s = Some (Inr r, s')" and "faults s = []"
    and "LoadState (pgStore parse) (ji_GameID input) (tx_view s) = Some (Inr (st, n))"
  shows "jr_GameState r = st \<or> (\<exists>evt seat. jr_GameState r = Apply st evt
    \<and> evt_Event evt = Some (EvPlayerJoined (ji_UserID input) (ji_UserID input) seat (ji_BuyIn input)))"
proof (cases rule: JoinTable_body [OF assms(1,2)])
  case (2 e)
  then show ?thesis using assms(3) by (auto simp: join_replay_def split: sum.splits)
next
  case (1 s2)
  obtain seat where "join_debit (pgStore parse) now input st n seat (tx_view s) = (Inr r, s2)"
    using 1(1) assms(3) by (auto simp: join_new_def split: sum.splits)
  then show ?thesis
    by (auto simp: join_debit_def BuildPlayerJoinedEvent_def Let_def split: prod.splits sum.splits option.splits)
qed

lemma joined_others:
  "evt_Event evt = Some (EvPlayerJoined u w seat b) \<Longrightarrow> q \<noteq> u \<Longrightarrow> player (Apply st evt) q = player st q"
  by (simp add: Apply_def apply_payload_def apply_PlayerJoined_def player_def update_conv')

section \<open>Attempts\<close>

definition clock_and_faults :: "Db \<Rightarrow> timestamp \<times> string list" where
  "clock_and_faults s = (db_now s, faults s)"

lemma clock_and_faults_upd [simp]:
  "clock_and_faults (upd_tables f s) = clock_and_faults s" "clock_and_faults (tx_view s) = clock_and_faults s"
  by (auto simp: clock_and_faults_def upd_tables_def tx_view_def split: option.splits)

lemma join_new_env:
  assumes "join_new (pgStore parse) now input s = Some (r, s')"
  shows "clock_and_faults s' = clock_and_faults s"
proof -
  have "clock_and_faults s2 = clock_and_faults s"
    if d: "join_debit (pgStore parse) now input st n seat s = (q, s2)" for st n seat q s2
  proof -
    obtain x s1 where x: "pg_DebitUserBalance (ji_UserID input) (ji_BuyIn input) s = (x, s1)" by fastforce
    then have "clock_and_faults s1 = clock_and_faults s"
      by (auto simp: pg_DebitUserBalance_def set_balance_def Let_def split: if_splits option.splits)
    moreover have "pg_AppendEvent parse e s1 = (y, s2) \<Longrightarrow> clock_and_faults s2 = clock_and_faults s1" for e y
      by (auto simp: pg_AppendEvent_def split: if_splits sum.splits)
    ultimately show ?thesis using d x
      by (auto simp: join_debit_def pgStore_def Let_def split: sum.split_asm prod.split_asm option.split_asm)
  qed
  moreover obtain x where "LoadState (pgStore parse) (ji_GameID input) s = Some x"
    using assms by (auto simp: join_new_def)
  ultimately show ?thesis using assms by (cases x) (auto simp: join_new_def split: sum.split_asm)
qed

lemma WithTx_env:
  assumes "WithTx (pgStore parse) fn s = Some (r, s')"
    and "\<And>x s2. fn (tx_view s) = Some (x, s2) \<Longrightarrow> clock_and_faults s2 = clock_and_faults s"
  shows "clock_and_faults s' = clock_and_faults s"
proof (cases "down ''Begin'' s")
  case False
  then have b: "Begin (pgStore parse) s = (None, tx_view s)" by (simp add: pgStore_def pg_Begin_def tx_view_def)
  obtain x s2 where fn: "fn (tx_view s) = Some (x, s2)" using assms(1) b by (auto simp: WithTx_def)
  then show ?thesis using assms(2) [OF fn] assms(1) b
    by (cases x) (auto simp: WithTx_def pgStore_def pg_Commit_def pg_Rollback_def clock_and_faults_def
        split: prod.splits option.splits if_splits)
qed (use assms(1) in \<open>auto simp: WithTx_def pgStore_def pg_Begin_def\<close>)

text \<open>A join that fails leaves the whole state as it was.\<close>

lemma join_fails_same:
  assumes "JoinTable (pgStore parse) now input s = Some (Inl e, s')" and "pg_idle s"
  shows "s' = s"
proof -
  have "clock_and_faults s' = clock_and_faults s"
  proof (rule WithTx_env [OF assms(1) [unfolded JoinTable_def]])
    fix x s2
    show "(if ji_CommandID input \<noteq> uuid_Nil
         then case FindEventByCommandID (pgStore parse) (ji_CommandID input) (ji_GameID input) (tx_view s) of
                Inl e \<Rightarrow> if errors_Is e ErrNotFound then join_new (pgStore parse) now input (tx_view s)
                  else Some (Inl (Wrap ''idempotency check: '' e), tx_view s)
              | Inr existing \<Rightarrow> join_replay (pgStore parse) input existing (tx_view s)
         else join_new (pgStore parse) now input (tx_view s)) = Some (x, s2) \<Longrightarrow> clock_and_faults s2 = clock_and_faults s"
      using join_new_env [of parse now input "tx_view s" x s2] join_replay_reads [of "pgStore parse" input _ "tx_view s"]
      by (fastforce split: if_split_asm sum.split_asm)
  qed
  then show ?thesis using join_fails [OF assms(2,1)] assms(2)
    by (cases s; cases s') (simp add: clock_and_faults_def pg_idle_def)
qed

text \<open>A request that succeeds made one join that succeeded, on the tables the request began with.\<close>

definition request_input :: "JoinTableCommand \<Rightarrow> uuid \<Rightarrow> uuid \<Rightarrow> uuid \<Rightarrow> JoinTableInput" where
  "request_input req cmdID g u = \<lparr>ji_CommandID = cmdID, ji_GameID = g, ji_UserID = u,
     ji_Seat = jc_Seat req, ji_BuyIn = jc_BuyIn req\<rparr>"

lemma rpc_join:
  assumes "rpc_JoinTable (pgStore parse) parse newID now ctxErr ctx req (sessions, s) = Some (Inr st, sessions', s')"
    and "pg_idle s" and "faults s = []" and "parse (jc_GameId req) = Some g"
  obtains k cmdID u r where "JoinTable (pgStore parse) (now k) (request_input req cmdID g u) s = Some (Inr r, s')"
    "jr_GameState r = st" "sessions' = Invalidate g sessions" "actorFromContext ctx = Inr u"
    "parseOrGenUUID parse newID (jc_CommandId req) = Some cmdID"
proof -
  obtain u where u: "actorFromContext ctx = Inr u"
    using assms(1,4) by (auto simp: rpc_JoinTable_def split: sum.splits)
  obtain cmdID where c: "parseOrGenUUID parse newID (jc_CommandId req) = Some cmdID"
    using assms(1,4) u by (auto simp: rpc_JoinTable_def split: option.splits if_splits)
  let ?fn = "\<lambda>k. JoinTable (pgStore parse) (now k) (request_input req cmdID g u)"
  let ?run = "retryOnConcurrentWrite ctxErr ?fn 3 (Inl (NewError ''no attempt'')) s"
  have rpc: "map_option (\<lambda>(r, s1). case r of Inl e \<Rightarrow> (Inl (mapLobbyError e), sessions, s1)
      | Inr res \<Rightarrow> (Inr (jr_GameState res), Invalidate g sessions, s1)) ?run = Some (Inr st, sessions', s')"
    using assms(1,4) u c by (simp add: rpc_JoinTable_def request_input_def Let_def split: if_split_asm)
  then obtain res s2 where "?run = Some (res, s2)" by (cases ?run) auto
  with rpc obtain r where r: "?run = Some (Inr r, s')" "jr_GameState r = st" "sessions' = Invalidate g sessions"
    by (cases res) auto
  have "\<exists>j s1. s1 = s \<and> ?fn j s1 = Some (Inr r, s')"
    by (rule retry_last [where P = "\<lambda>x. x = s", OF r(1) [unfolded numeral_3_eq_3] refl])
      (use join_fails_same assms(2) in blast)
  then show thesis using that r u c by blast
qed

section \<open>Properties\<close>

text \<open>C22. Who has joined is at the table: after a successful request, be it the first attempt, a retry
  after a conflict or the replay of a command that was processed before, the session that the
  router loads next for the game starts from exactly the state the request answered.\<close>

theorem joined_in_next_session:
  assumes "rpc_JoinTable (pgStore parse) parse newID now ctxErr ctx req (sessions, s) = Some (Inr st, sessions', s')"
    and "pg_idle s" and "pg_good s" and "faults s = []" and "parse (jc_GameId req) = Some g" and "parse g = Some g"
    and "pg_GetLatestSnapshot g s = Inr (st0, n0)"
    and "Suc n0 < max_seq" and "Suc (latest_seq (pg_log s g)) < max_seq"
  shows "getOrLoad (pgStore parse) newDealer g s' sessions'
    = Some (Inr (st, newDealer), AList.update g (st, newDealer) sessions')"
proof -
  obtain k cmdID u r where j: "JoinTable (pgStore parse) (now k) (request_input req cmdID g u) s = Some (Inr r, s')"
    "jr_GameState r = st" "sessions' = Invalidate g sessions"
    by (rule rpc_join [OF assms(1,2,4,5)])
  have in_g: "ji_GameID (request_input req cmdID g u) = g" by (simp add: request_input_def)
  have "router_loadState (pgStore parse) g s' = Some (Inr st)"
    using join_then_load [OF j(1) assms(2-4), unfolded in_g, OF assms(6-9)] j(2) by simp
  moreover have "map_of sessions' g = None" by (simp add: j(3) Invalidate_def delete_conv)
  ultimately show ?thesis by (simp add: getOrLoad_def)
qed

text \<open>C30. What a join shows: the answer is the whole state of the game. Whoever sits down during a hand,
  or sends an old join again, reads the hole cards of every other player in it, which the stream
  of a playing session holds back.\<close>

theorem join_shows_hole_cards:
  assumes "rpc_JoinTable (pgStore parse) parse newID now ctxErr (Some p) req (sessions, s) = Some (Inr st, sessions', s')"
    and "pg_idle s" and "faults s = []" and "parse (jc_GameId req) = Some g"
    and "LoadState (pgStore parse) g (tx_view s) = Some (Inr (st1, n))"
    and "q \<noteq> pr_UserID p" and "player st1 q = Some x" and "HoleCard_1 x = Some c1" and "HoleCard_2 x = Some c2"
  shows "\<exists>y. player st q = Some y \<and> HoleCard_1 y = Some c1 \<and> HoleCard_2 y = Some c2
    \<and> shouldSuppressFromActor (mk_event (EvHoleCardsRevealed q c1 c2)) (pr_UserID p)"
proof -
  obtain k cmdID u r where j: "JoinTable (pgStore parse) (now k) (request_input req cmdID g u) s = Some (Inr r, s')"
    "jr_GameState r = st" "actorFromContext (Some p) = Inr u"
    by (rule rpc_join [OF assms(1-4)])
  have in_g: "ji_GameID (request_input req cmdID g u) = g" "ji_UserID (request_input req cmdID g u) = pr_UserID p"
    using j(3) by (simp_all add: request_input_def actorFromContext_def)
  have "player st q = player st1 q"
    using join_answer [OF j(1) assms(3), unfolded in_g, OF assms(5)] j(2) joined_others assms(6) by fastforce
  then show ?thesis using assms(6-9) by (simp add: shouldSuppressFromActor_def mk_event_def)
qed

section \<open>A join in the middle of a hand\<close>

text \<open>\<open>ann\<close> sits down at the river of \<open>river_state\<close>.\<close>

definition river_db :: Db where
  "river_db = \<lparr>committed = empty_tables\<lparr>
       game_snapshots := [\<lparr>sr_game_id = ''g'', sr_sequence = 1, sr_hand_number = 0, sr_state = river_state\<rparr>],
       user_snapshots := [user_balance ''ann'' 1000]\<rparr>,
     open_tx = None, db_now = 0, faults = []\<rparr>"

definition ann_request :: JoinTableCommand where
  "ann_request = \<lparr>jc_GameId = ''g'', jc_Seat = 0, jc_BuyIn = 300, jc_CommandId = []\<rparr>"

definition ann_principal :: Principal where
  "ann_principal = \<lparr>pr_UserID = ''ann'', pr_ExternalID = [], pr_DisplayName = [], pr_Email = []\<rparr>"

lemma river_db_facts:
  "pg_idle river_db" "faults river_db = []" "pg_good river_db"
  "pg_GetLatestSnapshot ''g'' river_db = Inr (river_state, 1)" "pg_log river_db ''g'' = []"
  by (simp_all add: river_db_def pg_idle_def pg_good_def tables_def empty_tables_def pg_GetLatestSnapshot_def down_def
      to_uint64_def pg_log_def rows_of_game_def)

lemma river_loads: "LoadState (pgStore Some) ''g'' (tx_view river_db) = Some (Inr (river_state, 1))"
proof -
  have "GetLatestSnapshot (pgStore Some) ''g'' (tx_view river_db) = Inr (river_state, 1)"
    by (simp add: pgStore_def pg_GetLatestSnapshot_def tx_view_def tables_def down_def river_db_def to_uint64_def)
  moreover have "pg_log (tx_view river_db) ''g'' = []"
    using river_db_facts(5) pg_log_tx [OF river_db_facts(1)] by simp
  ultimately show ?thesis
    using pg.LoadState_result(1) [OF pg_good_tx [OF river_db_facts(3)], of Some "''g''" river_state 1]
      river_db_facts(2)
    by (simp add: max_seq_def after_def applyAll_def pgStore_def pg_GetEventsForGame_def down_def)
qed

lemma ann_sits_down:
  "\<exists>st s'. rpc_JoinTable (pgStore Some) Some ''c'' (\<lambda>_. 5) (\<lambda>_. False) (Some ann_principal) ann_request
     ([(''g'', (river_state, NewFixedDealer [0..<52]))], river_db) = Some (Inr st, [], s')"
proof -
  let ?in = "request_input ann_request ''c'' ''g'' ''ann''"
  let ?out = "case join_seat river_state ?in of Inl e \<Rightarrow> (Inl e, tx_view river_db)
        | Inr seat \<Rightarrow> join_debit (pgStore Some) 5 ?in river_state 1 seat (tx_view river_db)"
  have "\<not> isl (fst ?out)" "faults (snd ?out) = []" by code_simp+
  then obtain r s2 where out: "?out = (Inr r, s2)" "faults s2 = []" by (cases ?out; cases "fst ?out") auto
  have g: "ji_GameID ?in = ''g''" "ji_CommandID ?in = ''c''" by (simp_all add: request_input_def)
  have new: "join_new (pgStore Some) 5 ?in (tx_view river_db) = Some (Inr r, s2)"
    using river_loads out(1) unfolding join_new_def g by (simp del: One_nat_def)
  have none: "FindEventByCommandID (pgStore Some) ''c'' ''g'' (tx_view river_db) = Inl ErrNotFound"
    by (simp add: pgStore_def pg_FindEventByCommandID_def rows_of_game_def tx_view_def tables_def down_def river_db_def
        empty_tables_def)
  have j: "JoinTable (pgStore Some) 5 ?in river_db = Some (Inr r, snd (pg_Commit s2))"
    using new none out(2) river_db_facts(2) unfolding JoinTable_def g
    by (simp add: WithTx_def errors_Is_def uuid_Nil_def)
      (simp add: pgStore_def pg_Begin_def pg_Commit_def down_def tx_view_def errors_Is_def)
  then have "retryOnConcurrentWrite (\<lambda>_. False) (\<lambda>k. JoinTable (pgStore Some) 5 ?in) 3 (Inl (NewError ''no attempt'')) river_db
      = Some (Inr r, snd (pg_Commit s2))"
    by (simp add: numeral_3_eq_3 concurrent_write_def)
  then show ?thesis
    by (simp add: rpc_JoinTable_def ann_request_def ann_principal_def actorFromContext_def parseOrGenUUID_def
        request_input_def Invalidate_def)
qed

theorem joined_in_next_session_witness:
  "\<exists>st s'. rpc_JoinTable (pgStore Some) Some ''c'' (\<lambda>_. 5) (\<lambda>_. False) (Some ann_principal) ann_request
     ([(''g'', (river_state, NewFixedDealer [0..<52]))], river_db) = Some (Inr st, [], s')
     \<and> getOrLoad (pgStore Some) (NewFixedDealer []) ''g'' s' []
       = Some (Inr (st, NewFixedDealer []), [(''g'', (st, NewFixedDealer []))])"
proof -
  obtain st s' where r: "rpc_JoinTable (pgStore Some) Some ''c'' (\<lambda>_. 5) (\<lambda>_. False) (Some ann_principal) ann_request
     ([(''g'', (river_state, NewFixedDealer [0..<52]))], river_db) = Some (Inr st, [], s')"
    using ann_sits_down by blast
  have "Some (jc_GameId ann_request) = Some ''g''" by (simp add: ann_request_def)
  then show ?thesis
    using joined_in_next_session [OF r river_db_facts(1,3,2) _ refl river_db_facts(4), of "NewFixedDealer []"] r
    by (auto simp: max_seq_def latest_seq_def river_db_facts(5))
qed

theorem join_shows_hole_cards_witness:
  "\<exists>st sessions' s' y. rpc_JoinTable (pgStore Some) Some ''c'' (\<lambda>_. 5) (\<lambda>_. False) (Some ann_principal) ann_request
     ([(''g'', (river_state, NewFixedDealer [0..<52]))], river_db) = Some (Inr st, sessions', s')
     \<and> player st ''b'' = Some y \<and> HoleCard_1 y = Some 12 \<and> HoleCard_2 y = Some 25"
proof -
  obtain st s' where r: "rpc_JoinTable (pgStore Some) Some ''c'' (\<lambda>_. 5) (\<lambda>_. False) (Some ann_principal) ann_request
     ([(''g'', (river_state, NewFixedDealer [0..<52]))], river_db) = Some (Inr st, [], s')"
    using ann_sits_down by blast
  have g: "Some (jc_GameId ann_request) = Some ''g''" "''b'' \<noteq> pr_UserID ann_principal"
    by (simp_all add: ann_request_def ann_principal_def)
  have "(case player river_state ''b'' of None \<Rightarrow> False | Some x \<Rightarrow> HoleCard_1 x = Some 12 \<and> HoleCard_2 x = Some 25)"
    by code_simp
  then obtain x where x: "player river_state ''b'' = Some x" "HoleCard_1 x = Some 12" "HoleCard_2 x = Some 25"
    by (auto split: option.split_asm)
  show ?thesis
    using join_shows_hole_cards [OF r river_db_facts(1,2) g(1) river_loads g(2) x] r by blast
qed

end
