(* ===== verification/Table.thy ===== *)
theory Table
  imports Cards Server
begin

text \<open>
  The life of a table, from its creation by the service through commands, joins and leaves: every state
  it can get into, and what holds in all of them. The session stores what it applies, the lobby writes
  beside it; both start from the state of the log.
\<close>

section \<open>Histories\<close>

text \<open>\<open>cfg\<close> is the configuration the table was created with. The states are those a session holds in memory
  and those the log describes. What a session stores was computed from the state it has in memory,
  which need not be the state the events are applied to: between the commit of the lobby and \<open>Invalidate\<close>
  the log is ahead of the session. A command answered from the log applies its event again in memory;
  the rule leaves out the ids of joins and leaves. Joins and leaves are the bodies of the
  transactions of the lobby, on the state they load. Any store and dealer will do.\<close>

definition seating_event :: "EventPayload \<Rightarrow> bool" where
  \<comment> \<open>the events that move somebody or set the configuration\<close>
  "seating_event e \<longleftrightarrow> (case e of EvTableCreated cfg \<Rightarrow> True | EvPlayerJoined pid uid seat b \<Rightarrow> True
     | EvPlayerLeft pid c r \<Rightarrow> True | EvPlayerKicked pid r \<Rightarrow> True | EvSeatChanged pid a b \<Rightarrow> True | _ \<Rightarrow> False)"

inductive table_state :: "'s Store \<Rightarrow> 'd Dealer \<Rightarrow> CashGameConfig \<Rightarrow> GameState \<Rightarrow> bool"
  for S :: "'s Store" and dlr :: "'d Dealer" and cfg where
  created: "validateCashGameConfig (Some cfg) = None \<Longrightarrow> table_state S dlr cfg (initial_state gid (Some cfg))"
| played: "table_state S dlr cfg st \<Longrightarrow> session_step S parse uuid_New dlr g w (Stored evs) w'
    \<Longrightarrow> table_state S dlr cfg (applyAll st evs)"
| answered: "table_state S dlr cfg (w_state w) \<Longrightarrow> session_step S parse uuid_New dlr g w (Replayed evs) w'
    \<Longrightarrow> all_events (\<lambda>p. \<not> seating_event p) evs \<Longrightarrow> table_state S dlr cfg (w_state w')"
| joined: "table_state S dlr cfg st \<Longrightarrow> LoadState S (ji_GameID input) s = Some (Inr (st, n))
    \<Longrightarrow> join_new S now input s = Some (Inr r, s') \<Longrightarrow> table_state S dlr cfg (jr_GameState r)"
| left: "table_state S dlr cfg st \<Longrightarrow> LoadState S (li_GameID lin) s = Some (Inr (st, n))
    \<Longrightarrow> leave_new S now lin s = Some (Inr lr, s') \<Longrightarrow> table_state S dlr cfg (lr_GameState lr)"

section \<open>Seats\<close>

definition seats :: "GameState \<Rightarrow> (string \<times> int) list" where
  "seats st = map (\<lambda>x. (fst x, Seat (snd x))) (Players st)"

definition seats_ok :: "CashGameConfig \<Rightarrow> GameState \<Rightarrow> bool" where
  "seats_ok cfg st \<longleftrightarrow> Config st = Some cfg \<and> distinct (map fst (seats st)) \<and> distinct (map snd (seats st))
     \<and> (\<forall>x \<in> set (map snd (seats st)). 1 \<le> x \<and> x \<le> MaxSeats cfg)"

definition same_table :: "GameState \<Rightarrow> GameState \<Rightarrow> bool" where
  "same_table st st' \<longleftrightarrow> seats st' = seats st \<and> Config st' = Config st"

lemma same_table_refl [simp, intro]: "same_table st st"
  and same_table_trans: "same_table st s \<Longrightarrow> same_table s s' \<Longrightarrow> same_table st s'"
  by (simp_all add: same_table_def)

lemma view_map_entry:
  "(\<And>p. map_of m k = Some p \<Longrightarrow> f (g p) = f p) \<Longrightarrow>
   map (\<lambda>x. (fst x, f (snd x))) (AList.map_entry k g m) = map (\<lambda>x. (fst x, f (snd x))) m"
  by (induction m) auto

lemma same_upd_player:
  "(\<And>p. Seat (f p) = Seat p) \<Longrightarrow> same_table st s \<Longrightarrow> same_table st (upd_player pid f s)"
  by (simp add: same_table_def seats_def view_map_entry)

lemma same_upd_all: "(\<And>p. Seat (f p) = Seat p) \<Longrightarrow> same_table st s \<Longrightarrow> same_table st (upd_all_players f s)"
  by (auto simp: same_table_def seats_def values_upd_def case_prod_beta comp_def)

lemma same_upd_hand: "same_table st s \<Longrightarrow> same_table st (upd_hand k s)"
  by (simp add: same_table_def seats_def)

lemma same_fields: "Players s' = Players s \<Longrightarrow> Config s' = Config s \<Longrightarrow> same_table st s \<Longrightarrow> same_table st s'"
  by (simp add: same_table_def seats_def)

lemma same_with:
  assumes "\<And>p h. Seat (fst (f p h)) = Seat p" and "same_table st s"
  shows "same_table st (with_player_and_hand pid f s)"
proof (cases "CurrentHand s")
  case (Some h)
  show ?thesis
  proof (cases "player s pid")
    case (Some p)
    then have "same_table s (upd_player pid (\<lambda>_. fst (f p h)) (s\<lparr>CurrentHand := Some (snd (f p h))\<rparr>))"
      using view_map_entry [of "Players s" pid Seat "\<lambda>_. fst (f p h)"] assms(1)
      by (simp add: same_table_def seats_def player_def)
    then show ?thesis using assms(2) same_table_trans
      by (simp add: with_player_and_hand_Some [OF \<open>CurrentHand s = Some h\<close> Some])
  qed (simp add: with_player_and_hand_def Some assms(2))
qed (simp add: with_player_and_hand_def assms(2))

lemma same_award: "same_table st s \<Longrightarrow> same_table st (award_winners a b ws s)"
  by (induction ws arbitrary: a s) (simp_all add: same_upd_player)

lemma same_reset: "same_table st s \<Longrightarrow> same_table st (resetStreetState s)"
  unfolding resetStreetState_def Let_def by (intro same_upd_hand same_upd_all) simp_all

lemmas same_intros = same_upd_player same_upd_all same_upd_hand same_with same_award same_reset

lemma same_started: "same_table st (apply_HandStarted x1 x2 x3 x4 x5 x6 x7 t st)"
proof -
  let ?g = "\<lambda>p. p\<lparr>IsFolded := False, IsAllIn := False, CurrentBet := 0,
                   TotalCommittedThisHand := 0, HoleCard_1 := None, HoleCard_2 := None\<rparr>"
  have s: "same_table st (upd_all_players ?g st)" by (rule same_upd_all) simp_all
  have p: "Players (apply_HandStarted x1 x2 x3 x4 x5 x6 x7 t st) = Players (upd_all_players ?g st)"
    "Config (apply_HandStarted x1 x2 x3 x4 x5 x6 x7 t st) = Config (upd_all_players ?g st)"
    by (simp_all add: apply_HandStarted_def Let_def split: option.split)
  show ?thesis by (rule same_fields [OF p s])
qed

lemma same_payload:
  assumes "\<not> seating_event e"
  shows "same_table st (apply_payload e t st)"
proof (cases e)
  case (EvHandStarted x1 x2 x3 x4 x5 x6 x7)
  then show ?thesis by (simp add: same_started)
next
  case (EvPlayerAllIn x1 x2)
  then show ?thesis
    by (auto simp: apply_PlayerAllIn_def all_in_raise_def Let_def intro!: same_intros split: option.split)
next
  case (EvPotAwarded x1 x2 x3 x4)
  then show ?thesis by (simp add: apply_PotAwarded_def Let_def same_intros)
next
  case (EvHandEnded n)
  then show ?thesis by (auto simp: apply_HandEnded_def Let_def intro: same_fields)
qed (use assms in \<open>auto simp: seating_event_def handler_defs apply_BlindPosted_def apply_AntePosted_def
      apply_StraddlePosted_def apply_PlayerCalled_def apply_PlayerBet_def apply_PlayerRaised_def
      reopen_action_def Let_def intro!: same_intros intro: same_fields\<close>)

lemma same_Apply: "evt_Event e = Some p \<Longrightarrow> \<not> seating_event p \<Longrightarrow> same_table st (Apply st e)"
proof -
  assume "evt_Event e = Some p" and n: "\<not> seating_event p"
  then obtain v where "Apply st e = apply_payload p (evt_OccurredAt e) (st\<lparr>Version := v\<rparr>)"
    using Apply_Some by blast
  moreover have "same_table st (st\<lparr>Version := v\<rparr>)" by (rule same_fields [OF _ _ same_table_refl]) simp_all
  ultimately show ?thesis using same_table_trans [OF _ same_payload [OF n]] by simp
qed

lemma same_applyAll: "all_events (\<lambda>p. \<not> seating_event p) evs \<Longrightarrow> same_table st (applyAll st evs)"
proof (induction evs arbitrary: st)
  case (Cons e evs)
  then obtain p where "same_table st (Apply st e)" "all_events (\<lambda>p. \<not> seating_event p) evs"
    using same_Apply by auto
  then show ?case using Cons.IH same_table_trans by simp
qed simp

lemma engine_not_seating: "engine_event p \<Longrightarrow> \<not> seating_event p"
  by (cases p) (simp_all add: engine_event_def action_event_def dealing_event_def keeps_fresh_def seating_event_def)

section \<open>What a session stores\<close>

lemma stamp_payloads: "map evt_Event (stamp_from g now sq evs) = map evt_Event evs"
  by (induction g now sq evs rule: stamp_from.induct) (simp_all add: Let_def)

lemma tag_payloads: "map evt_Event (tag c evs) = map evt_Event evs"
  by (simp add: tag_def)

lemma persist_payloads:
  "persist S g now what evs s = (Inr evs', s1) \<Longrightarrow> map evt_Event evs' = map evt_Event evs"
  by (auto simp: persist_def stampEvents_def stamp_payloads split: sum.splits prod.splits option.splits if_splits)

lemma runAdvance_emits: "runAdvance uuid dlr now st d = (Inr evs, d') \<Longrightarrow> all_events engine_event evs"
  unfolding runAdvance_def by (rule run_steps_emits)

definition session_event :: "EventPayload \<Rightarrow> bool" where
  "session_event p \<longleftrightarrow> engine_event p \<or> p = EvTableResumed"

lemma session_events: "all_events engine_event evs \<Longrightarrow> all_events session_event evs"
  by (erule all_events_mono) (simp add: session_event_def)

lemma persist_emits:
  "persist S g now what (tag c es) s = (Inr evs, s') \<Longrightarrow> all_events P es \<Longrightarrow> all_events P evs"
  using persist_payloads tag_payloads all_events_payloads by metis

lemma handleResume_emits:
  assumes "handleResume S uuid_New dlr g now st cmd s d = (Inr evs, s', d')"
  shows "all_events session_event evs"
proof (cases "GameState.Status st = GAME_STATUS_PAUSED")
  case True
  then obtain adv d1 what where a: "runAdvance uuid_New dlr now (Apply st (mk_event EvTableResumed)) d = (Inr adv, d1)"
    "persist S g now what (tag (cmd_CommandId cmd) (mk_event EvTableResumed # adv)) s = (Inr evs, s')"
    using assms by (auto simp: handleResume_def Let_def split: prod.splits sum.splits)
  have "all_events session_event (mk_event EvTableResumed # adv)"
    using session_events [OF runAdvance_emits [OF a(1)]] by (simp add: session_event_def)
  then show ?thesis by (rule persist_emits [OF a(2)])
next
  case False
  then obtain r what where a: "persist S g now what (tag (cmd_CommandId cmd)
      [toCommandRejectedEvent r (GameId st) (cmd_CommandId cmd)]) s = (Inr evs, s')"
    using assms by (auto simp: handleResume_def Let_def split: prod.splits)
  have "all_events session_event [toCommandRejectedEvent r (GameId st) (cmd_CommandId cmd)]"
    using rejected_payload by (fastforce simp: session_event_def engine_event_def)
  then show ?thesis by (rule persist_emits [OF a])
qed

lemma process_emits:
  assumes "process S parse uuid_New dlr g now st actor cmd s d = (Inr evs, s', d')"
    and "already_seen S parse g cmd s = None"
  shows "all_events session_event evs"
proof (cases "is_resume cmd")
  case True
  then show ?thesis using assms handleResume_emits by (simp add: process_def)
next
  case False
  then obtain es d1 where "HandleCommand uuid_New now st cmd actor dlr d = (Inr es, d1)"
    "persist S g now ''events: '' (tag (cmd_CommandId cmd) es) s = (Inr evs, s')"
    using assms by (auto simp: process_def split: prod.splits sum.splits)
  then show ?thesis using session_events [OF HandleCommand_emits] persist_emits by metis
qed

lemma step_stored:
  assumes "session_step S parse uuid_New dlr g w (Stored evs) w'"
  shows "w_state w' = applyAll (w_state w) evs \<and> all_events session_event evs"
  using assms
proof cases
  case (command out now actor cmd)
  have l: "fst out = Inr evs" "already_seen S parse g cmd (w_store w) = None"
    using command(3) by (auto simp: label_of_def split: sum.splits if_splits)
  obtain s1 d1 where o: "out = (Inr evs, s1, d1)" using l(1) by (metis prod.collapse)
  then have "all_events session_event evs" using command(2) process_emits l(2) by metis
  then show ?thesis using command(1) by (simp add: o finish_def after_result_def Let_def)
next
  case (deadline t now out)
  have l: "fst out = Inr evs" using deadline(1) by (auto simp: label_of_def split: sum.splits if_splits)
  then have "evs = [] \<or> (\<exists>es d1 s1. runAdvance uuid_New dlr now (w_state w) (w_dealer w) = (Inr es, d1)
      \<and> persist S g now ''proactive advance: '' es (w_store w) = (Inr evs, s1))"
    using deadline by (auto simp: runProactiveAdvance_def split: prod.splits sum.splits if_splits)
  then have "all_events session_event evs"
    using session_events [OF runAdvance_emits] persist_payloads all_events_payloads by (metis all_events_simps(1))
  moreover obtain s1 d1 where o: "out = (Inr evs, s1, d1)" using l by (metis prod.collapse)
  ultimately show ?thesis using deadline by (simp add: o finish_def after_result_def Let_def)
qed

text \<open>A command answered from the log changes the state in memory and nothing else.\<close>

lemma step_replayed:
  assumes "session_step S parse uuid_New dlr g w (Replayed evs) w'"
  shows "w_state w' = applyAll (w_state w) evs \<and> w_store w' = w_store w \<and> w_dealer w' = w_dealer w"
  using assms
proof cases
  case (command out now actor cmd)
  obtain ex where seen: "already_seen S parse g cmd (w_store w) = Some ex" "fst out = Inr evs"
    using command(3) by (auto simp: label_of_def split: sum.splits if_splits)
  then have "out = (Inr ex, w_store w, w_dealer w)" using command(2) by (simp add: process_def)
  then show ?thesis using command(1) seen(2) by (simp add: finish_def after_result_def Let_def)
next
  case (deadline t now out)
  then show ?thesis by (auto simp: label_of_def split: sum.splits)
qed

section \<open>Everybody has a seat\<close>

lemma seats_ok_same: "seats_ok cfg st \<Longrightarrow> same_table st st' \<Longrightarrow> seats_ok cfg st'"
  by (simp add: seats_ok_def same_table_def)

lemma map_update:
  "k \<notin> fst ` set m \<Longrightarrow> map f (AList.update k v m) = map f m @ [f (k, v)]"
  by (induction m) auto

lemma seats_update_same:
  assumes "distinct (map fst m)" and "distinct (map (h \<circ> snd) m)" and "h v \<notin> set (map (h \<circ> snd) m)"
  shows "distinct (map fst (AList.update k v m)) \<and> distinct (map (h \<circ> snd) (AList.update k v m))
    \<and> set (map (h \<circ> snd) (AList.update k v m)) \<subseteq> insert (h v) (set (map (h \<circ> snd) m))"
  using assms
proof (induction m)
  case (Cons x m)
  obtain i p where x: "x = (i, p)" by fastforce
  show ?case
  proof (cases "i = k")
    case False
    have "fst ` set (AList.update k v m) \<subseteq> insert k (fst ` set m)" using dom_update [of k v m] by auto
    then show ?thesis using Cons False by (auto simp: x)
  qed (use Cons.prems in \<open>auto simp: x\<close>)
qed simp

lemma seats_ok_joined:
  assumes "seats_ok cfg st" and "1 \<le> seat" and "seat \<le> MaxSeats cfg" and "seat_free st seat"
  shows "seats_ok cfg (apply_PlayerJoined pid uid seat b st)"
proof -
  let ?v = "empty_PlayerState\<lparr>PlayerId := pid, Seat := seat, SeatStatus := SEAT_STATUS_OCCUPIED, Stack := b\<rparr>"
  have m: "map snd (seats s) = map (Seat \<circ> snd) (Players s)" "map fst (seats s) = map fst (Players s)" for s
    by (simp_all add: seats_def comp_def)
  have "seat \<notin> set (map (Seat \<circ> snd) (Players st))"
    using assms(4) by (auto simp: seat_free_def case_prod_beta)
  then show ?thesis
    using seats_update_same [of "Players st" Seat ?v pid] assms(1-3)
    unfolding seats_ok_def m by (fastforce simp: apply_PlayerJoined_def)
qed

lemma seats_ok_left: "seats_ok cfg st \<Longrightarrow> seats_ok cfg (apply_PlayerLeft pid st)"
  by (auto simp: seats_ok_def seats_def apply_PlayerLeft_def AList.delete_eq comp_def distinct_map_filter)

lemma join_new_Inr:
  assumes "LoadState S (ji_GameID input) s = Some (Inr (st, n))" and "join_new S now input s = Some (Inr r, s')"
  shows "\<exists>seat evt. join_seat st input = Inr seat \<and> jr_GameState r = Apply st evt
    \<and> evt_Event evt = Some (EvPlayerJoined (ji_UserID input) (ji_UserID input) seat (ji_BuyIn input))"
proof -
  obtain seat where seat: "join_seat st input = Inr seat" and "join_debit S now input st n seat s = (Inr r, s')"
    using assms by (auto simp: join_new_def split: sum.splits)
  then obtain sq v where "jr_GameState r = Apply st (BuildPlayerJoinedEvent now (ji_GameID input) sq
      (ji_CommandID input) (ji_UserID input) (ji_UserID input) seat (ji_BuyIn input) v)"
    by (auto simp: join_debit_def Let_def split: prod.splits sum.splits option.splits)
  then show ?thesis using seat by (auto simp: BuildPlayerJoinedEvent_def)
qed

lemma leave_new_Inr:
  assumes "LoadState S (li_GameID input) s = Some (Inr (st, n))" and "leave_new S now input s = Some (Inr r, s')"
  shows "\<exists>pid p. lr_GameState r = applyAll st (leave_events now input st n pid p)"
proof -
  obtain pid p s1 where "leave_credit S input st (Stack p) (leave_events now input st n pid p) s1 = (Inr r, s')"
    using assms by (auto simp: leave_new_def Let_def split: prod.splits option.splits)
  then have "lr_GameState r = applyAll st (leave_events now input st n pid p)"
    by (auto simp: leave_credit_def split: prod.splits sum.splits if_splits)
  then show ?thesis by blast
qed

lemma seats_ok_left_event:
  assumes "seats_ok cfg st" and "evt_Event e = Some (EvPlayerLeft pid c r)"
  shows "seats_ok cfg (Apply st e)"
proof -
  obtain v where "Apply st e = apply_PlayerLeft pid (st\<lparr>Version := v\<rparr>)"
    using Apply_Some [OF assms(2)] by auto
  moreover have "seats_ok cfg (st\<lparr>Version := v\<rparr>)" using assms(1) by (simp add: seats_ok_def seats_def)
  ultimately show ?thesis by (simp add: seats_ok_left)
qed

lemma table_seats: "table_state S dlr cfg st \<Longrightarrow> seats_ok cfg st \<and> MaxSeats cfg \<le> 10"
proof (induction rule: table_state.induct)
  case (created gid)
  then show ?case
    by (auto simp: seats_ok_def seats_def initial_state_def validateCashGameConfig_def split: if_splits)
next
  case (played st parse uuid_New g w evs w')
  have "all_events (\<lambda>p. \<not> seating_event p) evs"
    using step_stored [OF played(2)] engine_not_seating
    by (auto simp: session_event_def seating_event_def elim!: all_events_mono)
  then show ?case using played(3) seats_ok_same [OF _ same_applyAll] by simp
next
  case (answered w parse uuid_New g evs w')
  have "w_state w' = applyAll (w_state w) evs" using step_replayed [OF answered(2)] by blast
  then show ?case using answered(3,4) seats_ok_same [OF _ same_applyAll] by simp
next
  case (joined st input s n now r s')
  obtain seat evt where j: "join_seat st input = Inr seat" "jr_GameState r = Apply st evt"
    "evt_Event evt = Some (EvPlayerJoined (ji_UserID input) (ji_UserID input) seat (ji_BuyIn input))"
    using join_new_Inr [OF joined(2,3)] by blast
  obtain v where v: "Apply st evt = apply_PlayerJoined (ji_UserID input) (ji_UserID input) seat (ji_BuyIn input) (st\<lparr>Version := v\<rparr>)"
    using Apply_Some [OF j(3)] by auto
  have "seats_ok cfg (st\<lparr>Version := v\<rparr>)" "seat_free (st\<lparr>Version := v\<rparr>) seat" "1 \<le> seat" "seat \<le> MaxSeats cfg"
    using joined(4) join_seat_facts [OF j(1)] by (auto simp: seats_ok_def seats_def seat_free_def get_cfg_def)
  then show ?case unfolding j(2) v using joined(4) by (simp add: seats_ok_joined)
next
  case (left st lin s n now lr s')
  obtain pid p where r: "lr_GameState lr = applyAll st (leave_events now lin st n pid p)"
    using leave_new_Inr [OF left(2,3)] by blast
  have fold: "seats_ok cfg (Apply st (BuildAutoFoldEvent now g sq c pid v))" for g sq c v
    using left(4) seats_ok_same [OF _ same_Apply [of _ "EvPlayerFolded pid"]]
    by (simp add: BuildAutoFoldEvent_def seating_event_def)
  have gone: "seats_ok cfg s' \<Longrightarrow> seats_ok cfg (Apply s' (BuildPlayerLeftEvent now g sq c pid a v))" for s' g sq c a v
    by (rule seats_ok_left_event [of _ _ _ pid a "''leave_request''"]) (simp_all add: BuildPlayerLeftEvent_def)
  show ?case unfolding r using left(4) fold gone by (simp add: leave_events_def Let_def)
qed

lemma seats_ok_length: "seats_ok cfg st \<Longrightarrow> length (Players st) \<le> nat (MaxSeats cfg)"
proof -
  assume s: "seats_ok cfg st"
  have "length (Players st) = card (set (map snd (seats st)))"
    using s distinct_card [of "map snd (seats st)"] by (simp add: seats_ok_def seats_def)
  also have "\<dots> \<le> card {1..MaxSeats cfg}" using s by (intro card_mono) (auto simp: seats_ok_def)
  finally show ?thesis by simp
qed

text \<open>C5. Everybody at a table has a seat of their own: from the creation of the table by the service on,
  whatever a session stores, also while the lobby is ahead of it, whatever commands it answers from the
  log other than those with the id of a join or a leave, and whoever joins and leaves, no two players
  have the same seat, in memory or in the state of the log, every seat is one of the configuration's,
  and there are never more players than seats. The configuration never changes.\<close>

theorem everyone_has_own_seat:
  assumes "table_state S dlr cfg st"
  shows "Config st = Some cfg \<and> distinct (map (Seat \<circ> snd) (Players st))
    \<and> (\<forall>(pid, p) \<in> set (Players st). 1 \<le> Seat p \<and> Seat p \<le> MaxSeats cfg)
    \<and> int (length (Players st)) \<le> MaxSeats cfg"
proof -
  have s: "seats_ok cfg st" using table_seats [OF assms] by blast
  have "validateCashGameConfig (Some cfg) = None" using assms by induction simp_all
  then have "2 \<le> MaxSeats cfg" by (auto simp: validateCashGameConfig_def split: if_splits)
  then show ?thesis using s seats_ok_length [OF s] by (auto simp: seats_ok_def seats_def comp_def)
qed

text \<open>C4. A table that the service created never runs out of cards: in any state it can get into, with a
  dealer that holds the cards the streets still to come take (as a fresh one does), a command fails
  only when the random source of a shuffle does; and whether or not it fails, the dealer again holds
  the cards that the state it leaves behind will take.\<close>

theorem table_never_lacks_cards:
  assumes "table_state S CryptoDealer cfg st" and "crypto_ok d" and "cards_needed st \<le> length (crypto_rest d)"
    and "HandleCommand uuid_New now st cmd actor CryptoDealer d = (r, d')"
  shows "crypto_ok d' \<and> (case r of
      Inl e \<Rightarrow> (\<exists>m. e = ''advance: shuffle: '' @ m) \<and> cards_needed st \<le> length (crypto_rest d')
    | Inr evs \<Rightarrow> cards_needed (applyAll st evs) \<le> length (crypto_rest d'))"
proof -
  have "length (Players st) \<le> nat (MaxSeats cfg)" "nat (MaxSeats cfg) \<le> 10"
    using table_seats [OF assms(1)] seats_ok_length [of cfg st] by (auto simp: nat_le_iff)
  then have "length (Players st) \<le> 22" by linarith
  from deck_suffices [OF assms(2,3) this assms(4)] show ?thesis by (cases r) simp_all
qed

lemma table_config: "table_state S dlr cfg st \<Longrightarrow> Config st = Some cfg \<and> validateCashGameConfig (Some cfg) = None"
proof -
  have "table_state S dlr cfg st \<Longrightarrow> validateCashGameConfig (Some cfg) = None"
    by (induction rule: table_state.induct)
  then show "table_state S dlr cfg st \<Longrightarrow> ?thesis" using table_seats [of S dlr cfg st] by (simp add: seats_ok_def)
qed

text \<open>C38. What the code does with the id of a join in a command: the session answers with the join from the
  log and applies it to the state in memory again. The user sits where the join says, with the
  whole buy-in in front, whatever happened since: lost chips are back, and a user who had left is back
  as well, on a seat that somebody else may have by then. No chips were paid for it, and the log knows
  nothing of it.\<close>

theorem replayed_join_sits_again:
  assumes "already_seen S parse g cmd (w_store w) = Some [evt]"
    and "evt_Event evt = Some (EvPlayerJoined u uid seat b)" and "distinct (keys (Players (w_state w)))"
  shows "\<exists>w' p. session_step S parse uuid_New dlr g w (Replayed [evt]) w' \<and> w_store w' = w_store w
    \<and> player (w_state w') u = Some p \<and> Seat p = seat \<and> Stack p = b
    \<and> (\<forall>v. v \<noteq> u \<longrightarrow> player (w_state w') v = player (w_state w) v)
    \<and> chips (w_state w') = chips (w_state w) + b - stack_of (w_state w) u"
proof -
  let ?out = "process S parse uuid_New dlr g 0 (w_state w) [] cmd (w_store w) (w_dealer w)"
  let ?w = "finish 0 (w_state w) ?out"
  have out: "?out = (Inr [evt], w_store w, w_dealer w)" using assms(1) by (simp add: process_def)
  have step: "session_step S parse uuid_New dlr g w (Replayed [evt]) ?w"
    by (rule session_step.command [OF refl]) (simp add: out label_of_def assms(1))
  have w: "w_state ?w = Apply (w_state w) evt" "w_store ?w = w_store w"
    using step_replayed [OF step] by (simp_all add: applyAll_def)
  obtain v where v: "Apply (w_state w) evt = apply_PlayerJoined u uid seat b ((w_state w)\<lparr>Version := v\<rparr>)"
    using Apply_Some [OF assms(2)] by auto
  show ?thesis
    using step w join_chips [OF assms(3,2)]
    by (intro exI [of _ ?w]) (simp add: v apply_PlayerJoined_def player_def update_conv')
qed

lemma find_the_one: "filter P xs = [x] \<Longrightarrow> find P xs = Some x"
  by (induction xs) (auto split: if_splits)

text \<open>C39. What the house takes of a hand that ends without a showdown: with a configuration that the service
  accepts and a pot of at most \<open>2 ^ 63 / 10000\<close> chips, the next move of the server announces the
  configured share of the pot as the rake, rounded down and limited by the cap if there is one, which
  is never negative and never more than the pot, and awards the rest to the player who is left. The
  phase plays no part in it: a hand that ends before the flop is raked as well, also when
  \<open>no_flop_no_drop\<close> is set, which says that it is not.\<close>

theorem rake_of_uncontested_hand:
  assumes "Config st = Some cfg" and "validateCashGameConfig (Some cfg) = None" and "CurrentHand st = Some h"
    and "0 \<le> Pot h" and "Pot h \<le> 922337203685477" and "\<not> deadline_passed h now"
    and "filter (in_hand st) (ActionOrder h) = [w]" and "w \<noteq> []"
  shows "let share = Pot h * RakeBps cfg div 10000; rake = (if RakeCap cfg > 0 then min (RakeCap cfg) share else share)
    in 0 \<le> rake \<and> rake \<le> Pot h
      \<and> advance uuid_New dlr now st d = (Inr ((if 0 < rake then [mk_event (EvRakeTaken rake)] else [])
          @ [mk_event (EvPotAwarded (Pot h - rake) [w] [] []), mk_event (EvHandEnded (add64 (HandNumber st) 1))]), d)"
proof -
  let ?share = "Pot h * RakeBps cfg div 10000"
  let ?rake = "if RakeCap cfg > 0 then min (RakeCap cfg) ?share else ?share"
  have c: "0 \<le> RakeBps cfg" "RakeBps cfg \<le> 10000"
    using assms(2) by (auto simp: validateCashGameConfig_def split: if_splits)
  have "Pot h * RakeBps cfg \<le> 922337203685477 * 10000" "0 \<le> Pot h * RakeBps cfg"
    using mult_mono [OF assms(5) c(2)] assms(4) c(1) by auto
  then have fits: "in64 (Pot h * RakeBps cfg)" by (simp add: in64_def)
  define rake where "rake = ?rake"
  have rake: "computeRake (Pot h) (Config st) = rake"
  proof (cases "RakeBps cfg = 0")
    case False
    then show ?thesis using computeRake_value [OF assms(4) _ fits] c assms(1) by (simp add: Let_def rake_def)
  qed (simp add: assms(1) computeRake_def rake_def)
  then have range: "0 \<le> rake" "rake \<le> Pot h"
    using computeRake_range [OF assms(4) c(2) fits] assms(1) by simp_all
  then have sub: "sub64 (Pot h) rake = Pot h - rake"
    using assms(4,5) by (intro sub64_exact) (simp add: in64_def)
  have "nonFoldedCount st = 1" "find (in_hand st) (ActionOrder h) = Some w"
    using assms(3,7) find_the_one [of "in_hand st" "ActionOrder h" w] by (simp_all add: nonFoldedCount_def)
  then have "advance uuid_New dlr now st d = (Inr ((if 0 < rake then [mk_event (EvRakeTaken rake)] else [])
          @ [mk_event (EvPotAwarded (Pot h - rake) [w] [] []), mk_event (EvHandEnded (add64 (HandNumber st) 1))]), d)"
    using assms(3,6,8) by (simp add: advance_def advanceHand_def endHandUncontested_def Let_def rake sub)
  then show ?thesis using range unfolding Let_def rake_def by blast
qed

section \<open>The theorems at work\<close>

text \<open>A new table at which \<open>bob\<close> and then \<open>ann\<close> sit down; each join loads the state from its snapshot.\<close>

definition db_with :: "GameState \<Rightarrow> Db" where
  "db_with st = lobby_db\<lparr>committed := (committed lobby_db)\<lparr>game_snapshots :=
     [\<lparr>sr_game_id = ''g'', sr_sequence = 1, sr_hand_number = 0, sr_state = st\<rparr>],
     user_snapshots := [user_balance ''ann'' 1000, user_balance ''bob'' 700]\<rparr>\<rparr>"

definition sits :: "uuid \<Rightarrow> JoinTableInput" where
  "sits u = \<lparr>ji_CommandID = uuid_Nil, ji_GameID = ''g'', ji_UserID = u, ji_Seat = 0, ji_BuyIn = 300\<rparr>"

definition seated :: "uuid \<Rightarrow> int \<Rightarrow> GameState \<Rightarrow> GameState" where
  "seated u seat st = jr_GameState (projr (fst (join_debit (pgStore Some) 5 (sits u) st 1 seat (db_with st))))"

lemma db_with_loads: "LoadState (pgStore Some) ''g'' (db_with st) = Some (Inr (st, 1))"
proof -
  have "pg_GetLatestSnapshot ''g'' (db_with st) = Inr (st, 1)"
    by (simp add: pg_GetLatestSnapshot_def db_with_def lobby_db_def tables_def down_def to_uint64_def)
  moreover have "pg_GetEventsForGame ''g'' n lim (db_with st) = Inr []" for n lim
    by (simp add: pg_GetEventsForGame_def rows_of_game_def db_with_def lobby_db_def tables_def down_def)
  ultimately show ?thesis by (simp add: LoadState_def load_loop.simps pgStore_def del: One_nat_def)
qed

lemma sits_down:
  assumes "table_state (pgStore Some) dlr cfg st" and "join_seat st (sits u) = Inr seat"
    and "\<not> isl (fst (join_debit (pgStore Some) 5 (sits u) st 1 seat (db_with st)))"
  shows "table_state (pgStore Some) dlr cfg (seated u seat st)"
proof -
  obtain r s' where r: "join_debit (pgStore Some) 5 (sits u) st 1 seat (db_with st) = (Inr r, s')"
    using assms(3) by (metis isl_def obj_sumE prod.collapse)
  have "join_new (pgStore Some) 5 (sits u) (db_with st) = Some (Inr r, s')"
    using db_with_loads assms(2) r by (simp add: join_new_def sits_def del: One_nat_def)
  then have "table_state (pgStore Some) dlr cfg (jr_GameState r)"
    using table_state.joined [OF assms(1), of "sits u" "db_with st" 1 5 r s'] db_with_loads by (simp add: sits_def)
  then show ?thesis by (simp add: seated_def r del: One_nat_def)
qed

definition table_of_two :: GameState where
  "table_of_two = seated ''ann'' 2 (seated ''bob'' 1 (initial_state ''g'' (Some rake_config)))"

lemma two_seated: "table_state (pgStore Some) dlr rake_config table_of_two"
proof -
  let ?st0 = "initial_state ''g'' (Some rake_config)"
  have "validateCashGameConfig (Some rake_config) = None" "join_seat ?st0 (sits ''bob'') = Inr 1"
    "\<not> isl (fst (join_debit (pgStore Some) 5 (sits ''bob'') ?st0 1 1 (db_with ?st0)))"
    "join_seat (seated ''bob'' 1 ?st0) (sits ''ann'') = Inr 2"
    "\<not> isl (fst (join_debit (pgStore Some) 5 (sits ''ann'') (seated ''bob'' 1 ?st0) 1 2 (db_with (seated ''bob'' 1 ?st0))))"
    by code_simp+
  then show ?thesis unfolding table_of_two_def by (intro sits_down table_state.created)
qed

lemma everyone_has_own_seat_witness:
  "map (Seat \<circ> snd) (Players table_of_two) = [1, 2] \<and> distinct (map (Seat \<circ> snd) (Players table_of_two))"
proof -
  have "map (Seat \<circ> snd) (Players table_of_two) = [1, 2]" by code_simp
  then show ?thesis using everyone_has_own_seat [OF two_seated [where dlr = CryptoDealer]] by simp
qed

lemma table_never_lacks_cards_witness:
  "\<exists>evs d'. HandleCommand (\<lambda>_. ''u'') 5 table_of_two (command_of CmdSitOut) ''cat'' CryptoDealer
       (NewCryptoDealer (replicate 51 0)) = (Inr evs, d')
     \<and> cards_needed (applyAll table_of_two evs) = 8 \<and> 8 \<le> length (crypto_rest d')"
proof -
  let ?d = "NewCryptoDealer (replicate 51 0)"
  let ?r = "HandleCommand (\<lambda>_. ''u'') 5 table_of_two (command_of CmdSitOut) ''cat'' CryptoDealer ?d"
  have "isl (fst ?r) = False" "cards_needed (applyAll table_of_two (projr (fst ?r))) = 8" by code_simp+
  then obtain evs d' where r: "?r = (Inr evs, d')" "cards_needed (applyAll table_of_two evs) = 8"
    by (cases ?r; cases "fst ?r") auto
  from table_never_lacks_cards [OF two_seated _ _ r(1)] fresh_dealer_covers r show ?thesis by simp
qed

text \<open>\<open>ann\<close> sat down with the command \<open>k\<close> and left; \<open>bob\<close> has her seat when she sends \<open>k\<close> again.\<close>

definition rejoin_event :: GameEvent where
  "rejoin_event = (mk_event (EvPlayerJoined ''ann'' ''ann'' 1 300))\<lparr>evt_GameId := ''g'', evt_Sequence := 2,
     evt_CausedByCommandId := ''k'', evt_StateVersion := 2\<rparr>"

definition rejoin_world :: "(Db, FixedState) World" where
  "rejoin_world = flop_world\<lparr>w_state := lobby_state, w_store := flop_db\<lparr>committed := empty_tables\<lparr>game_events :=
     [\<lparr>er_game_id = ''g'', er_sequence = 2, er_command_id = Some ''k'', er_hand_id = None,
       er_state_version_after = 2, er_occurred_at = None, er_envelope = rejoin_event\<rparr>]\<rparr>\<rparr>\<rparr>"

lemma replayed_join_sits_again_witness:
  "\<exists>w'. session_step (pgStore Some) Some (\<lambda>_. ''u'') FixedDealer ''g'' rejoin_world (Replayed [rejoin_event]) w'
    \<and> map_option Seat (player (w_state w') ''ann'') = Some 1 \<and> map_option Seat (player (w_state w') ''bob'') = Some 1
    \<and> chips (w_state w') = 800 \<and> chips lobby_state = 500"
proof -
  have f: "already_seen (pgStore Some) Some ''g'' (command_of CmdFold) (w_store rejoin_world) = Some [rejoin_event]"
    "map_option Seat (player lobby_state ''bob'') = Some 1" "chips lobby_state = 500" "stack_of lobby_state ''ann'' = 0"
    by code_simp+
  have st: "w_state rejoin_world = lobby_state" by (simp add: rejoin_world_def)
  have e: "evt_Event rejoin_event = Some (EvPlayerJoined ''ann'' ''ann'' 1 300)" by (simp add: rejoin_event_def)
  have d: "distinct (keys (Players (w_state rejoin_world)))" unfolding st by (rule lobby_facts(3))
  obtain w' p where w: "session_step (pgStore Some) Some (\<lambda>_. ''u'') FixedDealer ''g'' rejoin_world (Replayed [rejoin_event]) w'"
    "player (w_state w') ''ann'' = Some p" "Seat p = 1" "chips (w_state w') = chips lobby_state + 300 - stack_of lobby_state ''ann''"
    "\<forall>v. v \<noteq> ''ann'' \<longrightarrow> player (w_state w') v = player lobby_state v"
    using replayed_join_sits_again [OF f(1) e d, of "\<lambda>_. ''u''" FixedDealer] unfolding st by blast
  have "player (w_state w') ''bob'' = player lobby_state ''bob''" using w(5) by simp
  then show ?thesis using w(1-4) f(2-4) by (intro exI [of _ w']) simp
qed

text \<open>Before the flop everybody has folded to \<open>b\<close>; the table has \<open>no_flop_no_drop\<close> set.\<close>

definition folded_preflop :: GameState where
  "folded_preflop = flop_state\<lparr>CurrentHand := Some (flop_hand\<lparr>Phase := HAND_PHASE_PREFLOP, ActingPlayerId := None, ActionOrder := [''b'']\<rparr>)\<rparr>"

lemma rake_of_uncontested_hand_witness:
  "NoFlopNoDrop rake_config
   \<and> (\<exists>evs. advance (\<lambda>_. ''u'') FixedDealer 5 folded_preflop (NewFixedDealer []) = (Inr evs, NewFixedDealer [])
       \<and> mk_event (EvRakeTaken 19) \<in> set evs \<and> mk_event (EvPotAwarded 361 [''b''] [] []) \<in> set evs)"
proof -
  let ?h = "flop_hand\<lparr>Phase := HAND_PHASE_PREFLOP, ActingPlayerId := None, ActionOrder := [''b'']\<rparr>"
  have c: "Config folded_preflop = Some rake_config" "CurrentHand folded_preflop = Some ?h"
    by (simp_all add: folded_preflop_def flop_state_def)
  have v: "validateCashGameConfig (Some rake_config) = None" "NoFlopNoDrop rake_config"
    "filter (in_hand folded_preflop) (ActionOrder ?h) = [''b'']" "\<not> deadline_passed ?h 5" "Pot ?h = 380"
    "RakeBps rake_config = 500" "RakeCap rake_config = 30"
    by code_simp+
  from rake_of_uncontested_hand [OF c(1) v(1) c(2) _ _ v(4,3), of "\<lambda>_. ''u''" FixedDealer "NewFixedDealer []"] v
  show ?thesis by (simp add: Let_def)
qed

end
