(* ===== verification/Race.thy ===== *)
theory Race
  imports Table
begin

text \<open>
  Two writers of one log: the session of a game, which keeps its state in memory, and the lobby, which
  appends joins and leaves beside it and has the session dropped afterwards. Between the commit of the
  lobby and \<open>Invalidate\<close> the session still runs, on the state it had.
\<close>

section \<open>A step of the session on a log that has moved on\<close>

context event_log begin

text \<open>The session numbers its events after whatever the log holds by then, and computes them without it.\<close>

lemma late_step:
  assumes "session_step S parse uuid_New dlr g w (Stored evs) w'" and "good (w_store w)" and "known g"
    and "in_sync S elog g (w_store w) now_st" and "latest_seq (elog (w_store w) g) + length evs < max_seq"
  shows "elog (w_store w') g = elog (w_store w) g @ evs \<and> w_state w' = applyAll (w_state w) evs
    \<and> good (w_store w') \<and> in_sync S elog g (w_store w') (applyAll now_st evs)"
proof -
  obtain r where r: "Stored evs = label_of None r" "w_state w' = after_result (w_state w) r"
    "(\<exists>now what events. persist S g now what events (w_store w) = (r, w_store w'))
       \<or> (isl r \<and> w_store w' = w_store w) \<or> (r = Inr [] \<and> w_store w' = w_store w)"
    using step_persists [OF assms(1)] by auto
  then have res: "r = Inr evs" "w_state w' = applyAll (w_state w) evs"
    by (auto simp: label_of_def after_result_def split: sum.splits)
  then consider (stored) now what events where "persist S g now what events (w_store w) = (Inr evs, w_store w')"
    | (idle) "evs = []" "w_store w' = w_store w" using r(3) by auto
  then show ?thesis
  proof cases
    case stored
    then show ?thesis using persist_ok [OF assms(2,3) stored assms(5)] in_sync_append [OF assms(4)] res(2) by auto
  next
    case idle
    then show ?thesis using assms res(2) by (simp add: applyAll_def)
  qed
qed

end

section \<open>Who is at the table\<close>

lemma player_keys: "player st u = None \<longleftrightarrow> u \<notin> fst ` set (seats st)"
  by (force simp: player_def seats_def map_of_eq_None_iff)

lemma same_players: "same_table st st' \<Longrightarrow> player st' u = None \<longleftrightarrow> player st u = None"
  by (simp add: player_keys same_table_def)

lemma session_not_seating: "all_events session_event evs \<Longrightarrow> all_events (\<lambda>p. \<not> seating_event p) evs"
  using engine_not_seating by (auto simp: session_event_def seating_event_def elim!: all_events_mono)

section \<open>A join during a command\<close>

lemma in_sync_tx:
  assumes "pg_idle s" and "in_sync (pgStore parse) pg_log g s st"
  shows "in_sync (pgStore parse) pg_log g (tx_view s) st"
proof -
  have "pg_GetLatestSnapshot g (tx_view s) = pg_GetLatestSnapshot g s"
    by (rule pg_snapshot_tables [OF disjI2]) (use assms(1) in \<open>simp_all add: tx_view_def tables_def pg_idle_def\<close>)
  then show ?thesis using assms(2) unfolding in_sync_def pg_log_tx [OF assms(1)] by (simp add: pgStore_def)
qed

lemma join_in_log:
  assumes "pg_idle s" and "pg_good s" and "faults s = []" and g: "parse (ji_GameID input) = Some (ji_GameID input)"
    and "ji_CommandID input = uuid_Nil
      \<or> FindEventByCommandID (pgStore parse) (ji_CommandID input) (ji_GameID input) (tx_view s) = Inl ErrNotFound"
    and sync: "in_sync (pgStore parse) pg_log (ji_GameID input) s st"
    and join: "JoinTable (pgStore parse) now input s = Some (Inr r, s1)"
    and room: "Suc (latest_seq (pg_log s (ji_GameID input))) < max_seq"
  shows "\<exists>evt seat. jr_GameState r = Apply st evt \<and> pg_log s1 (ji_GameID input) = pg_log s (ji_GameID input) @ [evt]
    \<and> evt_Event evt = Some (EvPlayerJoined (ji_UserID input) (ji_UserID input) seat (ji_BuyIn input))
    \<and> pg_good s1 \<and> latest_seq (pg_log s1 (ji_GameID input)) = Suc (latest_seq (pg_log s (ji_GameID input)))
    \<and> in_sync (pgStore parse) pg_log (ji_GameID input) s1 (Apply st evt)"
proof -
  let ?g = "ji_GameID input" and ?S = "pgStore parse" and ?v = "tx_view s"
  let ?n = "latest_seq (pg_log s ?g)"
  obtain st0 n0 where st0: "GetLatestSnapshot ?S ?g s = Inr (st0, n0)" "Version st = int ?n"
    using sync by (auto simp: in_sync_def)
  have snap: "GetLatestSnapshot ?S g x = pg_GetLatestSnapshot g x" for g x by (simp add: pgStore_def)
  from reload_recovers_state [OF pg_good_tx [OF assms(2)] in_sync_tx [OF assms(1) sync]]
  have ld: "LoadState ?S ?g ?v = Some (Inr (st, ?n))" using assms(3) st0(2) by (simp add: tx_view_def)
  have b: "Begin ?S s = (None, ?v)" using assms(3) by (simp add: pgStore_def pg_Begin_def tx_view_def down_def)
  obtain s2 where body: "join_new ?S now input ?v = Some (Inr r, s2)" and c: "Commit ?S s2 = (None, s1)"
    using pg_cash.WithTx_Inr [OF join [unfolded JoinTable_def] b] assms(5)
    by (auto simp: errors_Is_def split: if_splits)
  have s1: "s1 = s2\<lparr>committed := tables s2, open_tx := None\<rparr>"
    using c by (simp add: pgStore_def pg_Commit_def split: if_splits)
  obtain evt seat where e: "jr_GameState r = Apply st evt" "evt_Sequence evt = Suc ?n"
    "evt_StateVersion evt = add64 (Version st) 1"
    "evt_Event evt = Some (EvPlayerJoined (ji_UserID input) (ji_UserID input) seat (ji_BuyIn input))"
    "pg_good s1" "pg_log s1 ?g = pg_log s ?g @ [evt]" "\<forall>g. pg_GetLatestSnapshot g s1 = pg_GetLatestSnapshot g s"
    "faults s1 = faults s"
    using join_new_appends [OF body s1 assms(1,2) g ld room] latest_ge [OF pg_log_sorted [OF assms(2)]] by blast
  have "add64 (Version st) 1 = int (Suc ?n)"
    using room st0(2) by (subst add64_exact) (auto simp: in64_def max_seq_def)
  then have "in_sync ?S pg_log ?g s1 (applyAll st [evt])"
    using e by (intro pg.in_sync_append [OF sync]) (simp_all add: snap numbered_def)
  moreover have "latest_seq (pg_log s1 ?g) = Suc ?n" using e(2,6) by (simp add: latest_seq_def)
  ultimately show ?thesis using e by (auto simp: applyAll_def)
qed

text \<open>C26. What the code does with a command that arrives between the commit of a join and \<open>Invalidate\<close>:
  the session takes the number of its events from the log, so they follow the join and no conflict is
  noticed, but it has computed them from the state in memory, which does not know the player. In
  memory there is no such player afterwards; in the state that the log describes there is.\<close>

theorem session_overlooks_join:
  assumes "pg_idle s" and "pg_good s" and "faults s = []" and "parse g = Some g" and "ji_GameID input = g"
    and "ji_CommandID input = uuid_Nil
      \<or> FindEventByCommandID (pgStore parse) (ji_CommandID input) g (tx_view s) = Inl ErrNotFound"
    and "in_sync (pgStore parse) pg_log g s st" and "player st (ji_UserID input) = None"
    and "JoinTable (pgStore parse) now input s = Some (Inr r, s1)"
    and "session_step (pgStore parse) parse uuid_New dlr g
      \<lparr>w_store = s1, w_dealer = d, w_state = st, w_timer = t\<rparr> (Stored evs) w'"
    and "Suc (latest_seq (pg_log s g)) + length evs < max_seq" and "faults (w_store w') = []"
  shows "\<exists>evt seat loaded. evt_Event evt = Some (EvPlayerJoined (ji_UserID input) (ji_UserID input) seat (ji_BuyIn input))
    \<and> pg_log (w_store w') g = pg_log s g @ evt # evs
    \<and> w_state w' = applyAll st evs \<and> player (w_state w') (ji_UserID input) = None
    \<and> router_loadState (pgStore parse) g (w_store w') = Some (Inr loaded)
    \<and> loaded = applyAll (Apply st evt) evs \<and> player loaded (ji_UserID input) \<noteq> None"
proof -
  let ?w = "\<lparr>w_store = s1, w_dealer = d, w_state = st, w_timer = t\<rparr>" and ?u = "ji_UserID input"
  obtain evt seat where e: "pg_log s1 g = pg_log s g @ [evt]"
    "evt_Event evt = Some (EvPlayerJoined ?u ?u seat (ji_BuyIn input))" "pg_good s1"
    "in_sync (pgStore parse) pg_log g s1 (Apply st evt)" "latest_seq (pg_log s1 g) = Suc (latest_seq (pg_log s g))"
    using join_in_log [where input = input, unfolded assms(5), OF assms(1-4,6,7,9)] assms(11) by auto
  have late: "pg_log (w_store w') g = pg_log s1 g @ evs" "w_state w' = applyAll st evs" "pg_good (w_store w')"
    "in_sync (pgStore parse) pg_log g (w_store w') (applyAll (Apply st evt) evs)"
    using pg.late_step [OF assms(10), of "Apply st evt"] e assms(4,11) by simp_all
  have seats: "same_table x (applyAll x evs)" for x
    using step_stored [OF assms(10)] by (intro same_applyAll session_not_seating) blast
  have "player (Apply st evt) ?u \<noteq> None"
    using Apply_Some [OF e(2), of st] by (auto simp: apply_PlayerJoined_def player_def update_conv')
  then have "player (applyAll (Apply st evt) evs) ?u \<noteq> None" "player (w_state w') ?u = None"
    using same_players [OF seats] assms(8) late(2) by simp_all
  moreover have "router_loadState (pgStore parse) g (w_store w') = Some (Inr (applyAll (Apply st evt) evs))"
    using reload_recovers_state [OF late(3,4) assms(12)] by blast
  ultimately show ?thesis using e(1,2) late(1,2) by auto
qed

section \<open>The theorem at work\<close>

text \<open>\<open>ann\<close> sits down during the hand of \<open>flop_state\<close>, and \<open>a\<close> calls before the session is dropped.\<close>

definition race_db :: Db where
  "race_db = flop_db\<lparr>committed := (committed flop_db)\<lparr>user_snapshots := [user_balance ''ann'' 1000]\<rparr>\<rparr>"

definition race_join :: "(go_err + JoinTableResult) \<times> Db" where
  "race_join = join_debit (pgStore Some) 5 (sits ''ann'') flop_state 1 4 (tx_view race_db)"

definition race_joined :: Db where
  "race_joined = snd (pg_Commit (snd race_join))"

definition race_call :: "(go_err + GameEvent list) \<times> Db \<times> FixedState" where
  "race_call = process (pgStore Some) Some (\<lambda>_. ''u'') FixedDealer ''g'' 5 flop_state ''a''
     (command_of (CmdCall 40)) race_joined (NewFixedDealer [0..<52])"

lemma race_db_facts:
  "pg_idle race_db" "pg_good race_db" "faults race_db = []" "in_sync (pgStore Some) pg_log ''g'' race_db flop_state"
  "latest_seq (pg_log race_db ''g'') = 1"
proof -
  have log: "pg_log race_db = pg_log flop_db" by (rule pg_log_cong) (simp add: race_db_def flop_db_def tables_def)
  have snap: "GetLatestSnapshot (pgStore Some) ''g'' race_db = GetLatestSnapshot (pgStore Some) ''g'' flop_db"
    by (simp add: pgStore_def pg_GetLatestSnapshot_def race_db_def flop_db_def tables_def down_def)
  show "pg_idle race_db" "faults race_db = []" by (simp_all add: race_db_def flop_db_def pg_idle_def)
  show "pg_good race_db" using flop_db_facts(1) by (simp add: pg_good_def race_db_def flop_db_def tables_def)
  show "in_sync (pgStore Some) pg_log ''g'' race_db flop_state" "latest_seq (pg_log race_db ''g'') = 1"
    using flop_db_facts(2,3) by (simp_all add: in_sync_def snap log)
qed

lemma race_joins: "\<exists>r. JoinTable (pgStore Some) 5 (sits ''ann'') race_db = Some (Inr r, race_joined)"
proof -
  have f: "faults race_db = []" "open_tx race_db = None" by (simp_all add: race_db_def flop_db_def)
  have "Version flop_state = 1" by code_simp
  then have ld: "LoadState (pgStore Some) ''g'' (tx_view race_db) = Some (Inr (flop_state, 1))"
    using reload_recovers_state [OF pg_good_tx [OF race_db_facts(2)] in_sync_tx [OF race_db_facts(1,4)]] f(1) by (auto simp: tx_view_def)
  have "join_seat flop_state (sits ''ann'') = Inr 4" "\<not> isl (fst race_join)" "faults (snd race_join) = []" by code_simp+
  moreover obtain r s2 where r: "race_join = (Inr r, s2)" using calculation(2) by (metis isl_def obj_sumE prod.collapse)
  ultimately have "join_new (pgStore Some) 5 (sits ''ann'') (tx_view race_db) = Some (Inr r, s2)" "faults s2 = []"
    using ld by (simp_all add: join_new_def sits_def race_join_def del: One_nat_def)
  moreover have "Begin (pgStore Some) race_db = (None, tx_view race_db)"
    using f by (simp add: pgStore_def pg_Begin_def tx_view_def down_def)
  moreover have "Commit (pgStore Some) s2 = (None, race_joined)"
    using calculation(2) by (simp add: pgStore_def pg_Commit_def down_def race_joined_def r)
  moreover have "ji_CommandID (sits ''ann'') = uuid_Nil" by (simp add: sits_def)
  ultimately show ?thesis by (simp add: JoinTable_def WithTx_def)
qed

lemma session_overlooks_join_witness:
  "\<exists>evs w' loaded. session_step (pgStore Some) Some (\<lambda>_. ''u'') FixedDealer ''g''
      \<lparr>w_store = race_joined, w_dealer = NewFixedDealer [0..<52], w_state = flop_state, w_timer = None\<rparr> (Stored evs) w'
    \<and> length evs = 4 \<and> player (w_state w') ''ann'' = None
    \<and> router_loadState (pgStore Some) ''g'' (w_store w') = Some (Inr loaded) \<and> player loaded ''ann'' \<noteq> None"
proof -
  let ?w = "\<lparr>w_store = race_joined, w_dealer = NewFixedDealer [0..<52], w_state = flop_state, w_timer = None\<rparr>"
  have c: "\<not> isl (fst race_call)" "length (projr (fst race_call)) = 4" "faults (fst (snd race_call)) = []"
    "already_seen (pgStore Some) Some ''g'' (command_of (CmdCall 40)) race_joined = None"
    by code_simp+
  obtain evs where evs: "fst race_call = Inr evs" "length evs = 4" using c(1,2) by (cases "fst race_call") auto
  have step: "session_step (pgStore Some) Some (\<lambda>_. ''u'') FixedDealer ''g'' ?w (Stored evs) (finish 5 flop_state race_call)"
    using session_step.command [of race_call "pgStore Some" Some "\<lambda>_. ''u''" FixedDealer "''g''" 5 ?w "''a''"
        "command_of (CmdCall 40)" "Stored evs"] c(4) evs(1)
    by (simp add: race_call_def label_of_def)
  have w: "w_store (finish 5 flop_state race_call) = fst (snd race_call)"
    by (simp add: finish_def Let_def split_beta)
  have i: "ji_GameID (sits ''ann'') = ''g''" "ji_CommandID (sits ''ann'') = uuid_Nil" "ji_UserID (sits ''ann'') = ''ann''"
    by (simp_all add: sits_def)
  have n: "player flop_state (ji_UserID (sits ''ann'')) = None" unfolding i by code_simp
  obtain r where j: "JoinTable (pgStore Some) 5 (sits ''ann'') race_db = Some (Inr r, race_joined)" using race_joins by blast
  have room: "Suc (latest_seq (pg_log race_db ''g'')) + length evs < max_seq"
    unfolding race_db_facts(5) evs(2) by (simp add: max_seq_def)
  have up: "faults (w_store (finish 5 flop_state race_call)) = []" unfolding w by (rule c(3))
  obtain loaded where "player (w_state (finish 5 flop_state race_call)) ''ann'' = None"
    "router_loadState (pgStore Some) ''g'' (w_store (finish 5 flop_state race_call)) = Some (Inr loaded)"
    "player loaded ''ann'' \<noteq> None"
    using session_overlooks_join [OF race_db_facts(1-3) refl i(1) disjI1 [OF i(2)] race_db_facts(4) n j step room up]
    unfolding i(3) by blast
  with step evs(2) show ?thesis by blast
qed

end
