(* ===== verification/Search.thy ===== *)
theory Search
  imports Server
begin

text \<open>
  Finding a table: the statements of \<open>store/pgstore/game_configs.sql.go\<close> that list and search
  configurations, the methods of \<open>store/store.go\<close> that run them, and \<open>SearchTables\<close> of
  \<open>server/server.go\<close>. A text of Postgres is a sequence of characters: \<open>lower\<close> is what the collation of
  the database makes of one for a comparison without case, the codes of its characters in lower case.
  Rows with equal keys come in the order in which the statement reads the table, which Postgres leaves
  open; \<open>arr\<close> is that order.
\<close>

section \<open>\<open>LIKE\<close>\<close>

text \<open>The pattern: 37 is the percent sign, 95 the underscore, 92 the backslash that escapes the next one.\<close>

fun like :: "nat list \<Rightarrow> nat list \<Rightarrow> bool" where
  "like t [] \<longleftrightarrow> t = []"
| "like t (p # ps) \<longleftrightarrow>
     (if p = 37 then like t ps \<or> (case t of [] \<Rightarrow> False | c # cs \<Rightarrow> like cs (p # ps))
      else if p = 92 then (case (ps, t) of (q # qs, c # cs) \<Rightarrow> c = q \<and> like cs qs | _ \<Rightarrow> False)
      else (case t of [] \<Rightarrow> False | c # cs \<Rightarrow> (p = 95 \<or> c = p) \<and> like cs ps))"

declare like.simps(2) [simp del]

section \<open>Statements\<close>

record SearchFilter =
  sf_NameQuery :: string
  sf_BigBlind :: int
  sf_Variant :: GameVariant
  sf_Structure :: BettingStructure
  sf_Limit :: int
  sf_Offset :: int

text \<open>\<open>$1 = '' OR table_name ILIKE '%' || $1 || '%'\<close>\<close>

definition name_matches :: "(string \<Rightarrow> nat list) \<Rightarrow> string \<Rightarrow> string \<Rightarrow> bool" where
  "name_matches lower q name \<longleftrightarrow> q = [] \<or> like (lower name) ([37] @ lower q @ [37])"

definition search_hit :: "(string \<Rightarrow> nat list) \<Rightarrow> SearchFilter \<Rightarrow> config_row \<Rightarrow> bool" where
  "search_hit lower f r \<longleftrightarrow> \<not> cr_deleted r \<and> name_matches lower (sf_NameQuery f) (cr_table_name r)
     \<and> (sf_BigBlind f = 0 \<or> cr_big_blind r = sf_BigBlind f)
     \<and> (sf_Variant f = GAME_VARIANT_UNSPECIFIED \<or> cr_variant r = sf_Variant f)
     \<and> (sf_Structure f = BETTING_STRUCTURE_UNSPECIFIED \<or> cr_structure r = sf_Structure f)"

text \<open>\<open>ORDER BY created_at DESC LIMIT \<dots> OFFSET \<dots>\<close>; Postgres refuses negative ones.\<close>

definition newest_first :: "config_row list \<Rightarrow> config_row list" where
  "newest_first = sort_key (\<lambda>r. - cr_created_at r)"

definition page :: "int \<Rightarrow> int \<Rightarrow> 'a list \<Rightarrow> 'a list" where
  "page lim off xs = take (nat lim) (drop (nat off) xs)"

definition q_SearchGameConfigs ::
  "(string \<Rightarrow> nat list) \<Rightarrow> (config_row list \<Rightarrow> config_row list) \<Rightarrow> SearchFilter \<Rightarrow> Db \<Rightarrow> pg_err + config_row list" where
  "q_SearchGameConfigs lower arr f s =
     (if down ''SearchGameConfigs'' s \<or> sf_Limit f < 0 \<or> sf_Offset f < 0 then Inl DbError
      else Inr (page (sf_Limit f) (sf_Offset f)
        (newest_first (filter (search_hit lower f) (arr (game_configs (tables s)))))))"

definition q_CountSearchGameConfigs ::
  "(string \<Rightarrow> nat list) \<Rightarrow> SearchFilter \<Rightarrow> Db \<Rightarrow> pg_err + int" where
  "q_CountSearchGameConfigs lower f s =
     (if down ''CountSearchGameConfigs'' s then Inl DbError
      else Inr (int (length (filter (search_hit lower f) (game_configs (tables s))))))"

definition q_ListActiveGameConfigs ::
  "(config_row list \<Rightarrow> config_row list) \<Rightarrow> int \<Rightarrow> int \<Rightarrow> Db \<Rightarrow> pg_err + config_row list" where
  "q_ListActiveGameConfigs arr lim off s =
     (if down ''ListActiveGameConfigs'' s \<or> lim < 0 \<or> off < 0 then Inl DbError
      else Inr (page lim off (newest_first (filter (\<lambda>r. \<not> cr_deleted r) (arr (game_configs (tables s)))))))"

section \<open>The store\<close>

record GameConfigSummary =
  gs_GameID :: uuid
  gs_TableName :: string
  gs_Variant :: GameVariant
  gs_Structure :: BettingStructure
  gs_Currency :: string
  gs_SmallBlind :: int
  gs_BigBlind :: int
  gs_MinBuyIn :: int
  gs_MaxBuyIn :: int
  gs_MaxSeats :: int
  gs_IsPrivate :: bool
  gs_CreatedAt :: timestamp

definition rowToSummary :: "config_row \<Rightarrow> GameConfigSummary" where
  "rowToSummary r = \<lparr>gs_GameID = cr_game_id r, gs_TableName = cr_table_name r, gs_Variant = cr_variant r,
     gs_Structure = cr_structure r, gs_Currency = cr_currency r, gs_SmallBlind = cr_small_blind r,
     gs_BigBlind = cr_big_blind r, gs_MinBuyIn = cr_min_buy_in r, gs_MaxBuyIn = cr_max_buy_in r,
     gs_MaxSeats = cr_max_seats r, gs_IsPrivate = cr_is_private r, gs_CreatedAt = cr_created_at r\<rparr>"

definition pg_ListActiveGameConfigs ::
  "(config_row list \<Rightarrow> config_row list) \<Rightarrow> int \<Rightarrow> int \<Rightarrow> Db \<Rightarrow> go_err + GameConfigSummary list" where
  "pg_ListActiveGameConfigs arr lim off s =
     (case q_ListActiveGameConfigs arr lim off s of
        Inl e \<Rightarrow> Inl (Wrap ''list game_configs: '' db_error)
      | Inr rows \<Rightarrow> Inr (map rowToSummary rows))"

text \<open>The two statements run in one transaction; the total does not depend on the page.\<close>

definition pg_SearchGameConfigs ::
  "(string \<Rightarrow> uuid option) \<Rightarrow> (string \<Rightarrow> nat list) \<Rightarrow> (config_row list \<Rightarrow> config_row list) \<Rightarrow> SearchFilter
     \<Rightarrow> Db \<Rightarrow> ((go_err + (GameConfigSummary list \<times> int)) \<times> Db) option" where
  "pg_SearchGameConfigs parse lower arr f s =
     map_option (apfst (map_sum id (\<lambda>(rows, tot). (map rowToSummary rows, tot))))
       (WithTx (pgStore parse) (\<lambda>tx. Some
          (case q_SearchGameConfigs lower arr f tx of
             Inl e \<Rightarrow> (Inl (Wrap ''search game_configs: '' db_error), tx)
           | Inr rows \<Rightarrow>
               (case q_CountSearchGameConfigs lower f tx of
                  Inl e \<Rightarrow> (Inl (Wrap ''count game_configs: '' db_error), tx)
                | Inr tot \<Rightarrow> (Inr (rows, tot), tx)))) s)"

section \<open>The request\<close>

record SearchTablesRequest =
  sr_NameQuery :: string
  sr_BigBlind :: int
  sr_Variant :: GameVariant
  sr_Structure :: BettingStructure
  sr_Limit :: int
  sr_Offset :: int

record TableSummary =
  ts_GameId :: string
  ts_TableName :: string
  ts_Variant :: GameVariant
  ts_Structure :: BettingStructure
  ts_Currency :: string
  ts_SmallBlind :: int
  ts_BigBlind :: int
  ts_MinBuyIn :: int
  ts_MaxBuyIn :: int
  ts_MaxSeats :: int
  ts_IsPrivate :: bool
  ts_CreatedAt :: timestamp

record SearchTablesResponse =
  sr_Tables :: "TableSummary list"
  sr_TotalCount :: int

definition summaryToProto :: "GameConfigSummary \<Rightarrow> TableSummary" where
  "summaryToProto g = \<lparr>ts_GameId = gs_GameID g, ts_TableName = gs_TableName g, ts_Variant = gs_Variant g,
     ts_Structure = gs_Structure g, ts_Currency = gs_Currency g, ts_SmallBlind = gs_SmallBlind g,
     ts_BigBlind = gs_BigBlind g, ts_MinBuyIn = gs_MinBuyIn g, ts_MaxBuyIn = gs_MaxBuyIn g,
     ts_MaxSeats = gs_MaxSeats g, ts_IsPrivate = gs_IsPrivate g, ts_CreatedAt = gs_CreatedAt g\<rparr>"

definition search_limit :: "int \<Rightarrow> int" where
  "search_limit limit = (if limit \<le> 0 then 50 else if limit > 200 then 200 else limit)"

definition rpc_SearchTables ::
  "(string \<Rightarrow> uuid option) \<Rightarrow> (string \<Rightarrow> nat list) \<Rightarrow> (config_row list \<Rightarrow> config_row list) \<Rightarrow> SearchTablesRequest
     \<Rightarrow> Db \<Rightarrow> ((codes + SearchTablesResponse) \<times> Db) option" where
  "rpc_SearchTables parse lower arr req s =
     (if sr_Offset req < 0 then Some (Inl InvalidArgument, s)
      else map_option (apfst (map_sum (\<lambda>_. Internal) (\<lambda>(summaries, tot).
              \<lparr>sr_Tables = map summaryToProto summaries, sr_TotalCount = tot\<rparr>)))
        (pg_SearchGameConfigs parse lower arr
           \<lparr>sf_NameQuery = sr_NameQuery req, sf_BigBlind = sr_BigBlind req, sf_Variant = sr_Variant req,
            sf_Structure = sr_Structure req, sf_Limit = search_limit (sr_Limit req), sf_Offset = sr_Offset req\<rparr> s))"

section \<open>What a name query matches\<close>

definition plain :: "nat list \<Rightarrow> bool" where
  "plain q \<longleftrightarrow> (\<forall>c \<in> set q. c \<noteq> 37 \<and> c \<noteq> 95 \<and> c \<noteq> 92)"

lemma like_any: "like t [37]"
  by (induction t) (simp_all add: like.simps(2))

lemma like_percent: "like t (37 # ps) \<longleftrightarrow> (\<exists>a b. t = a @ b \<and> like b ps)"
proof (induction t)
  case (Cons c t)
  have "like (c # t) (37 # ps) \<longleftrightarrow> like (c # t) ps \<or> (\<exists>a b. t = a @ b \<and> like b ps)"
    using Cons by (simp add: like.simps(2) [of "c # t"])
  then show ?case by (metis append_Cons append_Nil list.inject neq_Nil_conv)
qed (simp add: like.simps(2))

lemma like_plain: "plain q \<Longrightarrow> like t (q @ ps) \<longleftrightarrow> (\<exists>b. t = q @ b \<and> like b ps)"
proof (induction q arbitrary: t)
  case (Cons c q)
  then show ?case by (cases t) (auto simp: plain_def like.simps(2))
qed simp

lemma like_substring: "plain q \<Longrightarrow> like t ([37] @ q @ [37]) \<longleftrightarrow> (\<exists>a b. t = a @ q @ b)"
  by (auto simp: like_percent like_plain like_any)

text \<open>C34. A name query without the characters that a \<open>LIKE\<close> pattern gives a meaning finds exactly the
  tables whose name contains it, without regard to case. With them it does not: the query is put into
  the pattern as it is, so a single underscore finds every table that has a name.\<close>

theorem search_by_name:
  assumes "sf_NameQuery f \<noteq> []" and "sf_BigBlind f = 0" and "sf_Variant f = GAME_VARIANT_UNSPECIFIED"
    and "sf_Structure f = BETTING_STRUCTURE_UNSPECIFIED" and "\<not> cr_deleted r"
  shows "(plain (lower (sf_NameQuery f)) \<longrightarrow>
      (search_hit lower f r \<longleftrightarrow> (\<exists>a b. lower (cr_table_name r) = a @ lower (sf_NameQuery f) @ b)))
    \<and> (lower (sf_NameQuery f) = [95] \<longrightarrow> (search_hit lower f r \<longleftrightarrow> lower (cr_table_name r) \<noteq> []))"
proof -
  have "like t [37, 95, 37] \<longleftrightarrow> t \<noteq> []" for t
    unfolding like_percent [of t "[95, 37]"] by (cases t) (auto simp: like.simps(2) [of _ 95] like_any split: list.splits)
  then show ?thesis using assms like_substring by (auto simp: search_hit_def name_matches_def)
qed

section \<open>Pages\<close>

definition filter_of :: "SearchTablesRequest \<Rightarrow> SearchFilter" where
  "filter_of req =
     \<lparr>sf_NameQuery = sr_NameQuery req, sf_BigBlind = sr_BigBlind req, sf_Variant = sr_Variant req,
      sf_Structure = sr_Structure req, sf_Limit = search_limit (sr_Limit req), sf_Offset = sr_Offset req\<rparr>"

definition hits :: "(string \<Rightarrow> nat list) \<Rightarrow> SearchTablesRequest \<Rightarrow> Db \<Rightarrow> config_row list" where
  \<comment> \<open>the tables that a request is about, in the order of its answer\<close>
  "hits lower req s = newest_first (filter (search_hit lower (filter_of req)) (game_configs (committed s)))"

definition row_summary :: "config_row \<Rightarrow> TableSummary" where
  "row_summary r = summaryToProto (rowToSummary r)"

lemma search_limit_bounds: "1 \<le> search_limit l \<and> search_limit l \<le> 200"
  by (simp add: search_limit_def)

lemma newest_first_arr:
  assumes "mset ys = mset xs" and "inj_on cr_created_at (set xs)"
  shows "newest_first ys = newest_first xs"
proof -
  have "inj_on (\<lambda>r. - cr_created_at r) (set ys)"
    using assms by (metis (no_types, lifting) inj_on_def minus_equation_iff mset_eq_setD)
  then show ?thesis unfolding newest_first_def
    by (intro sort_key_inj_key_eq) (simp_all add: assms(1))
qed

lemma search_answer:
  assumes "pg_idle s" and "faults s = []" and "0 \<le> sr_Offset req" and "\<And>xs. mset (arr xs) = mset xs"
    and "inj_on cr_created_at (set (game_configs (committed s)))"
  shows "rpc_SearchTables parse lower arr req s = Some (Inr
      \<lparr>sr_Tables = map row_summary (page (search_limit (sr_Limit req)) (sr_Offset req) (hits lower req s)),
       sr_TotalCount = int (length (hits lower req s))\<rparr>, s)"
proof -
  let ?f = "filter_of req" and ?h = "search_hit lower (filter_of req)" and ?rows = "game_configs (committed s)"
  have "newest_first (filter ?h (arr ?rows)) = newest_first (filter ?h ?rows)"
    using assms(5) by (intro newest_first_arr) (auto simp: mset_filter assms(4) intro: inj_on_subset)
  moreover have "length (newest_first (filter ?h ?rows)) = length (filter ?h ?rows)"
    by (simp add: newest_first_def)
  moreover have "sf_Limit ?f = search_limit (sr_Limit req)" "sf_Offset ?f = sr_Offset req" "0 \<le> search_limit (sr_Limit req)"
    using search_limit_bounds [of "sr_Limit req"] by (simp_all add: filter_of_def)
  moreover have "pg_Rollback (s\<lparr>open_tx := Some (committed s)\<rparr>) = s" "s\<lparr>open_tx := None\<rparr> = s"
    using assms(1) by (simp_all add: pg_Rollback_def pg_idle_def)
  ultimately show ?thesis
    using assms(2,3) unfolding rpc_SearchTables_def filter_of_def [symmetric]
    by (simp add: pg_SearchGameConfigs_def WithTx_def pgStore_def pg_Begin_def pg_Commit_def down_def
        q_SearchGameConfigs_def q_CountSearchGameConfigs_def tables_def hits_def row_summary_def comp_def)
qed

lemma pages_cover: "concat (map (\<lambda>k. page l (int k * l) xs) [0..<n]) = take (n * nat l) xs" if "0 < l"
proof (induction n)
  case (Suc n)
  have "nat (int n * l) = n * nat l" using that by (simp add: nat_mult_distrib)
  then show ?case using Suc by (simp add: page_def take_add [symmetric] add.commute)
qed simp

text \<open>Paging through a search misses nothing and repeats nothing: as long as the tables do not
  change and no two were created at the same moment, the pages of any size, one after the other,
  are all tables that match, the newest first, whatever order each statement reads the rows in; and
  every page gives their number.\<close>

theorem search_pages:
  assumes "pg_idle s" and "faults s = []" and "inj_on cr_created_at (set (game_configs (committed s)))"
    and "\<And>k xs. mset (arr k xs) = mset xs"
    and "l = search_limit (sr_Limit req)" and "length (hits lower req s) \<le> n * nat l"
  shows "\<exists>answers. (\<forall>k < n. rpc_SearchTables parse lower (arr k) (req\<lparr>sr_Offset := int k * l\<rparr>) s = Some (Inr (answers k), s)
      \<and> sr_TotalCount (answers k) = int (length (hits lower req s)))
    \<and> concat (map (\<lambda>k. sr_Tables (answers k)) [0..<n]) = map row_summary (hits lower req s)"
proof -
  let ?ans = "\<lambda>k. \<lparr>sr_Tables = map row_summary (page l (int k * l) (hits lower req s)),
       sr_TotalCount = int (length (hits lower req s))\<rparr>"
  have l: "0 < l" using search_limit_bounds [of "sr_Limit req"] assms(5) by simp
  have h: "hits lower (req\<lparr>sr_Offset := x\<rparr>) s = hits lower req s" for x
    by (simp add: hits_def filter_of_def search_hit_def [abs_def])
  have "rpc_SearchTables parse lower (arr k) (req\<lparr>sr_Offset := int k * l\<rparr>) s = Some (Inr (?ans k), s)" for k
    using search_answer [where req = "req\<lparr>sr_Offset := int k * l\<rparr>", OF assms(1,2) _ assms(4,3)] l
    by (simp add: h assms(5))
  moreover have "concat (map (\<lambda>k. sr_Tables (?ans k)) [0..<n]) = map row_summary (hits lower req s)"
    using arg_cong [OF pages_cover [OF l, of "hits lower req s" n], of "map row_summary"] assms(6)
    by (simp add: map_concat comp_def)
  ultimately show ?thesis by (intro exI [of _ ?ans]) simp
qed

section \<open>A new table is found\<close>

definition summary_of :: "uuid \<Rightarrow> timestamp \<Rightarrow> CashGameConfig \<Rightarrow> TableSummary" where
  "summary_of gid now cfg = \<lparr>ts_GameId = gid, ts_TableName = TableName cfg, ts_Variant = Variant cfg,
     ts_Structure = Structure cfg, ts_Currency = Currency cfg, ts_SmallBlind = SmallBlind cfg,
     ts_BigBlind = BigBlind cfg, ts_MinBuyIn = MinBuyIn cfg, ts_MaxBuyIn = MaxBuyIn cfg,
     ts_MaxSeats = MaxSeats cfg, ts_IsPrivate = IsPrivate cfg, ts_CreatedAt = now\<rparr>"

lemma valid_max_seats: "validateCashGameConfig (Some cfg) = None \<Longrightarrow> 2 \<le> MaxSeats cfg \<and> MaxSeats cfg \<le> 10"
  by (auto simp: validateCashGameConfig_def split: if_splits)

lemma CreateTable_row:
  assumes "pg_idle s" and "CreateTable (pgStore parse) gid now cfg cmd s = Some (Inr st, s')"
  shows "game_configs (committed s') = game_configs (committed s) @ [config_columns gid (db_now s) cfg]
    \<and> pg_idle s' \<and> faults s' = faults s"
proof -
  obtain s1 s2 evt s3 s4 g where steps: "pg_Begin s = (None, s1)" "pg_CreateGameConfig gid cfg s1 = (Inr g, s2)"
    "pg_AppendEvent parse evt s2 = (None, s3)" "pg_CreateSnapshot parse st 0 s3 = (None, s4)" "pg_Commit s4 = (None, s')"
    using assms(2) by (auto simp: CreateTable_def WithTx_def pgStore_def Let_def split: prod.splits sum.splits option.splits)
  have 1: "tables s1 = committed s" "db_now s1 = db_now s" "faults s1 = faults s" "open_tx s1 \<noteq> None"
    using steps(1) by (auto simp: pg_Begin_def tables_def split: if_splits)
  have 2: "game_configs (tables s2) = game_configs (tables s1) @ [config_columns gid (db_now s1) cfg]"
    "faults s2 = faults s1" "open_tx s2 \<noteq> None"
    using steps(2) 1(4) by (auto simp: pg_CreateGameConfig_def q_CreateGameConfig_def upd_tables_def tables_def split: if_splits)
  have 3: "game_configs (tables s3) = game_configs (tables s2)" "faults s3 = faults s2" "open_tx s3 \<noteq> None"
    using steps(3) 2(3) by (auto simp: pg_AppendEvent_def insert_event_def upd_tables_def tables_def split: if_splits sum.splits)
  have 4: "game_configs (tables s4) = game_configs (tables s3)" "faults s4 = faults s3"
    using steps(4) 3(3) by (auto simp: pg_CreateSnapshot_def q_CreateSnapshot_def upd_tables_def tables_def split: if_splits option.splits)
  show ?thesis using steps(5) 1 2 3 4 by (auto simp: pg_Commit_def pg_idle_def split: if_splits)
qed

text \<open>A table that has just been created is found: a search whose filters it satisfies and whose answer
  fits on one page lists it with the values of its configuration, and with nothing else of it; the
  password of a private table is not among them.\<close>

theorem created_table_is_found:
  assumes "pg_idle s" and "faults s = []" and "validateCashGameConfig (Some cfg) = None"
    and "CreateTable (pgStore parse) gid now (Some cfg) cmd s = Some (Inr st, s')"
    and "\<And>xs. mset (arr xs) = mset xs" and "inj_on cr_created_at (set (game_configs (committed s')))"
    and "search_hit lower (filter_of req) (config_columns gid (db_now s) (Some cfg))"
    and "sr_Offset req = 0" and "int (length (hits lower req s')) \<le> search_limit (sr_Limit req)"
  shows "\<exists>answer. rpc_SearchTables parse lower arr req s' = Some (Inr answer, s')
    \<and> summary_of gid (db_now s) cfg \<in> set (sr_Tables answer)"
proof -
  note row = CreateTable_row [OF assms(1,4)]
  have "rpc_SearchTables parse lower arr req s' = Some (Inr
      \<lparr>sr_Tables = map row_summary (page (search_limit (sr_Limit req)) (sr_Offset req) (hits lower req s')),
       sr_TotalCount = int (length (hits lower req s'))\<rparr>, s')"
    using row assms(2,8) by (intro search_answer assms(5,6)) auto
  moreover have "page (search_limit (sr_Limit req)) (sr_Offset req) (hits lower req s') = hits lower req s'"
    using assms(8,9) by (simp add: page_def)
  moreover have "config_columns gid (db_now s) (Some cfg) \<in> set (hits lower req s')"
    using row assms(7) by (simp add: hits_def newest_first_def)
  moreover have "row_summary (config_columns gid (db_now s) (Some cfg)) = summary_of gid (db_now s) cfg"
    using valid_max_seats [OF assms(3)]
    by (simp add: row_summary_def summary_of_def summaryToProto_def rowToSummary_def config_columns_def
        get_cfg_def to_int16_def)
  ultimately show ?thesis by (metis (no_types, lifting) SearchTablesResponse.select_convs(1) image_eqI set_map)
qed

section \<open>The theorems at work\<close>

definition ascii_lower :: "string \<Rightarrow> nat list" where
  "ascii_lower = map (\<lambda>c. let n = of_char c in if 65 \<le> n \<and> n \<le> 90 then n + 32 else n)"

definition name_query :: "string \<Rightarrow> SearchFilter" where
  "name_query q = \<lparr>sf_NameQuery = q, sf_BigBlind = 0, sf_Variant = GAME_VARIANT_UNSPECIFIED,
     sf_Structure = BETTING_STRUCTURE_UNSPECIFIED, sf_Limit = 50, sf_Offset = 0\<rparr>"

definition any_table :: SearchTablesRequest where
  "any_table = \<lparr>sr_NameQuery = [], sr_BigBlind = 0, sr_Variant = GAME_VARIANT_UNSPECIFIED,
     sr_Structure = BETTING_STRUCTURE_UNSPECIFIED, sr_Limit = 2, sr_Offset = 0\<rparr>"

definition gold_row :: config_row where
  "gold_row = config_columns ''g'' 1 (Some (rake_config\<lparr>TableName := ''Old Gold''\<rparr>))"

lemma search_by_name_witness:
  "search_hit ascii_lower (name_query ''gOLd'') gold_row \<and> search_hit ascii_lower (name_query ''_'') gold_row"
proof -
  have l: "lower = map (\<lambda>c. let n = of_char c in if 65 \<le> n \<and> n \<le> 90 then n + 32 else n) \<Longrightarrow>
      lower ''gOLd'' = [103, 111, 108, 100] \<and> lower ''_'' = [95]
      \<and> lower ''Old Gold'' = [111, 108, 100, 32] @ [103, 111, 108, 100] @ []" for lower :: "string \<Rightarrow> nat list"
    by simp
  have f: "sf_NameQuery (name_query q) = q" "sf_BigBlind (name_query q) = 0" "\<not> cr_deleted gold_row"
    "sf_Variant (name_query q) = GAME_VARIANT_UNSPECIFIED" "cr_table_name gold_row = ''Old Gold''"
    "sf_Structure (name_query q) = BETTING_STRUCTURE_UNSPECIFIED" for q
    by (simp_all add: name_query_def gold_row_def config_columns_def get_cfg_def)
  note [simp] = f l [OF ascii_lower_def, THEN conjunct1] l [OF ascii_lower_def, THEN conjunct2, THEN conjunct1]
  have "ascii_lower ''Old Gold'' = [111, 108, 100, 32] @ [103, 111, 108, 100] @ []"
    using l [OF ascii_lower_def] by blast
  moreover have "plain [103, 111, 108, 100]" by (simp add: plain_def)
  ultimately show ?thesis
    using search_by_name [of "name_query ''gOLd''" gold_row ascii_lower]
      search_by_name [of "name_query ''_''" gold_row ascii_lower] by (metis append_is_Nil_conv f l [OF ascii_lower_def] list.distinct(1))
qed

text \<open>Three tables on pages of two.\<close>

definition three_tables :: Db where
  "three_tables = \<lparr>committed = empty_tables\<lparr>game_configs := map (\<lambda>(g, t). config_columns g t (Some rake_config))
     [(''a'', 1), (''b'', 3), (''c'', 2)]\<rparr>, open_tx = None, db_now = 4, faults = []\<rparr>"

lemma three_hits: "map cr_game_id (hits ascii_lower any_table three_tables) = [''b'', ''c'', ''a'']"
  by code_simp

lemma search_pages_witness:
  "\<exists>answers. (\<forall>k < 2. rpc_SearchTables Some ascii_lower (if k = 0 then rev else id)
      (any_table\<lparr>sr_Offset := int k * 2\<rparr>) three_tables = Some (Inr (answers k), three_tables))
    \<and> map ts_GameId (concat (map (\<lambda>k. sr_Tables (answers k)) [0..<2])) = [''b'', ''c'', ''a'']"
proof -
  have i: "pg_idle three_tables" "faults three_tables = []"
    "inj_on cr_created_at (set (game_configs (committed three_tables)))"
    by (simp_all add: three_tables_def pg_idle_def config_columns_def get_cfg_def)
  have l: "2 = search_limit (sr_Limit any_table)" by (simp add: search_limit_def any_table_def)
  have "length (hits ascii_lower any_table three_tables) = 3"
    using arg_cong [OF three_hits, of length] by simp
  then have n: "length (hits ascii_lower any_table three_tables) \<le> 2 * nat 2" by simp
  have m: "mset ((if k = (0::nat) then rev else id) xs) = mset xs" for k and xs :: "config_row list" by simp
  have g: "ts_GameId \<circ> row_summary = cr_game_id"
    by (simp add: fun_eq_iff row_summary_def summaryToProto_def rowToSummary_def)
  show ?thesis
  proof (rule ex_forward [OF search_pages [where arr = "\<lambda>k. if k = 0 then rev else id" and parse = Some, OF i m l n]], elim conjE, intro conjI)
    fix answers :: "nat \<Rightarrow> SearchTablesResponse"
    assume "concat (map (\<lambda>k. sr_Tables (answers k)) [0..<2]) = map row_summary (hits ascii_lower any_table three_tables)"
    then show "map ts_GameId (concat (map (\<lambda>k. sr_Tables (answers k)) [0..<2])) = [''b'', ''c'', ''a'']"
      using three_hits by (simp only: map_map g)
  qed simp
qed

lemma created_table_is_found_witness:
  "\<exists>st s' answer. CreateTable (pgStore Some) ''d'' 5 (Some rake_config) uuid_Nil (three_tables\<lparr>committed := empty_tables\<rparr>) = Some (Inr st, s')
    \<and> rpc_SearchTables Some ascii_lower id any_table s' = Some (Inr answer, s')
    \<and> summary_of ''d'' 4 rake_config \<in> set (sr_Tables answer)"
proof -
  let ?s = "three_tables\<lparr>committed := empty_tables\<rparr>"
  let ?r = "CreateTable (pgStore Some) ''d'' 5 (Some rake_config) uuid_Nil ?s"
  have i: "pg_idle ?s" "faults ?s = []" by (simp_all add: three_tables_def pg_idle_def)
  have v: "validateCashGameConfig (Some rake_config) = None" by code_simp
  have "(case ?r of None \<Rightarrow> False | Some (r, s') \<Rightarrow> \<not> isl r)" by code_simp
  then obtain x s' where x: "?r = Some (x, s')" "\<not> isl x" by (simp split: option.splits prod.splits)
  then obtain st where r: "?r = Some (Inr st, s')" by (cases x) simp_all
  have c: "game_configs (committed s') = [config_columns ''d'' 4 (Some rake_config)]"
    using CreateTable_row [OF i(1) r] by (simp add: three_tables_def empty_tables_def)
  have h: "search_hit ascii_lower (filter_of any_table) (config_columns ''d'' (db_now ?s) (Some rake_config))"
    by code_simp
  have "int (length (hits ascii_lower any_table s')) \<le> search_limit (sr_Limit any_table)"
    using c by (simp add: hits_def newest_first_def any_table_def search_limit_def)
  moreover have "sr_Offset any_table = 0" "db_now ?s = 4" "inj_on cr_created_at (set (game_configs (committed s')))"
    using c by (simp_all add: any_table_def three_tables_def)
  ultimately obtain answer where "rpc_SearchTables Some ascii_lower id any_table s' = Some (Inr answer, s')"
    "summary_of ''d'' 4 rake_config \<in> set (sr_Tables answer)"
    using created_table_is_found [OF i v r _ _ h, of id] by auto
  with r show ?thesis by blast
qed

end
