(* ===== verification/NewHand.thy ===== *)
theory NewHand
  imports EngineEvents
begin

text \<open>
  The start of a hand (\<open>startNewHand\<close> in src/internal/engine/advance.go and \<open>applyHandStarted\<close> in
  apply.go) against the rules of the game, stated over seats: who has the button, who posts the
  blinds, who acts first, and what everybody pays. The code finds the places by indices into the
  list of active players, in the order of their seats, and posts each payment as its own event.
\<close>

section \<open>Seats around the table\<close>

text \<open>The next of the seats to the left of \<open>x\<close>, around the table; then the \<open>n\<close> next ones.\<close>

definition left_of :: "int list \<Rightarrow> int \<Rightarrow> int" where
  "left_of seats x = (case filter (\<lambda>s. x < s) seats of [] \<Rightarrow> Min (set seats) | ss \<Rightarrow> Min (set ss))"

primrec around :: "nat \<Rightarrow> int list \<Rightarrow> int \<Rightarrow> int list" where
  "around 0 seats x = []"
| "around (Suc n) seats x = left_of seats x # around n seats (left_of seats x)"

text \<open>A list with its elements in increasing order: the seats of the active players.\<close>

lemma Min_sorted:
  assumes "sorted xs" and "xs \<noteq> []"
  shows "Min (set xs) = xs ! 0"
  using assms by (intro Min_eqI) (auto simp: in_set_conv_nth sorted_iff_nth_mono)

lemma filter_drop:
  assumes "sorted xs" and "distinct xs" and "i < length xs"
  shows "filter (\<lambda>s. xs ! i < s) xs = drop (Suc i) (xs :: int list)"
proof -
  have less: "xs ! j < xs ! k" if "j < k" "k < length xs" for j k
    using assms(1,2) that sorted_iff_nth_mono [of xs] nth_eq_iff_index_eq [of xs j k]
    by (metis less_le order.strict_trans)
  have "filter (\<lambda>s. xs ! i < s) (take (Suc i) xs) = []"
    using assms(1,3) by (auto simp: filter_empty_conv in_set_conv_nth not_less sorted_iff_nth_mono)
  moreover have "filter (\<lambda>s. xs ! i < s) (drop (Suc i) xs) = drop (Suc i) xs"
    using less by (auto simp: filter_id_conv in_set_conv_nth)
  ultimately show ?thesis by (metis append_take_drop_id filter_append append_Nil)
qed

lemma left_of_nth:
  assumes "sorted xs" and "distinct xs" and "i < length xs"
  shows "left_of xs (xs ! i) = xs ! (Suc i mod length xs)"
proof (cases "Suc i < length xs")
  case True
  have "drop (Suc i) xs = xs ! Suc i # drop (Suc (Suc i)) xs" using True by (simp add: Cons_nth_drop_Suc)
  moreover have "sorted (drop (Suc i) xs)" using assms(1) by (simp add: sorted_wrt_drop)
  ultimately show ?thesis using Min_sorted [of "drop (Suc i) xs"] True
    by (simp add: left_of_def filter_drop [OF assms] del: set_drop_subset)
next
  case False
  then have "Suc i = length xs" using assms(3) by simp
  moreover from this have "Suc i mod length xs = 0" "xs \<noteq> []" by auto
  ultimately show ?thesis using Min_sorted [OF assms(1)] by (simp add: left_of_def filter_drop [OF assms])
qed

lemma around_nth:
  assumes "sorted xs" and "distinct xs" and "i < length xs"
  shows "around n xs (xs ! i) = map (\<lambda>j. xs ! ((Suc i + j) mod length xs)) [0..<n]"
  using assms(3)
proof (induction n arbitrary: i)
  case (Suc n)
  let ?k = "Suc i mod length xs"
  have "?k < length xs" using Suc.prems by (intro mod_less_divisor) auto
  then have "around n xs (xs ! ?k) = map (\<lambda>j. xs ! ((Suc ?k + j) mod length xs)) [0..<n]"
    by (rule Suc.IH)
  also have "\<dots> = map (\<lambda>j. xs ! ((Suc i + Suc j) mod length xs)) [0..<n]"
    by (intro map_cong refl arg_cong [of _ _ "nth xs"])
      (metis add_Suc add_Suc_right mod_Suc_eq mod_add_left_eq)
  finally show ?case
    by (simp add: left_of_nth [OF assms(1,2) Suc.prems] upt_conv_Cons map_Suc_upt [symmetric] comp_def
        del: upt_Suc)
qed simp

lemma first_seat_left:
  assumes "sorted (map Seat ps)" and "ps \<noteq> []"
  shows "Seat (ps ! (case first_seat_after ps x of Some i \<Rightarrow> i | None \<Rightarrow> 0)) = left_of (map Seat ps) x"
proof -
  have some: "first_seat_after qs x = Some i \<Longrightarrow> sorted (map Seat qs) \<Longrightarrow>
      \<exists>ys. filter (\<lambda>s. x < s) (map Seat qs) = Seat (qs ! i) # ys" for qs i
    by (induction qs arbitrary: i) (auto split: if_splits)
  have none: "first_seat_after qs x = None \<Longrightarrow> filter (\<lambda>s. x < s) (map Seat qs) = []" for qs
    by (induction qs) (auto split: if_splits)
  show ?thesis
  proof (cases "first_seat_after ps x")
    case None
    then show ?thesis using none [OF None] Min_sorted [OF assms(1)] assms(2) by (simp add: left_of_def)
  next
    case (Some i)
    then obtain ys where ys: "filter (\<lambda>s. x < s) (map Seat ps) = Seat (ps ! i) # ys"
      using some assms(1) by blast
    then have "sorted (Seat (ps ! i) # ys)" using assms(1) sorted_filter by (metis sorted_wrt_filter)
    then have "Min (set (Seat (ps ! i) # ys)) = Seat (ps ! i)" using Min_sorted [of "Seat (ps ! i) # ys"] by simp
    then show ?thesis using Some ys by (simp add: left_of_def)
  qed
qed


section \<open>What a new hand starts with\<close>

lemma sort_key_map: "sort_key f (map g xs) = map g (sort_key (f \<circ> g) xs)"
proof -
  have "insort_key f (g x) (map g xs) = map g (insort_key (f \<circ> g) x xs)" for x xs
    by (induction xs) auto
  then show ?thesis by (induction xs) simp_all
qed

lemma seated_pairs:
  "seatedActivePlayersBySeats st = map fst (sort_key (\<lambda>x. Seat (snd x))
     (filter (\<lambda>x. \<not> IsSittingOut (snd x) \<and> 0 < Stack (snd x)) (Players st)))"
  by (simp add: seatedActivePlayersBySeats_def case_prod_unfold)

lemma seated_ids:
  assumes "ids_ok st"
  shows "seatedActivePlayersBySeats st = map PlayerId (activePlayers st)"
proof -
  have "fst x = PlayerId (snd x)" if "x \<in> set (Players st)" for x
    using that assms by (auto simp: ids_ok_def)
  then show ?thesis by (simp add: seated_pairs activePlayers_def filter_map sort_key_map comp_def)
qed

lemma seated_upd_all:
  assumes "\<And>p. Seat (f p) = Seat p \<and> IsSittingOut (f p) = IsSittingOut p \<and> Stack (f p) = Stack p"
  shows "seatedActivePlayersBySeats (upd_all_players f st) = seatedActivePlayersBySeats st"
  using assms by (simp add: seated_pairs values_upd_def filter_map sort_key_map comp_def case_prod_unfold)

lemma index_of_nth: "distinct xs \<Longrightarrow> i < length xs \<Longrightarrow> index_of (xs ! i) xs = Some i"
proof (induction xs arbitrary: i)
  case (Cons x xs)
  then show ?case by (cases i) (auto simp: nth_mem)
qed simp

lemma distinct_active: "ids_ok st \<Longrightarrow> distinct (map PlayerId (activePlayers st))"
  by (subst seated_ids [symmetric])
    (auto simp: ids_ok_def keys_def seated_pairs distinct_map intro: inj_on_subset)

lemma active_player:
  assumes "ids_ok st" and "p \<in> set (activePlayers st)"
  shows "player st (PlayerId p) = Some p" and "0 < Stack p"
  using assms by (auto simp: activePlayers_def ids_ok_def player_def keys_def)

text \<open>The events that follow \<open>HandStarted\<close> leave the places of the hand alone.\<close>

definition places :: "GameState \<Rightarrow> int \<times> (string \<times> string \<times> string \<times> string list \<times> string list) option" where
  "places st = (DealerSeat st, map_option (\<lambda>h.
     (DealerPlayerId h, SmallBlindPlayerId h, BigBlindPlayerId h, ActionOrder h, PendingActions h)) (CurrentHand st))"

lemma places_upd [simp]:
  "places (st\<lparr>Version := v\<rparr>) = places st" "places (upd_player pid f st) = places st"
  by (simp_all add: places_def)

lemma places_with:
  assumes "\<And>p h. DealerPlayerId (snd (f p h)) = DealerPlayerId h \<and> SmallBlindPlayerId (snd (f p h)) = SmallBlindPlayerId h
    \<and> BigBlindPlayerId (snd (f p h)) = BigBlindPlayerId h \<and> ActionOrder (snd (f p h)) = ActionOrder h
    \<and> PendingActions (snd (f p h)) = PendingActions h"
  shows "places (with_player_and_hand pid f st) = places st"
  using assms by (auto simp: with_player_and_hand_def places_def split: option.split prod.split)
    (metis snd_conv)+

lemma places_payload: "keeps_fresh e \<Longrightarrow> places (apply_payload e t st) = places st"
  by (cases e) (simp_all add: keeps_fresh_def apply_BlindPosted_def apply_AntePosted_def apply_ShownCards_def
      Let_def places_with)

lemma places_applyAll: "\<forall>e \<in> set es. keeps_fresh e \<Longrightarrow> places (applyAll st (map mk_event es)) = places st"
proof (induction es arbitrary: st)
  case (Cons e es)
  obtain v where "Apply st (mk_event e) = apply_payload e None (st\<lparr>Version := v\<rparr>)"
    using Apply_mk_event by blast
  then show ?case using Cons places_payload [of e] by simp
qed simp


lemma hand_starts:
  assumes "CurrentHand st = None" and "advance uuid dlr now st d = (Inr evs, d')"
    and "CurrentHand (applyAll st evs) \<noteq> None"
  obtains i j k hs where "2 \<le> length (activePlayers st)"
    and "i = newDealerIdx (activePlayers st) (DealerSeat st) (HandNumber st)"
    and "(j, k) = blind_positions (length (activePlayers st)) i"
    and "evs = hand_opening (uuid (Version st)) st (activePlayers st) (activePlayers st ! i)
      (activePlayers st ! j) (activePlayers st ! k) @ map mk_event hs"
    and "\<forall>e \<in> set hs. \<exists>pid c1 c2. e = EvHoleCardsDealt pid \<or> e = EvHoleCardsRevealed pid c1 c2"
proof -
  have quiet: "CurrentHand (applyAll s (map (\<lambda>p. mk_event (EvPlayerSatOut (PlayerId p))) ps)) = CurrentHand s" for s and ps :: "PlayerState list"
  proof (induction ps arbitrary: s)
    case (Cons p ps)
    obtain v where "Apply s (mk_event (EvPlayerSatOut (PlayerId p)))
        = apply_payload (EvPlayerSatOut (PlayerId p)) None (s\<lparr>Version := v\<rparr>)"
      using Apply_mk_event by blast
    then show ?case using Cons by (simp add: apply_PlayerSatOut_def)
  qed simp
  have holes: "dealHoleCards dlr ps d = (Inr evs, d') \<Longrightarrow> \<exists>hs. evs = map mk_event hs
      \<and> (\<forall>e \<in> set hs. \<exists>pid c1 c2. e = EvHoleCardsDealt pid \<or> e = EvHoleCardsRevealed pid c1 c2)" for ps d evs
  proof (induction ps arbitrary: d evs)
    case (Cons p ps)
    then obtain c1 c2 d2 rest where "dealHoleCards dlr ps d2 = (Inr rest, d')"
      "evs = mk_event (EvHoleCardsDealt (PlayerId p)) # mk_event (EvHoleCardsRevealed (PlayerId p) c1 c2) # rest"
      by (auto split: prod.splits sum.splits)
    moreover from Cons.IH [OF this(1)] obtain hs where "rest = map mk_event hs"
      "\<forall>e \<in> set hs. \<exists>pid c1 c2. e = EvHoleCardsDealt pid \<or> e = EvHoleCardsRevealed pid c1 c2" by blast
    ultimately show ?case
      by (intro exI [of _ "EvHoleCardsDealt (PlayerId p) # EvHoleCardsRevealed (PlayerId p) c1 c2 # hs"]) auto
  qed simp
  have start: "startNewHand uuid dlr st (activePlayers st) d = (Inr evs, d')" and two: "2 \<le> length (activePlayers st)"
    using assms quiet [of st] by (auto simp: advance_def advanceIdle_def Let_def split: if_splits)
  obtain j k where jk: "blind_positions (length (activePlayers st))
      (newDealerIdx (activePlayers st) (DealerSeat st) (HandNumber st)) = (j, k)" by fastforce
  with start obtain hs d1 where "evs = hand_opening (uuid (Version st)) st (activePlayers st)
      (activePlayers st ! newDealerIdx (activePlayers st) (DealerSeat st) (HandNumber st))
      (activePlayers st ! j) (activePlayers st ! k) @ hs" "dealHoleCards dlr (activePlayers st) d1 = (Inr hs, d')"
    by (auto simp: startNewHand_def Let_def split: prod.splits option.splits sum.splits)
  with holes [OF this(2)] show thesis using that [OF two refl jk [symmetric]] by blast
qed

text \<open>The payments before the cards, and the state right after \<open>HandStarted\<close>.\<close>

definition payments :: "GameState \<Rightarrow> PlayerState list \<Rightarrow> PlayerState \<Rightarrow> PlayerState \<Rightarrow> EventPayload list" where
  "payments st act sb bb =
     (let c = (\<lambda>f. get_cfg f 0 (Config st))
      in (if c Ante > 0 then map (\<lambda>p. EvAntePosted (PlayerId p) (min (c Ante) (Stack p))) act else [])
         @ (if c BbAnte > 0 then [EvAntePosted (PlayerId bb) (min (c BbAnte) (Stack bb))] else [])
         @ [EvBlindPosted (PlayerId sb) (min (c SmallBlind) (Stack sb)) True False False,
            EvBlindPosted (PlayerId bb) (min (c BigBlind) (Stack bb)) False True False])"

lemma payments_fresh: "\<forall>e \<in> set (payments st act sb bb). keeps_fresh e"
  by (auto simp: payments_def Let_def keeps_fresh_def)

definition ready :: "PlayerState \<Rightarrow> PlayerState" where
  "ready p = p\<lparr>IsFolded := False, IsAllIn := False, CurrentBet := 0, TotalCommittedThisHand := 0,
     HoleCard_1 := None, HoleCard_2 := None\<rparr>"

lemma opening_events:
  "hand_opening hid st act dealer sb bb =
     mk_event (EvHandStarted hid (add64 (HandNumber st) 1) (PlayerId dealer) (PlayerId sb) (PlayerId bb)
       (get_cfg SmallBlind 0 (Config st)) (get_cfg BigBlind 0 (Config st)))
     # map mk_event (payments st act sb bb)"
  by (simp add: hand_opening_def payments_def Let_def comp_def)

lemma started:
  assumes "ids_ok st" and "dealer \<in> set (activePlayers st)" "sb \<in> set (activePlayers st)" "bb \<in> set (activePlayers st)"
    and s_def: "s = Apply st (mk_event (EvHandStarted hid n (PlayerId dealer) (PlayerId sb) (PlayerId bb) a b))"
  shows "places s = (Seat dealer, Some (PlayerId dealer, PlayerId sb, PlayerId bb,
      preflopActionOrder st (PlayerId dealer) (PlayerId bb), preflopActionOrder st (PlayerId dealer) (PlayerId bb)))"
    and "player s pid = map_option ready (player st pid)"
    and "\<exists>h. CurrentHand s = Some h"
proof -
  obtain v where s: "s = apply_payload (EvHandStarted hid n (PlayerId dealer) (PlayerId sb) (PlayerId bb) a b) None
      (st\<lparr>Version := v\<rparr>)" using Apply_mk_event unfolding s_def by blast
  have order: "preflopActionOrder (upd_all_players ready (st\<lparr>Version := v\<rparr>)) x y = preflopActionOrder st x y" for x y
    unfolding preflopActionOrder_def
    by (subst seated_upd_all) (simp_all add: ready_def seatedActivePlayersBySeats_def)
  note defs = apply_HandStarted_def Let_def ready_def [abs_def, symmetric]
  have "player st (PlayerId dealer) = Some dealer" by (rule active_player [OF assms(1,2)])
  then show "places s = (Seat dealer, Some (PlayerId dealer, PlayerId sb, PlayerId bb,
      preflopActionOrder st (PlayerId dealer) (PlayerId bb), preflopActionOrder st (PlayerId dealer) (PlayerId bb)))"
    and "player s pid = map_option ready (player st pid)" and "\<exists>h. CurrentHand s = Some h"
    unfolding s using order
    by (auto simp: defs places_def player_def map_of_values_upd split: option.split) (simp_all add: ready_def)
qed


lemma newDealerIdx_less: "active \<noteq> [] \<Longrightarrow> newDealerIdx active d n < length active"
proof -
  have "first_seat_after ps d = Some i \<Longrightarrow> i < length ps" for ps i
    by (induction ps arbitrary: i) (auto split: if_splits)
  then show "active \<noteq> [] \<Longrightarrow> ?thesis" by (auto simp: newDealerIdx_def split: option.split)
qed

lemma blind_positions_less: "i < n \<Longrightarrow> blind_positions n i = (j, k) \<Longrightarrow> j < n \<and> k < n"
  by (auto simp: blind_positions_def split: if_splits)

lemma hand_opens:
  assumes "ids_ok st" and "CurrentHand st = None" and "advance uuid dlr now st d = (Inr evs, d')"
    and "CurrentHand (applyAll st evs) = Some h"
  defines "act \<equiv> activePlayers st"
  obtains i j k hs s where "i = newDealerIdx act (DealerSeat st) (HandNumber st)" and "(j, k) = blind_positions (length act) i"
    and "i < length act" "j < length act" "k < length act" and "j \<noteq> k"
    and "\<forall>e \<in> set hs. \<exists>pid c1 c2. e = EvHoleCardsDealt pid \<or> e = EvHoleCardsRevealed pid c1 c2"
    and "\<forall>e \<in> set (payments st act (act ! j) (act ! k) @ hs). keeps_fresh e"
    and "applyAll st evs = applyAll s (map mk_event (payments st act (act ! j) (act ! k) @ hs))"
    and "DealerSeat (applyAll st evs) = Seat (act ! i)" and "DealerPlayerId h = PlayerId (act ! i)"
    and "SmallBlindPlayerId h = PlayerId (act ! j)" and "BigBlindPlayerId h = PlayerId (act ! k)"
    and "ActionOrder h = preflopActionOrder st (PlayerId (act ! i)) (PlayerId (act ! k))"
    and "PendingActions h = ActionOrder h"
    and "\<And>pid. player s pid = map_option ready (player st pid)" and "\<exists>h. CurrentHand s = Some h"
proof -
  obtain i j k hs where two: "2 \<le> length act" and i: "i = newDealerIdx act (DealerSeat st) (HandNumber st)"
    and jk: "(j, k) = blind_positions (length act) i"
    and evs: "evs = hand_opening (uuid (Version st)) st act (act ! i) (act ! j) (act ! k) @ map mk_event hs"
    and hs: "\<forall>e \<in> set hs. \<exists>pid c1 c2. e = EvHoleCardsDealt pid \<or> e = EvHoleCardsRevealed pid c1 c2"
    using hand_starts [OF assms(2,3)] assms(4) unfolding act_def by blast
  have i_less: "i < length act" unfolding i using two by (intro newDealerIdx_less) auto
  note ix = i_less conjunct1 [OF blind_positions_less [OF i_less jk [symmetric]]]
    conjunct2 [OF blind_positions_less [OF i_less jk [symmetric]]]
  have "j \<noteq> k" using jk two ix by (auto simp: blind_positions_def mod_Suc split: if_splits)
  note mem = nth_mem [OF ix(1)] nth_mem [OF ix(2)] nth_mem [OF ix(3)]
  have quiet: "\<forall>e \<in> set (payments st act (act ! j) (act ! k) @ hs). keeps_fresh e"
    using hs payments_fresh [of st act "act ! j" "act ! k"] by (auto simp: keeps_fresh_def)
  note st = started [OF assms(1) mem [unfolded act_def] refl, folded act_def]
  have "places (applyAll st evs) = (Seat (act ! i), Some (PlayerId (act ! i), PlayerId (act ! j), PlayerId (act ! k),
      preflopActionOrder st (PlayerId (act ! i)) (PlayerId (act ! k)), preflopActionOrder st (PlayerId (act ! i)) (PlayerId (act ! k))))"
    using places_applyAll [OF quiet] st(1) by (simp add: evs opening_events)
  then show thesis using assms(4)
    by (intro that [OF i jk ix \<open>j \<noteq> k\<close> hs quiet _ _ _ _ _ _ _ st(2,3)]) (auto simp: evs opening_events places_def)
qed

section \<open>The button, the blinds and the order of action\<close>

lemma rotated_seats:
  assumes "ids_ok st" and "distinct (map Seat (activePlayers st))" and "k < length (activePlayers st)"
  defines "seats \<equiv> map Seat (activePlayers st)"
  shows "map (\<lambda>pid. Seat (the (player st pid)))
      (rotateFrom (map PlayerId (activePlayers st)) (Suc k mod length (activePlayers st))) = around (length seats) seats (seats ! k)"
proof -
  let ?act = "activePlayers st" let ?n = "length (activePlayers st)"
  have seat: "Seat (the (player st (map PlayerId ?act ! t))) = seats ! t" if "t < ?n" for t
    using active_player(1) [OF assms(1) nth_mem [OF that]] that by (simp add: seats_def)
  have sorted: "sorted seats" by (simp add: seats_def activePlayers_def)
  have "(Suc k mod ?n + t) mod ?n < ?n" for t using assms(3) by (intro mod_less_divisor) auto
  from seat [OF this] show ?thesis
    using around_nth [OF sorted, of k] assms(2,3)
    by (simp add: rotateFrom_def comp_def mod_add_left_eq seats_def del: nth_map)
qed

lemma preflop_seats:
  assumes "ids_ok st" and "distinct (map Seat (activePlayers st))" and "k < length (activePlayers st)"
  defines "seats \<equiv> map Seat (activePlayers st)"
  shows "map (\<lambda>pid. Seat (the (player st pid))) (preflopActionOrder st dealer (PlayerId (activePlayers st ! k)))
      = around (length seats) seats (seats ! k)"
    and "last (preflopActionOrder st dealer (PlayerId (activePlayers st ! k))) = PlayerId (activePlayers st ! k)"
proof -
  let ?act = "activePlayers st" let ?n = "length (activePlayers st)"
  have ord: "preflopActionOrder st dealer (PlayerId (?act ! k)) = rotateFrom (map PlayerId ?act) (Suc k mod ?n)"
    using index_of_nth [OF distinct_active [OF assms(1)], of k] assms(3)
    by (auto simp: preflopActionOrder_def seated_ids [OF assms(1)] Let_def)
  show "map (\<lambda>pid. Seat (the (player st pid))) (preflopActionOrder st dealer (PlayerId (?act ! k)))
      = around (length seats) seats (seats ! k)"
    using rotated_seats [OF assms(1-3)] by (simp add: ord seats_def)
  have "(Suc k mod ?n + (?n - 1)) mod ?n = (Suc k + (?n - 1)) mod ?n" by (rule mod_add_left_eq)
  also have "Suc k + (?n - 1) = k + ?n" using assms(3) by simp
  finally have "(Suc k mod ?n + (?n - 1)) mod ?n = k" using assms(3) by simp
  then show "last (preflopActionOrder st dealer (PlayerId (?act ! k))) = PlayerId (?act ! k)"
    using assms(3) by (subst last_conv_nth) (auto simp: ord rotateFrom_def)
qed

text \<open>After the flop the first to act is the next player left of the button; but when the dealer has
  no chips behind or has left, it is the player on the lowest seat, wherever the button is.\<close>

lemma postflop_order:
  assumes "ids_ok st" and "distinct (map Seat (activePlayers st))"
  defines "seats \<equiv> map Seat (activePlayers st)"
  shows "p \<in> set (activePlayers st) \<Longrightarrow>
      map (\<lambda>pid. Seat (the (player st pid))) (postflopActionOrder st (PlayerId p)) = around (length seats) seats (Seat p)"
    and "dealer \<notin> PlayerId ` set (activePlayers st) \<Longrightarrow>
      map (\<lambda>pid. Seat (the (player st pid))) (postflopActionOrder st dealer) = seats"
proof -
  note ids = seated_ids [OF assms(1)]
  show "map (\<lambda>pid. Seat (the (player st pid))) (postflopActionOrder st (PlayerId p)) = around (length seats) seats (Seat p)"
    if "p \<in> set (activePlayers st)"
  proof -
    obtain k where k: "k < length (activePlayers st)" "activePlayers st ! k = p" using \<open>p \<in> _\<close> by (auto simp: in_set_conv_nth)
    then have "index_of (PlayerId p) (map PlayerId (activePlayers st)) = Some k"
      using index_of_nth [OF distinct_active [OF assms(1)], of k] by simp
    then show ?thesis using rotated_seats [OF assms(1,2) k(1)] k
      by (simp add: postflopActionOrder_def rotateAfter_def ids seats_def)
  qed
  show "map (\<lambda>pid. Seat (the (player st pid))) (postflopActionOrder st dealer) = seats"
    if "dealer \<notin> PlayerId ` set (activePlayers st)"
  proof -
    have "index_of dealer (map PlayerId (activePlayers st)) = None" using that by (simp add: index_of_None)
    moreover have "Seat (the (player st (PlayerId q))) = Seat q" if "q \<in> set (activePlayers st)" for q
      using active_player(1) [OF assms(1) that] by simp
    ultimately show ?thesis by (simp add: postflopActionOrder_def rotateAfter_def ids seats_def comp_def)
  qed
qed

text \<open>C15. The start of a hand follows the rules of the game, seat by seat. The button goes to the next
  active seat to the left (to the lowest one for the first hand). The small blind is the next active
  seat to the left of the button, but the button itself when only two play; the big blind is the next
  after the small blind. Everybody active is due to act, from the left of the big blind around the
  table, so that the big blind is the last.\<close>

theorem button_and_blinds:
  assumes "ids_ok st" and "distinct (map Seat (activePlayers st))" and "CurrentHand st = None"
    and "advance uuid dlr now st d = (Inr evs, d')" and "CurrentHand (applyAll st evs) = Some h"
  shows "let seats = map Seat (activePlayers st); seat = (\<lambda>pid. Seat (the (player st pid))) in
      DealerSeat (applyAll st evs) = seat (DealerPlayerId h)
      \<and> seat (DealerPlayerId h) =
          (if HandNumber st = 0 then Min (set seats) else left_of seats (DealerSeat st))
      \<and> seat (SmallBlindPlayerId h) =
          (if length seats = 2 then seat (DealerPlayerId h) else left_of seats (seat (DealerPlayerId h)))
      \<and> seat (BigBlindPlayerId h) = left_of seats (seat (SmallBlindPlayerId h))
      \<and> map seat (PendingActions h) = around (length seats) seats (seat (BigBlindPlayerId h))
      \<and> last (PendingActions h) = BigBlindPlayerId h \<and> ActionOrder h = PendingActions h"
proof -
  let ?act = "activePlayers st" let ?seats = "map Seat (activePlayers st)"
  obtain i j k where i: "i = newDealerIdx ?act (DealerSeat st) (HandNumber st)"
    and jk: "(j, k) = blind_positions (length ?act) i" and ix: "i < length ?act" "j < length ?act" "k < length ?act"
    and h: "DealerSeat (applyAll st evs) = Seat (?act ! i)" "DealerPlayerId h = PlayerId (?act ! i)"
    "SmallBlindPlayerId h = PlayerId (?act ! j)" "BigBlindPlayerId h = PlayerId (?act ! k)"
    "ActionOrder h = preflopActionOrder st (PlayerId (?act ! i)) (PlayerId (?act ! k))" "PendingActions h = ActionOrder h"
    by (rule hand_opens [OF assms(1,3,4,5)]) (rule that)
  note seat = active_player(1) [OF assms(1) nth_mem [OF ix(1)]] active_player(1) [OF assms(1) nth_mem [OF ix(2)]]
    active_player(1) [OF assms(1) nth_mem [OF ix(3)]]
  have ne: "?act \<noteq> []" using ix by auto
  have sorted: "sorted ?seats" by (simp add: activePlayers_def)
  note left = left_of_nth [OF sorted assms(2)]
  have dealer: "Seat (?act ! i) = (if HandNumber st = 0 then Min (set ?seats) else left_of ?seats (DealerSeat st))"
    using first_seat_left [OF sorted ne] Min_sorted [OF sorted] ne by (simp add: i newDealerIdx_def)
  have "j = (if length ?act = 2 then i else Suc i mod length ?act)" and "k = Suc j mod length ?act"
    using jk by (auto simp: blind_positions_def mod_Suc_eq split: if_splits)
  then have "Seat (?act ! j) = (if length ?act = 2 then Seat (?act ! i) else left_of ?seats (Seat (?act ! i)))"
    and "Seat (?act ! k) = left_of ?seats (Seat (?act ! j))"
    using left [of i] left [of j] ix by auto
  then show ?thesis
    using dealer preflop_seats [OF assms(1,2) ix(3)] ix(3) by (simp add: h seat Let_def)
qed


section \<open>What everybody pays\<close>

definition pays :: "string \<Rightarrow> EventPayload \<Rightarrow> int" where
  "pays pid e = (case e of EvAntePosted q a \<Rightarrow> if q = pid then a else 0
     | EvBlindPosted q a s b dd \<Rightarrow> if q = pid then a else 0 | _ \<Rightarrow> 0)"

text \<open>A player's stack and total, and that the player is not taken to be all-in.\<close>

definition purse :: "int \<Rightarrow> int \<Rightarrow> string \<Rightarrow> GameState \<Rightarrow> bool" where
  "purse stk tot pid s \<longleftrightarrow> CurrentHand s \<noteq> None
     \<and> (\<exists>p. player s pid = Some p \<and> Stack p = stk \<and> TotalCommittedThisHand p = tot \<and> \<not> IsAllIn p)"

lemma purse_Version [simp]: "purse stk tot pid (s\<lparr>Version := v\<rparr>) = purse stk tot pid s"
  by (simp add: purse_def player_def)

lemma purse_with:
  assumes "purse stk tot pid s"
    and "\<And>p h. Stack p = stk \<Longrightarrow> TotalCommittedThisHand p = tot \<Longrightarrow> \<not> IsAllIn p \<Longrightarrow> q = pid \<Longrightarrow> Stack (fst (f p h)) = stk'
      \<and> TotalCommittedThisHand (fst (f p h)) = tot' \<and> \<not> IsAllIn (fst (f p h))"
    and "q \<noteq> pid \<Longrightarrow> stk' = stk \<and> tot' = tot"
  shows "purse stk' tot' pid (with_player_and_hand q f s)"
proof -
  obtain h p where h: "CurrentHand s = Some h" and p: "player s pid = Some p" "Stack p = stk"
    "TotalCommittedThisHand p = tot" "\<not> IsAllIn p" using assms(1) by (auto simp: purse_def)
  show ?thesis
  proof (cases "q = pid")
    case True
    then show ?thesis using h p assms(2) [OF p(2,3,4)]
      by (simp add: purse_def with_player_and_hand_Some player_upd_player) (simp add: player_def)
  next
    case False
    then show ?thesis using h p assms(3)
      by (cases "player s q")
        (auto simp: purse_def with_player_and_hand_def player_def map_of_map_entry split: prod.split)
  qed
qed

lemma purse_payload:
  assumes "purse stk tot pid s" and "keeps_fresh e" and "in64 (stk - pays pid e)" and "in64 (tot + pays pid e)"
  shows "purse (stk - pays pid e) (tot + pays pid e) pid (apply_payload e t s)"
proof (cases e)
  case (EvBlindPosted q a small big dead)
  then show ?thesis using assms(3,4)
    by (simp add: apply_BlindPosted_def) (rule purse_with [OF assms(1)]; simp add: pays_def i64_simps Let_def)
next
  case (EvAntePosted q a)
  then show ?thesis using assms(3,4)
    by (simp add: apply_AntePosted_def) (rule purse_with [OF assms(1)]; simp add: pays_def i64_simps)
qed (use assms(1,2) in \<open>auto simp: keeps_fresh_def pays_def purse_def apply_ShownCards_def player_upd_player\<close>)

lemma purse_applyAll:
  assumes "purse stk tot pid s" and "\<forall>e \<in> set es. keeps_fresh e \<and> 0 \<le> pays pid e"
    and "stk < 9223372036854775808" and "- 9223372036854775808 \<le> stk - sum_list (map (pays pid) es)"
    and "0 \<le> tot" and "tot + sum_list (map (pays pid) es) < 9223372036854775808"
  shows "purse (stk - sum_list (map (pays pid) es)) (tot + sum_list (map (pays pid) es)) pid (applyAll s (map mk_event es))"
  using assms
proof (induction es arbitrary: s stk tot)
  case (Cons e es)
  obtain v where v: "Apply s (mk_event e) = apply_payload e None (s\<lparr>Version := v\<rparr>)"
    using Apply_mk_event by blast
  have "0 \<le> sum_list (map (pays pid) es)" using Cons.prems(2) by (intro sum_list_nonneg) auto
  then have "in64 (stk - pays pid e)" "in64 (tot + pays pid e)" using Cons.prems(2-) by (auto simp: in64_def)
  from purse_payload [OF _ _ this] have "purse (stk - pays pid e) (tot + pays pid e) pid (Apply s (mk_event e))"
    using Cons.prems(1,2) by (simp add: v)
  from Cons.IH [OF this] show ?case using Cons.prems by (simp add: algebra_simps)
qed simp

text \<open>What the rules of the code make an active player pay: a part for each reason, each at most the
  stack from before the hand.\<close>

definition dues :: "GameState \<Rightarrow> HandState \<Rightarrow> PlayerState \<Rightarrow> int" where
  "dues st h p =
     (let c = (\<lambda>f. min (get_cfg f 0 (Config st)) (Stack p))
      in (if get_cfg Ante 0 (Config st) > 0 then c Ante else 0)
         + (if get_cfg BbAnte 0 (Config st) > 0 \<and> PlayerId p = BigBlindPlayerId h then c BbAnte else 0)
         + (if PlayerId p = SmallBlindPlayerId h then c SmallBlind else 0)
         + (if PlayerId p = BigBlindPlayerId h then c BigBlind else 0))"

lemma sum_antes:
  assumes "distinct (map PlayerId ps)" and "p \<in> set ps"
  shows "sum_list (map (\<lambda>x. pays (PlayerId p) (EvAntePosted (PlayerId x) (f x))) ps) = f p"
  using assms
proof (induction ps)
  case (Cons x xs)
  have none: "PlayerId p \<notin> PlayerId ` set xs \<Longrightarrow>
      sum_list (map (\<lambda>x. pays (PlayerId p) (EvAntePosted (PlayerId x) (f x))) xs) = 0"
    by (induction xs) (auto simp: pays_def)
  show ?case
  proof (cases "p = x")
    case False
    then have "p \<in> set xs" "PlayerId x \<noteq> PlayerId p" using Cons.prems by auto
    then show ?thesis using Cons by (simp add: pays_def)
  qed (use Cons.prems none in \<open>simp add: pays_def\<close>)
qed simp

lemma payments_sum:
  assumes "distinct (map PlayerId act)" and "p \<in> set act" and "sb \<in> set act" and "bb \<in> set act"
    and "SmallBlindPlayerId h = PlayerId sb" and "BigBlindPlayerId h = PlayerId bb"
  shows "sum_list (map (pays (PlayerId p)) (payments st act sb bb)) = dues st h p"
proof -
  have eq: "PlayerId x = PlayerId p \<Longrightarrow> Stack x = Stack p" if "x \<in> set act" for x
    using that assms(1,2) by (auto simp: distinct_map inj_on_def)
  let ?c = "\<lambda>f. get_cfg f 0 (Config st)" let ?pays = "pays (PlayerId p)"
  have "sum_list (map ?pays (map (\<lambda>p. EvAntePosted (PlayerId p) (min (?c Ante) (Stack p))) act)) = min (?c Ante) (Stack p)"
    unfolding map_map comp_def by (rule sum_antes [OF assms(1,2)])
  moreover have "?pays (EvAntePosted (PlayerId bb) (min (?c BbAnte) (Stack bb)))
      = (if PlayerId p = PlayerId bb then min (?c BbAnte) (Stack p) else 0)"
    and "?pays (EvBlindPosted (PlayerId sb) (min (?c SmallBlind) (Stack sb)) True False False)
      = (if PlayerId p = PlayerId sb then min (?c SmallBlind) (Stack p) else 0)"
    and "?pays (EvBlindPosted (PlayerId bb) (min (?c BigBlind) (Stack bb)) False True False)
      = (if PlayerId p = PlayerId bb then min (?c BigBlind) (Stack p) else 0)"
    using eq [OF assms(3)] eq [OF assms(4)] by (simp_all add: pays_def eq_commute [of "PlayerId p"])
  ultimately show ?thesis
    unfolding payments_def dues_def Let_def assms(5,6) map_append sum_list_append
    by (simp only: if_distrib [of "map ?pays"] if_distrib [of sum_list] list.map sum_list.Nil sum_list.Cons)
      simp
qed

text \<open>C16. At the start of a hand every active player (with at most \<open>2 ^ 61\<close> chips) pays the ante, the ante of the big blind and the
  blinds, each of them cut to the whole stack from before the hand and not to what is left of it. So a
  small blind with less than ante and blind together ends with a stack below zero and with more in the
  pot than he had; and nobody who paid is marked all-in, also not when the stack is used up.\<close>

theorem antes_and_blinds_overdraw:
  assumes "ids_ok st" and "CurrentHand st = None"
    and "advance uuid dlr now st d = (Inr evs, d')" and "CurrentHand (applyAll st evs) = Some h"
    and "p \<in> set (activePlayers st)" and "Stack p \<le> 2305843009213693952"
    and "0 < get_cfg SmallBlind 0 (Config st)" and "0 \<le> get_cfg BigBlind 0 (Config st)"
  shows "(\<exists>q. player (applyAll st evs) (PlayerId p) = Some q \<and> Stack q = Stack p - dues st h p
        \<and> TotalCommittedThisHand q = dues st h p \<and> \<not> IsAllIn q
        \<and> (PlayerId p = SmallBlindPlayerId h \<and> 0 < get_cfg Ante 0 (Config st) \<longrightarrow>
            (Stack q < 0 \<longleftrightarrow> Stack p < get_cfg Ante 0 (Config st) + get_cfg SmallBlind 0 (Config st))))"
proof -
  let ?act = "activePlayers st" let ?c = "\<lambda>f. get_cfg f 0 (Config st)"
  obtain i j k hs s where ix: "i < length ?act" "j < length ?act" "k < length ?act" and "j \<noteq> k"
    and hs: "\<forall>e \<in> set hs. \<exists>pid c1 c2. e = EvHoleCardsDealt pid \<or> e = EvHoleCardsRevealed pid c1 c2"
    and quiet: "\<forall>e \<in> set (payments st ?act (?act ! j) (?act ! k) @ hs). keeps_fresh e"
    and all: "applyAll st evs = applyAll s (map mk_event (payments st ?act (?act ! j) (?act ! k) @ hs))"
    and h: "SmallBlindPlayerId h = PlayerId (?act ! j)" "BigBlindPlayerId h = PlayerId (?act ! k)"
    and s: "\<And>pid. player s pid = map_option ready (player st pid)" "\<exists>h. CurrentHand s = Some h"
    by (rule hand_opens [OF assms(1-4)]) (rule that)
  let ?es = "payments st ?act (?act ! j) (?act ! k) @ hs"
  have sbbb: "PlayerId (?act ! j) \<noteq> PlayerId (?act ! k)"
    using distinct_active [OF assms(1)] ix \<open>j \<noteq> k\<close> by (simp add: distinct_conv_nth)
  note mem = nth_mem [OF ix(2)] nth_mem [OF ix(3)] and pl = active_player [OF assms(1,5)]
  have none: "pays (PlayerId p) e = 0" if "e \<in> set hs" for e using bspec [OF hs that] by (auto simp: pays_def)
  have "purse (Stack p) 0 (PlayerId p) s" using s pl by (auto simp: purse_def ready_def)
  moreover have "\<forall>e \<in> set ?es. keeps_fresh e \<and> 0 \<le> pays (PlayerId p) e"
  proof -
    have "0 \<le> pays (PlayerId p) e" if "e \<in> set (payments st ?act (?act ! j) (?act ! k))" for e
      using that active_player(2) [OF assms(1)] mem assms(7,8)
      by (fastforce simp: payments_def Let_def pays_def split: if_splits)
    then show ?thesis using quiet none by auto
  qed
  moreover have "sum_list (map (pays (PlayerId p)) ?es) = dues st h p"
    using payments_sum [OF distinct_active [OF assms(1)] assms(5) mem h] none by (simp cong: map_cong)
  moreover have "dues st h p \<le> 3 * Stack p" "0 \<le> dues st h p"
    using h sbbb pl(2) assms(7,8) by (auto simp: dues_def Let_def min_def)
  ultimately have "purse (Stack p - dues st h p) (dues st h p) (PlayerId p) (applyAll st evs)"
    using purse_applyAll [of "Stack p" 0 "PlayerId p" s ?es] assms(6) pl(2) unfolding all by simp
  moreover have "Stack p - dues st h p < 0 \<longleftrightarrow> Stack p < ?c Ante + ?c SmallBlind"
    if "PlayerId p = SmallBlindPlayerId h" "0 < ?c Ante"
    using that h sbbb pl(2) assms(7) by (auto simp: dues_def Let_def min_def)
  ultimately show ?thesis by (auto simp: purse_def)
qed

section \<open>Witnesses\<close>

text \<open>Three players who sit out of order; the button was on seat 2. Ante 8 and blinds of 5 and 10; the
  next small blind, on seat 5, has 10.\<close>

definition ante_config :: CashGameConfig where
  "ante_config = rake_config\<lparr>SmallBlind := 5, BigBlind := 10, Ante := 8\<rparr>"

definition ante_state :: GameState where
  "ante_state = (sample_state [(''c'', sample_player ''c'' 5 10 0 False),
     (''a'', sample_player ''a'' 2 100 0 False), (''b'', sample_player ''b'' 3 100 0 False)] None)
     \<lparr>DealerSeat := 2, Config := Some ante_config\<rparr>"

lemma ante_move:
  obtains evs d' h where "advance (\<lambda>_. ''h2'') FixedDealer 0 ante_state (NewFixedDealer [0..<52]) = (Inr evs, d')"
    and "CurrentHand (applyAll ante_state evs) = Some h" and "SmallBlindPlayerId h = ''c''" "BigBlindPlayerId h = ''a''"
proof -
  let ?r = "advance (\<lambda>_. ''h2'') FixedDealer 0 ante_state (NewFixedDealer [0..<52])"
  have "case fst ?r of Inl e \<Rightarrow> False | Inr evs \<Rightarrow> map_option (\<lambda>h. (SmallBlindPlayerId h, BigBlindPlayerId h)) (CurrentHand (applyAll ante_state evs)) = Some (''c'', ''a'')"
    by code_simp
  then show thesis using that by (cases ?r; cases "fst ?r") auto
qed

lemma ante_facts:
  "ids_ok ante_state" "CurrentHand ante_state = None" "map Seat (activePlayers ante_state) = [2, 3, 5]"
  "HandNumber ante_state = 1" "DealerSeat ante_state = 2" "get_cfg SmallBlind 0 (Config ante_state) = 5"
  "get_cfg BigBlind 0 (Config ante_state) = 10" "get_cfg Ante 0 (Config ante_state) = 8"
  "sample_player ''c'' 5 10 0 False \<in> set (activePlayers ante_state)"
  by code_simp+

lemma button_and_blinds_witness:
  "\<exists>evs d' h. advance (\<lambda>_. ''h2'') FixedDealer 0 ante_state (NewFixedDealer [0..<52]) = (Inr evs, d')
     \<and> CurrentHand (applyAll ante_state evs) = Some h \<and> DealerSeat (applyAll ante_state evs) = 3
     \<and> map (\<lambda>pid. Seat (the (player ante_state pid)))
         [DealerPlayerId h, SmallBlindPlayerId h, BigBlindPlayerId h] = [3, 5, 2]
     \<and> map (\<lambda>pid. Seat (the (player ante_state pid))) (PendingActions h) = [3, 5, 2]"
proof -
  obtain evs d' h where r: "advance (\<lambda>_. ''h2'') FixedDealer 0 ante_state (NewFixedDealer [0..<52]) = (Inr evs, d')"
    "CurrentHand (applyAll ante_state evs) = Some h" by (rule ante_move)
  have "distinct (map Seat (activePlayers ante_state))" by (simp add: ante_facts)
  from button_and_blinds [OF ante_facts(1) this ante_facts(2) r] show ?thesis using r
    by (simp add: ante_facts Let_def left_of_def eval_nat_numeral)
qed

lemma antes_and_blinds_overdraw_witness:
  "\<exists>evs d' q. advance (\<lambda>_. ''h2'') FixedDealer 0 ante_state (NewFixedDealer [0..<52]) = (Inr evs, d')
     \<and> player (applyAll ante_state evs) ''c'' = Some q \<and> Stack q = -3 \<and> TotalCommittedThisHand q = 13
     \<and> Stack q < 0 \<and> \<not> IsAllIn q"
proof -
  obtain evs d' h where r: "advance (\<lambda>_. ''h2'') FixedDealer 0 ante_state (NewFixedDealer [0..<52]) = (Inr evs, d')"
    "CurrentHand (applyAll ante_state evs) = Some h" and c: "SmallBlindPlayerId h = ''c''" "BigBlindPlayerId h = ''a''"
    by (rule ante_move)
  note p = ante_facts(9)
  from antes_and_blinds_overdraw [OF ante_facts(1,2) r p] show ?thesis using r c
    by (simp add: ante_facts dues_def sample_player_def) blast
qed

end
