(* ===== verification/Setup.thy ===== *)
theory Setup
  imports Auth
begin

text \<open>
  Start-up: \<open>src/internal/config/config.go\<close>, \<open>envOrDefault\<close> of src/cmd/server/main.go, and the part
  of \<open>src/internal/auth\<close> that ties the validator of tokens to the configuration (\<open>NewAuthenticator\<close>,
  claims.go). The environment is a function to strings, \<open>''''\<close> for what is not set. The third-party
  validator is the argument \<open>jwt\<close>: from its options and a token to the subject and the raw claims of a
  valid token; \<open>json_Unmarshal\<close> and \<open>url_Parse\<close> are arguments too.
\<close>

section \<open>The environment\<close>

definition envOrDefault :: "(string \<Rightarrow> string) \<Rightarrow> string \<Rightarrow> string \<Rightarrow> string" where
  "envOrDefault env k def = (if env k \<noteq> [] then env k else def)"

record Auth0Config =
  AuthDomain :: string
  Audience :: string
  ClaimsNamespace :: string
  DevModeAllowStubAuth :: bool

definition HasSuffix :: "string \<Rightarrow> string \<Rightarrow> bool" where
  "HasSuffix s p \<longleftrightarrow> length p \<le> length s \<and> drop (length s - length p) s = p"

definition LoadAuth0FromEnv :: "(string \<Rightarrow> string) \<Rightarrow> go_err + Auth0Config" where
  "LoadAuth0FromEnv env =
     (let domain = env ''AUTH0_DOMAIN''; audience = env ''AUTH0_AUDIENCE''
      in if domain = [] \<or> audience = []
         then Inl (NewError ''AUTH0_DOMAIN and AUTH0_AUDIENCE must be set'')
         else
           let ns = (let n = env ''AUTH0_CLAIMS_NAMESPACE'' in if n = [] then audience @ ''/'' else n);
               ns = (if \<not> HasSuffix ns ''/'' then ns @ ''/'' else ns)
           in Inr \<lparr>AuthDomain = domain, Audience = audience, ClaimsNamespace = ns,
                DevModeAllowStubAuth = (env ''AUTH_DEV_MODE'' = ''1'')\<rparr>)"

section \<open>The validator of tokens\<close>

datatype json_value = JString string | JOther

definition UnmarshalJSON ::
  "(string \<Rightarrow> (string \<Rightarrow> json_value option) option) \<Rightarrow> string \<Rightarrow> string \<Rightarrow> customClaims option" where
  \<comment> \<open>\<open>None\<close>: the error of \<open>json.Unmarshal\<close>\<close>
  "UnmarshalJSON json_Unmarshal namespace data =
     map_option (\<lambda>raw.
       \<lparr>cc_DisplayName = (case raw (namespace @ ''display_name'') of Some (JString v) \<Rightarrow> v | _ \<Rightarrow> []),
        cc_Email = (case raw (namespace @ ''email'') of Some (JString v) \<Rightarrow> v | _ \<Rightarrow> [])\<rparr>)
       (json_Unmarshal data)"

record validator_options =
  vo_Issuer :: string
  vo_Audience :: "string list"
  vo_Namespace :: string
  vo_ClockSkew :: int

definition NewAuthenticator :: "(string \<Rightarrow> string option) \<Rightarrow> Auth0Config \<Rightarrow> go_err + validator_options" where
  \<comment> \<open>the options of the validator; \<open>None\<close> is the error of \<open>url.Parse\<close>\<close>
  "NewAuthenticator url_Parse cfg =
     (case url_Parse (''https://'' @ AuthDomain cfg @ ''/'') of
        None \<Rightarrow> Inl (NewError ''parse issuer URL'')
      | Some issuer \<Rightarrow> Inr \<lparr>vo_Issuer = issuer, vo_Audience = [Audience cfg],
          vo_Namespace = ClaimsNamespace cfg, vo_ClockSkew = 30\<rparr>)"

definition ValidateToken ::
  "(validator_options \<Rightarrow> string \<Rightarrow> (string \<times> string) option)
     \<Rightarrow> (string \<Rightarrow> (string \<Rightarrow> json_value option) option) \<Rightarrow> validator_options \<Rightarrow> string
     \<Rightarrow> (string \<times> customClaims option) option" where
  \<comment> \<open>the claims of a valid token are read by \<open>UnmarshalJSON\<close>, whose error makes the token invalid\<close>
  "ValidateToken jwt json_Unmarshal opts token =
     (case jwt opts token of
        None \<Rightarrow> None
      | Some (sub, data) \<Rightarrow>
          map_option (\<lambda>cc. (sub, Some cc)) (UnmarshalJSON json_Unmarshal (vo_Namespace opts) data))"

text \<open>The interceptor as \<open>main\<close> installs it.\<close>

definition installed ::
  "(validator_options \<Rightarrow> string \<Rightarrow> (string \<times> string) option)
     \<Rightarrow> (string \<Rightarrow> (string \<Rightarrow> json_value option) option) \<Rightarrow> Auth0Config \<Rightarrow> validator_options
     \<Rightarrow> 'c userCache \<Rightarrow> (string \<Rightarrow> uuid option) \<Rightarrow> (Db \<Rightarrow> Db) \<Rightarrow> uuid \<Rightarrow> (string \<Rightarrow> string list) option \<Rightarrow> string
     \<Rightarrow> (Principal option \<Rightarrow> 'c option \<times> Db \<Rightarrow> (codes + 'r) \<times> 'c option \<times> Db) \<Rightarrow> 'c option \<times> Db
     \<Rightarrow> (codes + 'r) \<times> 'c option \<times> Db" where
  "installed jwt json_Unmarshal cfg opts ops parse meanwhile newID md =
     Interceptor (authContext ops parse (ValidateToken jwt json_Unmarshal opts) meanwhile newID
       (DevModeAllowStubAuth cfg) md)"

section \<open>Who gets in\<close>

lemma namespace_ends: "LoadAuth0FromEnv env = Inr cfg \<Longrightarrow> \<exists>ns. ClaimsNamespace cfg = ns @ ''/''"
proof -
  have suffix: "HasSuffix s p \<Longrightarrow> \<exists>ns. s = ns @ p" for s p
    unfolding HasSuffix_def by (metis append_take_drop_id)
  assume "LoadAuth0FromEnv env = Inr cfg"
  then show ?thesis using suffix [of _ "''/''"]
    by (auto simp: LoadAuth0FromEnv_def Let_def split: if_splits)
qed

lemma TrimPrefix_token: "TrimPrefix raw p = t \<Longrightarrow> t \<noteq> raw \<Longrightarrow> raw = p @ t"
  unfolding TrimPrefix_def by (metis append_take_drop_id)

text \<open>C21. Without \<open>AUTH_DEV_MODE=1\<close> in the environment a request of a method that is not public
  reaches its handler only with a bearer token that the validator accepts for the configured issuer
  and audience; no header takes its place. The handler gets the subject of that token, the user whom
  the store has for this subject, and the name and address under the configured namespace.\<close>

theorem production_needs_token:
  assumes "LoadAuth0FromEnv env = Inr cfg" and "env ''AUTH_DEV_MODE'' \<noteq> ''1''"
    and "NewAuthenticator url_Parse cfg = Inr opts" and "fullMethod \<notin> set PublicMethods"
    and "lru ops holds" and "cache_right holds cs" and "\<And>s. users_ok s \<Longrightarrow> users_grow s (meanwhile s)"
    and "installed jwt json_Unmarshal cfg opts ops parse meanwhile newID md fullMethod (\<lambda>p x. (Inr p, x)) cs
      = (Inr got, cs1)"
  shows "\<exists>m token rest sub data raw p. md = Some m \<and> m ''authorization'' = (''Bearer '' @ token) # rest
      \<and> url_Parse (''https://'' @ env ''AUTH0_DOMAIN'' @ ''/'') = Some (vo_Issuer opts)
      \<and> vo_Audience opts = [env ''AUTH0_AUDIENCE''] \<and> jwt opts token = Some (sub, data) \<and> sub \<noteq> []
      \<and> json_Unmarshal data = Some raw \<and> got = Some p \<and> pr_ExternalID p = sub
      \<and> owner (committed (snd cs1)) sub = Some (pr_UserID p)
      \<and> (pr_Email p \<noteq> [] \<longrightarrow> raw (ClaimsNamespace cfg @ ''email'') = Some (JString (pr_Email p)))"
proof -
  have dev: "\<not> DevModeAllowStubAuth cfg" and env: "AuthDomain cfg = env ''AUTH0_DOMAIN''" "Audience cfg = env ''AUTH0_AUDIENCE''"
    using assms(1,2) by (auto simp: LoadAuth0FromEnv_def Let_def split: if_splits)
  have opts: "url_Parse (''https://'' @ env ''AUTH0_DOMAIN'' @ ''/'') = Some (vo_Issuer opts)"
    "vo_Audience opts = [env ''AUTH0_AUDIENCE'']" "vo_Namespace opts = ClaimsNamespace cfg"
    using assms(3) by (auto simp: NewAuthenticator_def env split: option.splits)
  obtain p where p: "got = Some p" and au: "authContext ops parse (ValidateToken jwt json_Unmarshal opts)
      meanwhile newID False md cs = (Inr p, cs1)"
    using assms(4,8) dev by (auto simp: installed_def Interceptor_def split: prod.splits sum.splits)
  then obtain m raw0 rest token where m: "md = Some m" "m ''authorization'' = raw0 # rest"
    and token: "TrimPrefix raw0 ''Bearer '' = token" "token \<noteq> raw0"
    and v: "Verify ops (ValidateToken jwt json_Unmarshal opts) meanwhile newID token cs = (Inr p, cs1)"
    by (auto simp: authContext_def Let_def split: option.splits list.splits if_splits prod.splits sum.splits)
  obtain sub data raw cc u where val: "jwt opts token = Some (sub, data)" "json_Unmarshal data = Some raw"
    and cc: "UnmarshalJSON json_Unmarshal (vo_Namespace opts) data = Some cc" and sub: "sub \<noteq> []"
    and u: "resolveUser ops meanwhile newID sub (Some cc) cs = (Inr u, cs1)"
    and pr: "p = \<lparr>pr_UserID = u, pr_ExternalID = sub, pr_DisplayName = cc_DisplayName cc, pr_Email = cc_Email cc\<rparr>"
    using v by (auto simp: Verify_def ValidateToken_def UnmarshalJSON_def split: option.splits if_splits prod.splits sum.splits)
  have "owner (committed (snd cs1)) sub = Some u"
    using resolveUser_right [OF u assms(5,6,7) sub] by auto
  moreover have "cc_Email cc \<noteq> [] \<longrightarrow> raw (ClaimsNamespace cfg @ ''email'') = Some (JString (cc_Email cc))"
    using cc val(2) by (auto simp: UnmarshalJSON_def opts(3) split: option.splits json_value.splits)
  moreover have "m ''authorization'' = (''Bearer '' @ token) # rest"
    using TrimPrefix_token [OF token] m(2) by simp
  ultimately show ?thesis using m(1) opts(1,2) val sub p pr by fastforce
qed

text \<open>An environment, a validator that accepts one token, and its claims.\<close>

definition demo_env :: "string \<Rightarrow> string" where
  "demo_env k = (if k = ''AUTH0_DOMAIN'' then ''t.auth0.com'' else if k = ''AUTH0_AUDIENCE'' then ''https://api'' else [])"

definition demo_jwt :: "validator_options \<Rightarrow> string \<Rightarrow> (string \<times> string) option" where
  "demo_jwt opts t = (if t = ''tok'' \<and> vo_Audience opts = [''https://api''] then Some (''auth0|ann'', ''body'') else None)"

definition demo_json :: "string \<Rightarrow> (string \<Rightarrow> json_value option) option" where
  "demo_json data = Some (\<lambda>k. if k = ''https://api/email'' then Some (JString ''ann@x'') else None)"

definition demo_metadata :: "(string \<Rightarrow> string list) option" where
  "demo_metadata = Some (\<lambda>k. if k = ''authorization'' then [''Bearer tok''] else if k = ''x-dev-player-id'' then [''7''] else [])"

theorem production_needs_token_witness:
  "\<exists>cfg opts p cs1. LoadAuth0FromEnv demo_env = Inr cfg \<and> NewAuthenticator Some cfg = Inr opts
     \<and> installed demo_jwt demo_json cfg opts list_cache Some id ''1'' demo_metadata ''/poker.v1.PokerService/JoinTable''
         (\<lambda>p x. (Inr p, x)) (Some [], walker_db) = (Inr (Some p), cs1)
     \<and> pr_ExternalID p = ''auth0|ann'' \<and> owner (committed (snd cs1)) ''auth0|ann'' = Some (pr_UserID p)"
proof -
  let ?cfg = "\<lparr>AuthDomain = ''t.auth0.com'', Audience = ''https://api'', ClaimsNamespace = ''https://api/'', DevModeAllowStubAuth = False\<rparr>"
  let ?opts = "\<lparr>vo_Issuer = ''https://t.auth0.com/'', vo_Audience = [''https://api''], vo_Namespace = ''https://api/'', vo_ClockSkew = 30\<rparr>"
  let ?r = "installed demo_jwt demo_json ?cfg ?opts list_cache Some id ''1'' demo_metadata
    ''/poker.v1.PokerService/JoinTable'' (\<lambda>p x. (Inr p, x)) (Some [], walker_db)"
  have cfg: "LoadAuth0FromEnv demo_env = Inr ?cfg" and dev: "demo_env ''AUTH_DEV_MODE'' \<noteq> ''1''"
    and pub: "''/poker.v1.PokerService/JoinTable'' \<notin> set PublicMethods" by code_simp+
  have opts: "NewAuthenticator Some ?cfg = Inr ?opts" by (simp add: NewAuthenticator_def)
  have "case fst ?r of Inl _ \<Rightarrow> False | Inr _ \<Rightarrow> True" by code_simp
  then obtain got cs1 where r: "?r = (Inr got, cs1)" by (cases ?r; cases "fst ?r") auto
  have right: "cache_right set (Some [], walker_db)"
    by (simp add: cache_right_def entries_def walker_db_users_ok)
  have "\<exists>p. got = Some p \<and> pr_ExternalID p = ''auth0|ann'' \<and> owner (committed (snd cs1)) ''auth0|ann'' = Some (pr_UserID p)"
    using production_needs_token [OF cfg dev opts pub list_cache_lru right _ r]
    by (auto simp: users_grow_def demo_jwt_def demo_metadata_def split: if_splits)
  then show ?thesis using cfg opts r by blast
qed

end
