(* ===== verification/CopyFrom.thy ===== *)
theory CopyFrom
  imports Store
begin

text \<open>
  \<open>src/internal/store/pgstore/copyfrom.go\<close>: the iterator that gives the rows of a batch of events to the
  third-party \<open>CopyFrom\<close>, which asks \<open>Next\<close> and reads \<open>Values\<close> as long as the answer is yes. A row
  stands for the list of its columns.
\<close>

record 'row iterator =
  it_rows :: "'row list"
  skippedFirstNextCall :: bool

definition it_Next :: "'row iterator \<Rightarrow> bool \<times> 'row iterator" where
  "it_Next r =
     (if it_rows r = [] then (False, r)
      else if \<not> skippedFirstNextCall r then (True, r\<lparr>skippedFirstNextCall := True\<rparr>)
      else let r1 = r\<lparr>it_rows := tl (it_rows r)\<rparr> in (it_rows r1 \<noteq> [], r1))"

definition it_Values :: "'row iterator \<Rightarrow> 'row" where
  "it_Values r = it_rows r ! 0"

text \<open>What \<open>CopyFrom\<close> reads.\<close>

function read_all :: "'row iterator \<Rightarrow> 'row list" where
  "read_all r = (case it_Next r of (yes, r1) \<Rightarrow> if yes then it_Values r1 # read_all r1 else [])"
  by pat_completeness auto

termination
  by (relation "measure (\<lambda>r. 2 * length (it_rows r) + (if skippedFirstNextCall r then 0 else 1))")
    (auto simp: it_Next_def Let_def split: if_splits)

declare read_all.simps [simp del]

lemma read_rest: "skippedFirstNextCall r \<Longrightarrow> read_all r = tl (it_rows r)"
proof (induction "it_rows r" arbitrary: r)
  case (Cons x xs)
  then show ?case
    by (cases xs; subst read_all.simps) (auto simp: it_Next_def it_Values_def Let_def split: prod.split dest: sym)
qed (subst read_all.simps; simp add: it_Next_def)

text \<open>Each row is copied once, in the order of the batch, and nothing when the batch is empty.\<close>

lemma copies_all_rows: "read_all \<lparr>it_rows = rows, skippedFirstNextCall = False\<rparr> = rows"
  by (subst read_all.simps) (cases rows; simp add: it_Next_def it_Values_def read_rest)

end
