(* ===== verification/Leaving.thy ===== *)
theory Leaving
  imports Server
begin

text \<open>
  Leaving a table through the service: \<open>LeaveTable\<close> of src/internal/server/server.go over
  src/internal/lobby/join_leave.go and \<open>pgStore\<close>. That a leave succeeds, that a join followed by a leave
  moves no chips, and what a leave that is sent again is answered.
\<close>

section \<open>Appending succeeds\<close>

definition numbered_rows :: "nat \<Rightarrow> event_row list \<Rightarrow> bool" where
  "numbered_rows n rs \<longleftrightarrow> map er_sequence rs = map int [Suc n..<Suc n + length rs]"

lemma params_of_total:
  assumes "\<forall>e \<in> set evs. evt_GameId e = g \<and> evt_Event e \<noteq> None \<and> evt_CausedByCommandId e = cmd"
    and "parse g = Some g" and "cmd = [] \<or> parse cmd = Some cmd"
  shows "\<exists>rs. params_of parse evs = Inr rs
    \<and> (\<forall>r \<in> set rs. er_command_id r = (if cmd = [] then None else Some cmd))"
  using assms
proof (induction evs)
  case (Cons e evs)
  then obtain rs where "params_of parse evs = Inr rs" "\<forall>r \<in> set rs. er_command_id r = (if cmd = [] then None else Some cmd)"
    by auto
  then show ?case using Cons.prems by (auto simp: eventToParams_def Let_def)
qed simp

lemma copy_events_total:
  assumes "distinct (map (\<lambda>r. (er_game_id r, er_sequence r)) (game_events t @ rs))" and "\<forall>r \<in> set rs. 0 < er_sequence r"
  shows "copy_events rs t = Inr (t\<lparr>game_events := game_events t @ rs\<rparr>)"
  using assms
proof (induction rs arbitrary: t)
  case (Cons r rs)
  have "insert_event r t = Inr (t\<lparr>game_events := game_events t @ [r]\<rparr>)"
    using Cons.prems by (auto simp: insert_event_def image_iff)
  then show ?case using Cons.prems Cons.IH [of "t\<lparr>game_events := game_events t @ [r]\<rparr>"] by simp
qed simp

text \<open>The events of a leave.\<close>

lemma leave_events_shape:
  assumes "Suc (Suc n) < max_seq"
  shows "\<forall>e \<in> set (leave_events now input st n pid p). evt_GameId e = li_GameID input \<and> evt_Event e \<noteq> None
      \<and> evt_CausedByCommandId e = cmd_text (li_CommandID input)"
    and "map evt_Sequence (leave_events now input st n pid p)
      = [Suc n..<Suc n + length (leave_events now input st n pid p)]"
    and "length (leave_events now input st n pid p) \<le> 2" and "leave_events now input st n pid p \<noteq> []"
    and "(case evt_Event (hd (leave_events now input st n pid p)) of Some (EvPlayerLeft q c r) \<Rightarrow> c | _ \<Rightarrow> 0)
      = (if CurrentHand st \<noteq> None \<and> \<not> IsFolded p then 0 else Stack p)"
proof -
  have "to_uint64 (int n + 1) = Suc n" "to_uint64 (int (Suc n) + 1) = Suc (Suc n)"
    using assms by (simp_all add: to_uint64_def max_seq_def)
  then show "\<forall>e \<in> set (leave_events now input st n pid p). evt_GameId e = li_GameID input \<and> evt_Event e \<noteq> None
      \<and> evt_CausedByCommandId e = cmd_text (li_CommandID input)"
    "map evt_Sequence (leave_events now input st n pid p)
      = [Suc n..<Suc n + length (leave_events now input st n pid p)]"
    "length (leave_events now input st n pid p) \<le> 2" "leave_events now input st n pid p \<noteq> []"
    "(case evt_Event (hd (leave_events now input st n pid p)) of Some (EvPlayerLeft q c r) \<Rightarrow> c | _ \<Rightarrow> 0)
      = (if CurrentHand st \<noteq> None \<and> \<not> IsFolded p then 0 else Stack p)"
    by (simp_all add: leave_events_def Let_def BuildAutoFoldEvent_def BuildPlayerLeftEvent_def upt_rec del: of_nat_Suc)
qed

lemma row_bounds:
  assumes "pg_good s" and "\<forall>e \<in> set (pg_log s g). evt_Sequence e \<le> n"
    and "q \<in> set (game_events (tables s))" and "er_game_id q = g"
  shows "er_sequence q \<le> int n"
proof -
  have "q \<in> set (rows_of_game g s)" using assms(3,4) by (simp add: rows_set)
  then have "row_ok q" "er_envelope q \<in> set (pg_log s g)" using rows_ok [OF assms(1)] by (auto simp: pg_log_def)
  then show ?thesis using assms(2) by (auto simp: row_ok_def)
qed

lemma leave_appends:
  assumes "pg_idle s" and "pg_good s" and "set (faults s) \<subseteq> {''CreditUserBalance''}"
    and "parse (li_GameID input) = Some (li_GameID input)"
    and "li_CommandID input = uuid_Nil \<or> li_CommandID input \<noteq> [] \<and> parse (li_CommandID input) = Some (li_CommandID input)"
    and below: "\<forall>e \<in> set (pg_log s (li_GameID input)). evt_Sequence e \<le> n" and "Suc (Suc n) < max_seq"
    and evs_def: "evs = leave_events now input st n pid p"
  obtains rs where "map er_envelope rs = evs" and "\<forall>r \<in> set rs. er_game_id r = li_GameID input \<and> row_ok r
      \<and> (li_CommandID input \<noteq> uuid_Nil \<longrightarrow> er_command_id r = Some (li_CommandID input))"
    and "distinct (map (\<lambda>r. (er_game_id r, er_sequence r)) (game_events (committed s) @ rs))"
    and "rows_of_game (li_GameID input) (s\<lparr>committed := (committed s)\<lparr>game_events := game_events (committed s) @ rs\<rparr>\<rparr>)
      = rows_of_game (li_GameID input) s @ rs"
    and "pg_AppendEvents parse evs (tx_view s) = (None, tx_view (s\<lparr>committed :=
      (committed s)\<lparr>game_events := game_events (committed s) @ rs\<rparr>\<rparr>))"
proof -
  let ?g = "li_GameID input" and ?cmd = "cmd_text (li_CommandID input)"
  note shape = leave_events_shape [OF assms(7), of now input st pid p, folded evs_def]
  have c: "?cmd = [] \<or> parse ?cmd = Some ?cmd" using assms(5) by (auto simp: cmd_text_def)
  obtain rs where rs: "params_of parse evs = Inr rs" "\<forall>r \<in> set rs. er_command_id r = (if ?cmd = [] then None else Some ?cmd)"
    using params_of_total [OF shape(1) assms(4) c] by blast
  have num: "set (map evt_Sequence evs) \<subseteq> {n<..<max_seq}" unfolding shape(2) using shape(3) assms(7) by auto
  then have bnd: "\<forall>e \<in> set evs. 0 < evt_Sequence e \<and> evt_Sequence e < max_seq" by fastforce
  have env: "map er_envelope rs = evs" "\<forall>r \<in> set rs. er_game_id r = ?g \<and> row_ok r"
    using params_of_Inr [OF rs(1) _ assms(4) bnd] shape(1) by auto
  have sq: "map er_sequence rs = map int [Suc n..<Suc n + length evs]"
  proof -
    have "map er_sequence rs = map int (map evt_Sequence (map er_envelope rs))" using env(2) by (simp add: row_ok_def)
    then show ?thesis unfolding env(1) shape(2) .
  qed
  have tabs: "tables s = committed s" using assms(1) by (simp add: pg_idle_def tables_def)
  have old: "er_sequence q < er_sequence r" if "q \<in> set (game_events (committed s))" "r \<in> set rs" "er_game_id q = ?g" for q r
  proof -
    have "er_sequence r \<in> set (map er_sequence rs)" using that(2) by simp
    then have "int n < er_sequence r" unfolding sq by auto
    then show ?thesis using row_bounds [OF assms(2) below, of q] that tabs by fastforce
  qed
  have dist: "distinct (map (\<lambda>r. (er_game_id r, er_sequence r)) (game_events (committed s) @ rs))"
  proof -
    have "distinct (map er_sequence rs)" unfolding sq by (simp add: distinct_map)
    then have "distinct (map (\<lambda>r. (er_game_id r, er_sequence r)) rs)"
      by (auto simp: distinct_map inj_on_def)
    then show ?thesis using assms(2) old env(2) by (fastforce simp: pg_good_def)
  qed
  have "0 < er_sequence r" if "r \<in> set rs" for r using env(2) that by (auto simp: row_ok_def)
  then have copy: "copy_events rs (committed s) = Inr ((committed s)\<lparr>game_events := game_events (committed s) @ rs\<rparr>)"
    by (intro copy_events_total [OF dist]) simp
  have up: "\<not> down q (tx_view s)" if "q \<noteq> ''CreditUserBalance''" for q
    using assms(3) that by (auto simp: down_def tx_view_def)
  have app: "pg_AppendEvents parse evs (tx_view s) = (None, tx_view (s\<lparr>committed :=
      (committed s)\<lparr>game_events := game_events (committed s) @ rs\<rparr>\<rparr>))"
    using rs(1) copy by (simp add: pg_AppendEvents_def up) (simp add: tx_view_def)
  have "sorted (map er_sequence rs)" unfolding sq by (rule sorted_int_upt)
  then have "rows_of_game ?g (s\<lparr>committed := (committed s)\<lparr>game_events := game_events (committed s) @ rs\<rparr>\<rparr>)
      = rows_of_game ?g s @ rs"
    using rows_of_game_append [of rs ?g "game_events (committed s)"] env(2) old assms(1)
    by (simp add: rows_of_game_def tables_def pg_idle_def)
  moreover have "\<forall>r \<in> set rs. er_game_id r = ?g \<and> row_ok r
      \<and> (li_CommandID input \<noteq> uuid_Nil \<longrightarrow> er_command_id r = Some (li_CommandID input))"
    using env(2) rs(2) assms(5) by (auto simp: cmd_text_def)
  ultimately show thesis using that env(1) dist app by blast
qed


section \<open>A leave succeeds\<close>

lemma LoadState_view:
  assumes "pg_idle s" and "pg_good s" and "set (faults s) \<subseteq> {''CreditUserBalance''}"
    and "pg_GetLatestSnapshot g s = Inr (st0, n0)" and "n0 < max_seq"
  shows "LoadState (pgStore parse) g (tx_view s) = Some (Inr (applyAll st0 (after n0 (pg_log s g)),
      if after n0 (pg_log s g) = [] then n0 else latest_seq (pg_log s g)))"
    and "\<forall>e \<in> set (pg_log s g). evt_Sequence e \<le> (if after n0 (pg_log s g) = [] then n0 else latest_seq (pg_log s g))"
proof -
  have up: "\<not> down q (tx_view s)" if "q \<noteq> ''CreditUserBalance''" for q
    using assms(3) that by (auto simp: down_def tx_view_def)
  have reads: "\<forall>n lim. \<exists>evs. GetEventsForGame (pgStore parse) g n lim (tx_view s) = Inr evs"
    by (simp add: pgStore_def pg_GetEventsForGame_def up)
  have "pg_GetLatestSnapshot g (tx_view s) = Inr (st0, n0)"
    unfolding assms(4) [symmetric] by (rule pg_snapshot_tables) (use assms(1) in \<open>simp_all add: idle_tables\<close>)
  then have "GetLatestSnapshot (pgStore parse) g (tx_view s) = Inr (st0, n0)" by (simp add: pgStore_def)
  from pg.LoadState_result(1) [OF pg_good_tx [OF assms(2)] this assms(5) reads]
  show "LoadState (pgStore parse) g (tx_view s) = Some (Inr (applyAll st0 (after n0 (pg_log s g)),
      if after n0 (pg_log s g) = [] then n0 else latest_seq (pg_log s g)))"
    by (simp add: pg_log_tx [OF assms(1)])
  show "\<forall>e \<in> set (pg_log s g). evt_Sequence e \<le> (if after n0 (pg_log s g) = [] then n0 else latest_seq (pg_log s g))"
    using latest_ge [OF pg_log_sorted [OF assms(2)]]
    by (auto simp: after_def filter_empty_conv not_less)
qed

text \<open>A database that can be used, and a request of a seated player that was not processed before.\<close>

definition can_leave :: "(string \<Rightarrow> uuid option) \<Rightarrow> LeaveTableInput \<Rightarrow> GameState \<Rightarrow> PlayerState \<Rightarrow> Db \<Rightarrow> bool" where
  "can_leave parse input st p s \<longleftrightarrow> pg_idle s \<and> pg_good s
     \<and> parse (li_GameID input) = Some (li_GameID input) \<and> li_CommandID input \<noteq> []
     \<and> (li_CommandID input = uuid_Nil \<or> parse (li_CommandID input) = Some (li_CommandID input))
     \<and> (\<forall>r \<in> set (game_events (committed s)). er_command_id r \<noteq> Some (li_CommandID input))
     \<and> (\<exists>st0 n0. pg_GetLatestSnapshot (li_GameID input) s = Inr (st0, n0) \<and> Suc (Suc n0) < max_seq
          \<and> Suc (Suc (latest_seq (pg_log s (li_GameID input)))) < max_seq
          \<and> st = applyAll st0 (after n0 (pg_log s (li_GameID input))))
     \<and> findPlayerByUserID st (li_UserID input) \<noteq> None
     \<and> player st (the (findPlayerByUserID st (li_UserID input))) = Some p \<and> 0 \<le> Stack p
     \<and> (\<exists>b. pg_balance s (li_UserID input) = Some b \<and> 0 \<le> b \<and> in64 (b + Stack p))"

lemma leave_body:
  assumes "can_leave parse input st p s" and "set (faults s) \<subseteq> {''CreditUserBalance''}"
  obtains n rs evs where "LeaveTable (pgStore parse) now input s
      = WithTx (pgStore parse) (\<lambda>_. Some (leave_credit (pgStore parse) input st (Stack p) evs
          (tx_view (s\<lparr>committed := (committed s)\<lparr>game_events := game_events (committed s) @ rs\<rparr>\<rparr>)))) s"
    and "evs = leave_events now input st n (the (findPlayerByUserID st (li_UserID input))) p" and "Suc (Suc n) < max_seq"
    and "map er_envelope rs = evs" and "\<forall>r \<in> set rs. er_game_id r = li_GameID input \<and> row_ok r
      \<and> (li_CommandID input \<noteq> uuid_Nil \<longrightarrow> er_command_id r = Some (li_CommandID input))"
    and "distinct (map (\<lambda>r. (er_game_id r, er_sequence r)) (game_events (committed s) @ rs))"
    and "rows_of_game (li_GameID input) (s\<lparr>committed := (committed s)\<lparr>game_events := game_events (committed s) @ rs\<rparr>\<rparr>)
      = rows_of_game (li_GameID input) s @ rs"
proof -
  let ?g = "li_GameID input" and ?S = "pgStore parse" and ?pid = "the (findPlayerByUserID st (li_UserID input))"
  obtain st0 n0 where sn: "pg_GetLatestSnapshot ?g s = Inr (st0, n0)" "Suc (Suc n0) < max_seq"
    "Suc (Suc (latest_seq (pg_log s ?g))) < max_seq" "st = applyAll st0 (after n0 (pg_log s ?g))"
    and c: "pg_idle s" "pg_good s" "parse ?g = Some ?g"
      "li_CommandID input = uuid_Nil \<or> li_CommandID input \<noteq> [] \<and> parse (li_CommandID input) = Some (li_CommandID input)"
    and fresh_id: "\<forall>r \<in> set (game_events (committed s)). er_command_id r \<noteq> Some (li_CommandID input)"
    and pl: "findPlayerByUserID st (li_UserID input) = Some ?pid" "player st ?pid = Some p"
    using assms(1) unfolding can_leave_def by auto
  define n where "n = (if after n0 (pg_log s ?g) = [] then n0 else latest_seq (pg_log s ?g))"
  have n: "Suc (Suc n) < max_seq" using sn(2,3) by (simp add: n_def)
  have "n0 < max_seq" using sn(2) by simp
  note load = LoadState_view [OF c(1,2) assms(2) sn(1) this, folded n_def sn(4)]
  define evs where "evs = leave_events now input st n ?pid p"
  obtain rs where rs: "map er_envelope rs = evs" "\<forall>r \<in> set rs. er_game_id r = ?g \<and> row_ok r
      \<and> (li_CommandID input \<noteq> uuid_Nil \<longrightarrow> er_command_id r = Some (li_CommandID input))"
    "distinct (map (\<lambda>r. (er_game_id r, er_sequence r)) (game_events (committed s) @ rs))"
    "rows_of_game ?g (s\<lparr>committed := (committed s)\<lparr>game_events := game_events (committed s) @ rs\<rparr>\<rparr>)
      = rows_of_game ?g s @ rs"
    and app: "pg_AppendEvents parse evs (tx_view s) = (None, tx_view (s\<lparr>committed :=
      (committed s)\<lparr>game_events := game_events (committed s) @ rs\<rparr>\<rparr>))"
    by (rule leave_appends [OF c(1,2) assms(2) c(3,4) load(2) n evs_def])
  have up: "\<not> down q (tx_view s)" "\<not> down q s" if "q \<noteq> ''CreditUserBalance''" for q
    using assms(2) that by (auto simp: down_def tx_view_def)
  obtain pid where pid: "findPlayerByUserID st (li_UserID input) = Some pid" "?pid = pid" using pl(1) by simp
  have appS: "AppendEvents ?S evs (tx_view s) = (None, tx_view (s\<lparr>committed :=
      (committed s)\<lparr>game_events := game_events (committed s) @ rs\<rparr>\<rparr>))" using app by (simp add: pgStore_def)
  have new: "leave_new ?S now input (tx_view s) = Some (leave_credit ?S input st (Stack p) evs
      (tx_view (s\<lparr>committed := (committed s)\<lparr>game_events := game_events (committed s) @ rs\<rparr>\<rparr>)))"
    using load(1) [of parse] pl(2) pid appS unfolding evs_def by (simp add: leave_new_def Let_def)
  have "filter (\<lambda>r. er_command_id r = Some (li_CommandID input)) (rows_of_game ?g (tx_view s)) = []"
    using fresh_id by (auto simp: filter_empty_conv rows_of_game_def tx_view_def tables_def)
  then have none: "FindEventByCommandID ?S (li_CommandID input) ?g (tx_view s) = Inl ErrNotFound"
    by (simp add: pgStore_def pg_FindEventByCommandID_def up)
  have b: "Begin ?S s = (None, tx_view s)" by (simp add: pgStore_def pg_Begin_def tx_view_def up)
  have "LeaveTable ?S now input s = WithTx ?S (\<lambda>_. Some (leave_credit ?S input st (Stack p) evs
          (tx_view (s\<lparr>committed := (committed s)\<lparr>game_events := game_events (committed s) @ rs\<rparr>\<rparr>)))) s"
    unfolding LeaveTable_def WithTx_def b using new none
    by (cases "li_CommandID input = uuid_Nil") (simp_all only: prod.case option.case sum.case errors_Is_def
        unwrap.simps simp_thms if_True if_False)
  then show thesis using that evs_def n rs by blast
qed


text \<open>What is stored after the events of a leave: the tables change by these rows and by balances.\<close>

lemma stored_leave:
  assumes "pg_idle s" and "pg_good s" and "\<forall>r \<in> set rs. er_game_id r = g \<and> row_ok r"
    and "distinct (map (\<lambda>r. (er_game_id r, er_sequence r)) (game_events (committed s) @ rs))"
    and "rows_of_game g (s\<lparr>committed := (committed s)\<lparr>game_events := game_events (committed s) @ rs\<rparr>\<rparr>) = rows_of_game g s @ rs"
    and "open_tx s' = None" and "committed s' = (committed s)\<lparr>game_events := game_events (committed s) @ rs, user_snapshots := us\<rparr>"
  shows "pg_idle s'" and "pg_good s'" and "rows_of_game g s' = rows_of_game g s @ rs"
    and "pg_log s' g = pg_log s g @ map er_envelope rs"
    and "''GetLatestSnapshot'' \<notin> set (faults s) \<Longrightarrow> ''GetLatestSnapshot'' \<notin> set (faults s') \<Longrightarrow>
      pg_GetLatestSnapshot g s' = pg_GetLatestSnapshot g s"
proof -
  have t: "tables s = committed s" "tables s' = committed s'" using assms(1,6) by (simp_all add: pg_idle_def tables_def)
  show "pg_idle s'" using assms(6) by (simp add: pg_idle_def)
  show "pg_good s'" using assms(2-4,7) t by (auto simp: pg_good_def)
  show rows: "rows_of_game g s' = rows_of_game g s @ rs"
    using assms(5,7) t assms(1) by (simp add: rows_of_game_def) (simp add: tables_def pg_idle_def)
  show "pg_log s' g = pg_log s g @ map er_envelope rs" by (simp add: pg_log_def rows)
  show "''GetLatestSnapshot'' \<notin> set (faults s) \<Longrightarrow> ''GetLatestSnapshot'' \<notin> set (faults s') \<Longrightarrow>
      pg_GetLatestSnapshot g s' = pg_GetLatestSnapshot g s"
    using assms(7) t by (simp add: pg_GetLatestSnapshot_def down_def)
qed

lemma leave_succeeds:
  assumes "can_leave parse input st p s" and "faults s = []"
  obtains n rs r s' us where "LeaveTable (pgStore parse) now input s = Some (Inr r, s')"
    and "lr_CashOutAmount r = Stack p" and "faults s' = []" and "open_tx s' = None"
    and "pg_balance s' = (pg_balance s)(li_UserID input \<mapsto> the (pg_balance s (li_UserID input)) + Stack p)"
    and "committed s' = (committed s)\<lparr>game_events := game_events (committed s) @ rs, user_snapshots := us\<rparr>"
    and "map er_envelope rs = leave_events now input st n (the (findPlayerByUserID st (li_UserID input))) p"
    and "Suc (Suc n) < max_seq" and "\<forall>r \<in> set rs. er_game_id r = li_GameID input \<and> row_ok r
      \<and> (li_CommandID input \<noteq> uuid_Nil \<longrightarrow> er_command_id r = Some (li_CommandID input))"
    and "distinct (map (\<lambda>r. (er_game_id r, er_sequence r)) (game_events (committed s) @ rs))"
    and "rows_of_game (li_GameID input) (s\<lparr>committed := (committed s)\<lparr>game_events := game_events (committed s) @ rs\<rparr>\<rparr>)
      = rows_of_game (li_GameID input) s @ rs"
proof -
  have f: "set (faults s) \<subseteq> {''CreditUserBalance''}" using assms(2) by simp
  obtain n rs evs where run: "LeaveTable (pgStore parse) now input s
      = WithTx (pgStore parse) (\<lambda>_. Some (leave_credit (pgStore parse) input st (Stack p) evs
          (tx_view (s\<lparr>committed := (committed s)\<lparr>game_events := game_events (committed s) @ rs\<rparr>\<rparr>)))) s"
    and evs: "evs = leave_events now input st n (the (findPlayerByUserID st (li_UserID input))) p" "Suc (Suc n) < max_seq"
      "map er_envelope rs = evs"
    and rs: "\<forall>r \<in> set rs. er_game_id r = li_GameID input \<and> row_ok r
      \<and> (li_CommandID input \<noteq> uuid_Nil \<longrightarrow> er_command_id r = Some (li_CommandID input))"
    "distinct (map (\<lambda>r. (er_game_id r, er_sequence r)) (game_events (committed s) @ rs))"
    "rows_of_game (li_GameID input) (s\<lparr>committed := (committed s)\<lparr>game_events := game_events (committed s) @ rs\<rparr>\<rparr>)
      = rows_of_game (li_GameID input) s @ rs"
    by (rule leave_body [OF assms(1) f])
  let ?t = "(committed s)\<lparr>game_events := game_events (committed s) @ rs\<rparr>"
  let ?v = "tx_view (s\<lparr>committed := ?t\<rparr>)" and ?u = "li_UserID input"
  obtain b where b: "pg_balance s ?u = Some b" "0 \<le> b" "in64 (b + Stack p)" and st: "0 \<le> Stack p" and idle: "pg_idle s"
    using assms(1) by (auto simp: can_leave_def)
  obtain snap where snap: "map_of (user_snapshots (committed s)) ?u = Some snap" "us_ChipBalance snap = b"
    using b(1) idle by (auto simp: pg_balance_def idle_tables)
  define us where "us = (if Stack p > 0 then AList.update ?u (snap\<lparr>us_ChipBalance := b + Stack p, us_LastActivityAt := db_now s\<rparr>)
      (user_snapshots (committed s)) else user_snapshots (committed s))"
  obtain r where cr: "leave_credit (pgStore parse) input st (Stack p) evs ?v
      = (Inr r, s\<lparr>committed := ?t, open_tx := Some (?t\<lparr>user_snapshots := us\<rparr>)\<rparr>)" and amount: "lr_CashOutAmount r = Stack p"
    using snap b st assms(2)
    by (cases "Stack p > 0") (auto simp: leave_credit_def pgStore_def pg_CreditUserBalance_def pg_GetUserSnapshot_def
        set_balance_def Let_def down_def tx_view_def tables_def upd_tables_def us_def)
  let ?s' = "s\<lparr>committed := ?t\<lparr>user_snapshots := us\<rparr>, open_tx := None\<rparr>"
  have "LeaveTable (pgStore parse) now input s = Some (Inr r, ?s')"
    unfolding run WithTx_def using cr assms(2)
    by (simp add: pgStore_def pg_Begin_def pg_Commit_def down_def tables_def)
  moreover have "pg_balance ?s' = (pg_balance s)(?u \<mapsto> the (pg_balance s ?u) + Stack p)"
    using snap b(1) st idle
    by (auto simp: pg_balance_def tables_def pg_idle_def us_def fun_eq_iff update_conv')
  ultimately show thesis using that [where r = r and s' = ?s' and rs = rs and us = us and n = n] amount evs rs assms(2) by simp
qed


section \<open>A leave that is sent again\<close>

definition retried_amount :: "GameState \<Rightarrow> PlayerState \<Rightarrow> int" where
  "retried_amount st p = (if CurrentHand st \<noteq> None \<and> \<not> IsFolded p then 0 else Stack p)"

text \<open>The second request finds the first event of the command; in a hand that is the fold.\<close>

lemma leave_again:
  assumes c: "can_leave parse input st p s" and cmd: "li_CommandID input \<noteq> uuid_Nil"
    and s': "open_tx s' = None" "faults s' = []"
      "committed s' = (committed s)\<lparr>game_events := game_events (committed s) @ rs, user_snapshots := us\<rparr>"
    and env: "map er_envelope rs = leave_events now input st n (the (findPlayerByUserID st (li_UserID input))) p"
      "Suc (Suc n) < max_seq"
    and rs: "\<forall>r \<in> set rs. er_game_id r = li_GameID input \<and> row_ok r
      \<and> (li_CommandID input \<noteq> uuid_Nil \<longrightarrow> er_command_id r = Some (li_CommandID input))"
      "distinct (map (\<lambda>r. (er_game_id r, er_sequence r)) (game_events (committed s) @ rs))"
      "rows_of_game (li_GameID input) (s\<lparr>committed := (committed s)\<lparr>game_events := game_events (committed s) @ rs\<rparr>\<rparr>)
        = rows_of_game (li_GameID input) s @ rs"
    and bal: "pg_balance s' (li_UserID input) = Some b" and up: "''GetLatestSnapshot'' \<notin> set (faults s)"
  shows "\<exists>r s2. LeaveTable (pgStore parse) now' input s' = Some (Inr r, s2)
    \<and> lr_CashOutAmount r = retried_amount st p \<and> s2 = s'"
proof -
  let ?g = "li_GameID input" and ?S = "pgStore parse"
  have idle: "pg_idle s" "pg_good s" using c by (simp_all add: can_leave_def)
  have rs1: "\<forall>r \<in> set rs. er_game_id r = ?g \<and> row_ok r" using rs(1) by blast
  note st = stored_leave [OF idle rs1 rs(2,3) s'(1,3)]
  obtain st0 n0 where sn: "pg_GetLatestSnapshot ?g s = Inr (st0, n0)" "n0 < max_seq"
    using c by (auto simp: can_leave_def)
  have "pg_GetLatestSnapshot ?g s' = Inr (st0, n0)" using st(5) up s'(2) sn(1) by simp
  from LoadState_view(1) [OF st(1,2) _ this sn(2), of parse] obtain st' n' where
    load: "LoadState ?S ?g (tx_view s') = Some (Inr (st', n'))" using s'(2) by auto
  have tabs: "rows_of_game ?g (tx_view s') = rows_of_game ?g s'"
    using st(1) by (simp add: rows_of_game_def tables_def tx_view_def pg_idle_def)
  have "filter (\<lambda>r. er_command_id r = Some (li_CommandID input)) (rows_of_game ?g s) = []"
    using c by (auto simp: filter_empty_conv rows_set can_leave_def idle_tables tables_def pg_idle_def)
  moreover have "filter (\<lambda>r. er_command_id r = Some (li_CommandID input)) rs = rs"
    using rs(1) cmd by (simp add: filter_id_conv)
  moreover have "rs \<noteq> []" using env(1) leave_events_shape(4) [OF env(2)] by (metis list.map_disc_iff)
  ultimately have find: "FindEventByCommandID ?S (li_CommandID input) ?g (tx_view s') = Inr (er_envelope (hd rs))"
    using s'(2) tabs st(3) by (cases rs) (auto simp: pgStore_def pg_FindEventByCommandID_def down_def)
  have "er_envelope (hd rs) = hd (leave_events now input st n (the (findPlayerByUserID st (li_UserID input))) p)"
    using \<open>rs \<noteq> []\<close> by (simp add: env(1) [symmetric] hd_map)
  then have amount: "(case evt_Event (er_envelope (hd rs)) of Some (EvPlayerLeft q c r) \<Rightarrow> c | _ \<Rightarrow> 0) = retried_amount st p"
    using leave_events_shape(5) [OF env(2)] by (simp add: retried_amount_def)
  obtain snap where snap: "GetUserSnapshot ?S (li_UserID input) (tx_view s') = Inr snap"
    using bal s'(2) st(1) by (auto simp: pgStore_def pg_GetUserSnapshot_def down_def tx_view_def tables_def pg_balance_def pg_idle_def)
  have b: "Begin ?S s' = (None, tx_view s')" using s'(2) by (simp add: pgStore_def pg_Begin_def tx_view_def down_def)
  have cm: "Commit ?S (tx_view s') = (None, s')"
    using s'(1,2) by (cases s') (simp add: pgStore_def pg_Commit_def tx_view_def down_def tables_def)
  show ?thesis
    unfolding LeaveTable_def WithTx_def b using cmd find load snap cm amount by (simp add: leave_replay_def Let_def)
qed

section \<open>A join and a leave after it\<close>

lemma find_update:
  "find (\<lambda>(pid, uid). uid = u) m = None \<Longrightarrow> find (\<lambda>(pid, uid). uid = u) (AList.update u u m) = Some (u, u)"
  by (induction m) (auto split: if_splits)

lemma joined_player:
  assumes "join_seat st input = Inr seat"
    and "evt_Event evt = Some (EvPlayerJoined (ji_UserID input) (ji_UserID input) seat2 (ji_BuyIn input))"
  shows "findPlayerByUserID (Apply st evt) (ji_UserID input) = Some (ji_UserID input)"
    and "\<exists>p. player (Apply st evt) (ji_UserID input) = Some p \<and> Stack p = ji_BuyIn input"
proof -
  obtain v where a: "Apply st evt = apply_PlayerJoined (ji_UserID input) (ji_UserID input) seat2 (ji_BuyIn input) (st\<lparr>Version := v\<rparr>)"
    using Apply_Some [OF assms(2)] by auto
  have "findPlayerByUserID st (ji_UserID input) = None" using assms(1) by (auto simp: join_seat_def split: if_splits)
  then show "findPlayerByUserID (Apply st evt) (ji_UserID input) = Some (ji_UserID input)"
    by (simp add: a apply_PlayerJoined_def findPlayerByUserID_def find_update)
  show "\<exists>p. player (Apply st evt) (ji_UserID input) = Some p \<and> Stack p = ji_BuyIn input"
    by (simp add: a apply_PlayerJoined_def player_def update_conv')
qed

lemma join_new_rows:
  assumes "join_new (pgStore parse) now input v = Some (Inr r, s2)"
    and "ji_CommandID input \<noteq> []" and "parse (ji_CommandID input) = Some (ji_CommandID input)"
  shows "\<exists>row. game_events (tables s2) = game_events (tables v) @ [row]
    \<and> (er_command_id row = None \<or> er_command_id row = Some (ji_CommandID input))"
proof -
  obtain st n seat where jd: "join_debit (pgStore parse) now input st n seat v = (Inr r, s2)"
  proof -
    obtain x where "LoadState (pgStore parse) (ji_GameID input) v = Some x" using assms(1) by (auto simp: join_new_def)
    then show thesis using that assms(1) by (cases x) (auto simp: join_new_def split: sum.split_asm)
  qed
  obtain snap s1 where deb: "pg_DebitUserBalance (ji_UserID input) (ji_BuyIn input) v = (Inr snap, s1)"
    using jd by (auto simp: join_debit_def pgStore_def split: prod.splits sum.splits)
  obtain evt where app: "pg_AppendEvent parse evt s1 = (None, s2)" and c: "evt_CausedByCommandId evt = cmd_text (ji_CommandID input)"
    using jd deb by (auto simp: join_debit_def pgStore_def Let_def BuildPlayerJoinedEvent_def split: prod.splits option.splits)
  have "game_events (tables s1) = game_events (tables v)"
    using deb by (auto simp: pg_DebitUserBalance_def set_balance_def Let_def split: option.splits if_splits)
  moreover obtain row where "eventToParams parse evt = Inr row" "game_events (tables s2) = game_events (tables s1) @ [row]"
    using app by (auto simp: pg_AppendEvent_def insert_event_def split: sum.splits if_splits)
  moreover from this have "er_command_id row = None \<or> er_command_id row = Some (ji_CommandID input)"
    using c assms(2,3) by (auto simp: eventToParams_def cmd_text_def Let_def split: option.splits if_splits)
  ultimately show ?thesis by simp
qed

text \<open>After a new join the player can leave.\<close>

lemma joined_can_leave:
  assumes j: "JoinTable (pgStore parse) now input s = Some (Inr r, s1)"
    and idle: "pg_idle s" and good: "pg_good s" and up: "faults s = []"
    and g: "parse (ji_GameID input) = Some (ji_GameID input)" "0 \<le> ji_BuyIn input"
    and snap: "pg_GetLatestSnapshot (ji_GameID input) s = Inr (st0, n0)" "n0 + 3 < max_seq"
      "latest_seq (pg_log s (ji_GameID input)) + 3 < max_seq"
    and c: "ji_CommandID input \<noteq> []" "parse (ji_CommandID input) = Some (ji_CommandID input)"
      "\<forall>r \<in> set (game_events (committed s)). er_command_id r \<noteq> Some (ji_CommandID input)"
    and d: "d \<noteq> []" "parse d = Some d" "d \<noteq> ji_CommandID input"
      "\<forall>r \<in> set (game_events (committed s)). er_command_id r \<noteq> Some d"
    and bound: "\<forall>b. pg_balance s (ji_UserID input) = Some b \<longrightarrow> in64 b"
  shows "\<exists>p b. Stack p = ji_BuyIn input \<and> pg_balance s (ji_UserID input) = Some b \<and> faults s1 = []
    \<and> pg_balance s1 = (pg_balance s)(ji_UserID input \<mapsto> b - ji_BuyIn input)
    \<and> can_leave parse \<lparr>li_CommandID = d, li_GameID = ji_GameID input, li_UserID = ji_UserID input\<rparr> (jr_GameState r) p s1"
proof -
  let ?g = "ji_GameID input" and ?u = "ji_UserID input" and ?v = "tx_view s" and ?S = "pgStore parse"
  let ?l = "pg_log s ?g"
  define n where "n = (if after n0 ?l = [] then n0 else latest_seq ?l)"
  have n: "n + 3 < max_seq" using snap(2,3) by (simp add: n_def)
  have "n0 < max_seq" "set (faults s) \<subseteq> {''CreditUserBalance''}" using snap(2) up by simp_all
  note load = LoadState_view [OF idle good this(2) snap(1) this(1), folded n_def]
  let ?st = "applyAll st0 (after n0 ?l)"
  have b: "Begin ?S s = (None, ?v)" using up by (simp add: pgStore_def pg_Begin_def tx_view_def down_def)
  have "filter (\<lambda>r. er_command_id r = Some (ji_CommandID input)) (rows_of_game ?g ?v) = []"
    using c(3) by (auto simp: filter_empty_conv rows_of_game_def tx_view_def tables_def)
  then have none: "FindEventByCommandID ?S (ji_CommandID input) ?g ?v = Inl ErrNotFound"
    using up by (simp add: pgStore_def pg_FindEventByCommandID_def down_def tx_view_def)
  obtain bal seat where bal: "pg_balance s ?u = Some bal" "ji_BuyIn input \<le> bal"
    "pg_balance s1 = (pg_balance s)(?u \<mapsto> bal - ji_BuyIn input)" and seat: "join_seat ?st input = Inr seat"
    using pg_cash.join_moves [OF idle b disjI2 [OF none] load(1) j] by blast
  obtain s2 where new: "join_new ?S now input ?v = Some (Inr r, s2)" and s1: "s1 = s2\<lparr>committed := tables s2, open_tx := None\<rparr>"
    using none by (cases rule: JoinTable_body [OF j up]) auto
  have "Suc n < max_seq" using n by simp
  then obtain evt seat' where e: "jr_GameState r = Apply ?st evt" "evt_Sequence evt = Suc n"
    "evt_Event evt = Some (EvPlayerJoined ?u ?u seat' (ji_BuyIn input))"
    and after: "pg_good s1" "pg_log s1 ?g = ?l @ [evt]" "\<forall>g. pg_GetLatestSnapshot g s1 = pg_GetLatestSnapshot g s" "faults s1 = faults s"
    using join_new_appends [OF new s1 idle good g(1) load(1) _ load(2)] by blast
  obtain row where row: "game_events (tables s2) = game_events (tables ?v) @ [row]"
    "er_command_id row = None \<or> er_command_id row = Some (ji_CommandID input)"
    using join_new_rows [OF new c(1,2)] by blast
  have ids: "\<forall>r \<in> set (game_events (committed s1)). er_command_id r \<noteq> Some d"
    using row d(3,4) idle by (auto simp: s1 idle_tables tables_def tx_view_def)
  have "n0 < Suc n"
  proof (cases "after n0 ?l = []")
    case False
    then obtain x where "x \<in> set ?l" "n0 < evt_Sequence x" by (auto simp: after_def filter_empty_conv)
    then show ?thesis using latest_ge [OF pg_log_sorted [OF good]] False by (fastforce simp: n_def)
  qed (simp add: n_def)
  then have af: "jr_GameState r = applyAll st0 (after n0 (pg_log s1 ?g))"
    by (simp add: after(2) e(1,2) after_def applyAll_def)
  have lat: "latest_seq (pg_log s1 ?g) = Suc n" by (simp add: after(2) e(2) latest_seq_def)
  obtain p where p: "findPlayerByUserID (jr_GameState r) ?u = Some ?u" "player (jr_GameState r) ?u = Some p" "Stack p = ji_BuyIn input"
    using joined_player [OF seat e(3)] e(1) by auto
  have "pg_GetLatestSnapshot ?g s1 = Inr (st0, n0)" using after(3) snap(1) by simp
  then have "can_leave parse \<lparr>li_CommandID = d, li_GameID = ?g, li_UserID = ?u\<rparr> (jr_GameState r) p s1"
    using p after(1) g ids d(1,2) bal bound n snap(2) af lat
    by (auto simp: can_leave_def s1 pg_idle_def)
  then show ?thesis using p(3) bal up after(4) by auto
qed

section \<open>Properties\<close>

lemma rpc_leave:
  assumes "parse game_id = Some g" and "parseOrGenUUID parse newID command_id = Some cmd"
    and "LeaveTable (pgStore parse) (now 2) \<lparr>li_CommandID = cmd, li_GameID = g, li_UserID = pr_UserID pr\<rparr> s = Some (r, s')"
    and "\<not> concurrent_write r"
  shows "rpc_LeaveTable (pgStore parse) parse newID now ctxErr (Some pr) game_id command_id (sessions, s)
    = Some (case r of Inl e \<Rightarrow> (Inl (mapLobbyError e), sessions, s')
        | Inr res \<Rightarrow> (Inr (lr_CashOutAmount res), Invalidate g sessions, s'))"
  using assms by (simp add: rpc_LeaveTable_def actorFromContext_def numeral_3_eq_3 del: One_nat_def)
    (simp add: numeral_2_eq_2)

text \<open>C18. A leave that is sent again is not paid again: the first request pays the stack to the player, and a
  second one with the same command identifier stores nothing and changes no balance. What it answers is
  read from the first event of the command, which is the fold when the player left a hand: then it says
  that nothing was paid.\<close>

theorem retried_leave_pays_once:
  assumes "parse game_id = Some g" and "command_id \<noteq> []" and "parse command_id = Some cmd" and "cmd \<noteq> uuid_Nil"
    and "can_leave parse \<lparr>li_CommandID = cmd, li_GameID = g, li_UserID = pr_UserID pr\<rparr> st p s" and "faults s = []"
  shows "\<exists>s1. rpc_LeaveTable (pgStore parse) parse newID now ctxErr (Some pr) game_id command_id (sessions, s)
        = Some (Inr (Stack p), Invalidate g sessions, s1)
      \<and> pg_balance s1 = (pg_balance s)(pr_UserID pr \<mapsto> the (pg_balance s (pr_UserID pr)) + Stack p)
      \<and> rpc_LeaveTable (pgStore parse) parse newID' now' ctxErr' (Some pr) game_id command_id (sessions', s1)
        = Some (Inr (if CurrentHand st \<noteq> None \<and> \<not> IsFolded p then 0 else Stack p), Invalidate g sessions', s1)"
proof -
  let ?in = "\<lparr>li_CommandID = cmd, li_GameID = g, li_UserID = pr_UserID pr\<rparr>"
  obtain n rs r s1 us where run: "LeaveTable (pgStore parse) (now 2) ?in s = Some (Inr r, s1)" "lr_CashOutAmount r = Stack p"
    and s1: "faults s1 = []" "open_tx s1 = None"
    and bal: "pg_balance s1 = (pg_balance s)(li_UserID ?in \<mapsto> the (pg_balance s (li_UserID ?in)) + Stack p)"
    and cm: "committed s1 = (committed s)\<lparr>game_events := game_events (committed s) @ rs, user_snapshots := us\<rparr>"
    and rows: "map er_envelope rs = leave_events (now 2) ?in st n (the (findPlayerByUserID st (li_UserID ?in))) p"
    "Suc (Suc n) < max_seq" "\<forall>r \<in> set rs. er_game_id r = li_GameID ?in \<and> row_ok r
      \<and> (li_CommandID ?in \<noteq> uuid_Nil \<longrightarrow> er_command_id r = Some (li_CommandID ?in))"
    "distinct (map (\<lambda>r. (er_game_id r, er_sequence r)) (game_events (committed s) @ rs))"
    "rows_of_game (li_GameID ?in) (s\<lparr>committed := (committed s)\<lparr>game_events := game_events (committed s) @ rs\<rparr>\<rparr>)
      = rows_of_game (li_GameID ?in) s @ rs"
    by (rule leave_succeeds [OF assms(5,6), of "now 2"])
  have "pg_balance s1 (li_UserID ?in) = Some (the (pg_balance s (li_UserID ?in)) + Stack p)" by (simp add: bal)
  from leave_again [OF assms(5) _ s1(2,1) cm rows this, of "now' 2"] assms(4,6)
  obtain r2 where again: "LeaveTable (pgStore parse) (now' 2) ?in s1 = Some (Inr r2, s1)" "lr_CashOutAmount r2 = retried_amount st p"
    by auto
  have gen: "parseOrGenUUID parse i command_id = Some cmd" for i using assms(2,3) by (simp add: parseOrGenUUID_def)
  show ?thesis
    using rpc_leave [where now = now and ctxErr = ctxErr and sessions = sessions, OF assms(1) gen run(1)]
      rpc_leave [where now = now' and ctxErr = ctxErr' and sessions = sessions', OF assms(1) gen again(1)]
      run(2) again(2) bal by (simp add: concurrent_write_def retried_amount_def)
qed

text \<open>C19. What a retry makes of a failed payment: \<open>AppendEvents\<close> has committed the departure although the
  credit fails, so the first request reports an internal error and pays nothing; the second one, with
  the same command identifier and a database that works again, finds the departure in the log and
  answers that all is well, with the amount that should have been paid. No balance has changed, and the
  chips are gone from the table.\<close>

theorem retried_leave_hides_loss:
  assumes "parse game_id = Some g" and "command_id \<noteq> []" and "parse command_id = Some cmd" and "cmd \<noteq> uuid_Nil"
    and "can_leave parse \<lparr>li_CommandID = cmd, li_GameID = g, li_UserID = pr_UserID pr\<rparr> st p s"
    and "faults s = [''CreditUserBalance'']" and "0 < Stack p" and "CurrentHand st = None"
  shows "\<exists>s1. rpc_LeaveTable (pgStore parse) parse newID now ctxErr (Some pr) game_id command_id (sessions, s)
        = Some (Inl Internal, sessions, s1)
      \<and> rpc_LeaveTable (pgStore parse) parse newID' now' ctxErr' (Some pr) game_id command_id (sessions', s1\<lparr>faults := []\<rparr>)
        = Some (Inr (Stack p), Invalidate g sessions', s1\<lparr>faults := []\<rparr>)
      \<and> pg_balance s1 = pg_balance s
      \<and> (\<exists>evs e. pg_log s1 g = pg_log s g @ evs \<and> e \<in> set evs
          \<and> evt_Event e = Some (EvPlayerLeft (the (findPlayerByUserID st (pr_UserID pr))) (Stack p) ''leave_request''))"
proof -
  let ?in = "\<lparr>li_CommandID = cmd, li_GameID = g, li_UserID = pr_UserID pr\<rparr>"
  have f: "set (faults s) \<subseteq> {''CreditUserBalance''}" using assms(6) by simp
  obtain n rs evs where run: "LeaveTable (pgStore parse) (now 2) ?in s
      = WithTx (pgStore parse) (\<lambda>_. Some (leave_credit (pgStore parse) ?in st (Stack p) evs
          (tx_view (s\<lparr>committed := (committed s)\<lparr>game_events := game_events (committed s) @ rs\<rparr>\<rparr>)))) s"
    and evs: "evs = leave_events (now 2) ?in st n (the (findPlayerByUserID st (li_UserID ?in))) p" "Suc (Suc n) < max_seq"
      "map er_envelope rs = evs"
    and rows: "\<forall>r \<in> set rs. er_game_id r = li_GameID ?in \<and> row_ok r
      \<and> (li_CommandID ?in \<noteq> uuid_Nil \<longrightarrow> er_command_id r = Some (li_CommandID ?in))"
    "distinct (map (\<lambda>r. (er_game_id r, er_sequence r)) (game_events (committed s) @ rs))"
    "rows_of_game (li_GameID ?in) (s\<lparr>committed := (committed s)\<lparr>game_events := game_events (committed s) @ rs\<rparr>\<rparr>)
      = rows_of_game (li_GameID ?in) s @ rs"
    by (rule leave_body [OF assms(5) f])
  let ?s1 = "s\<lparr>committed := (committed s)\<lparr>game_events := game_events (committed s) @ rs\<rparr>, open_tx := None\<rparr>"
  let ?s2 = "?s1\<lparr>faults := []\<rparr>"
  have idle: "pg_idle s" "pg_good s" using assms(5) by (simp_all add: can_leave_def)
  obtain e where first: "LeaveTable (pgStore parse) (now 2) ?in s = Some (Inl (Wrap ''credit user balance: '' e), ?s1)"
    and e: "e = Wrap ''credit user balance: '' db_error"
    unfolding run WithTx_def using assms(6,7)
    by (simp add: pgStore_def pg_Begin_def pg_Rollback_def down_def leave_credit_def pg_CreditUserBalance_def tx_view_def)
  have cm: "committed ?s2 = (committed s)\<lparr>game_events := game_events (committed s) @ rs,
      user_snapshots := user_snapshots (committed s)\<rparr>" by simp
  have bal: "pg_balance ?s1 = pg_balance s" "pg_balance ?s2 = pg_balance s"
    using idle(1) by (simp_all add: pg_balance_def tables_def pg_idle_def fun_eq_iff)
  obtain b where "pg_balance ?s2 (li_UserID ?in) = Some b" using assms(5) unfolding bal by (auto simp: can_leave_def)
  from leave_again [OF assms(5) _ _ _ cm evs(3) [unfolded evs(1)] evs(2) rows this, of "now' 2"] assms(4,6)
  obtain r2 where again: "LeaveTable (pgStore parse) (now' 2) ?in ?s2 = Some (Inr r2, ?s2)" "lr_CashOutAmount r2 = retried_amount st p"
    by auto
  have gen: "parseOrGenUUID parse i command_id = Some cmd" for i using assms(2,3) by (simp add: parseOrGenUUID_def)
  have "mapLobbyError (Wrap ''credit user balance: '' e) = Internal"
    by (simp add: e db_error_def mapLobbyError_def errors_Is_def)
  moreover have "\<not> concurrent_write (Inl (Wrap ''credit user balance: '' e) :: go_err + LeaveTableResult)"
    by (simp add: e db_error_def concurrent_write_def errors_Is_def)
  moreover have "pg_log ?s1 g = pg_log s g @ evs"
    using stored_leave(4) [OF idle _ rows(2,3), of ?s1 "user_snapshots (committed s)"] rows(1) evs(3) by simp
  moreover have "\<exists>e \<in> set evs. evt_Event e
      = Some (EvPlayerLeft (the (findPlayerByUserID st (pr_UserID pr))) (Stack p) ''leave_request'')"
    using assms(8) by (simp add: evs(1) leave_events_def Let_def BuildPlayerLeftEvent_def)
  ultimately show ?thesis
    using rpc_leave [where now = now and ctxErr = ctxErr and sessions = sessions, OF assms(1) gen first]
      rpc_leave [where now = now' and ctxErr = ctxErr' and sessions = sessions', OF assms(1) gen again(1)]
      again(2) bal(1) assms(8) by (intro exI [of _ ?s1]) (auto simp: concurrent_write_def retried_amount_def)
qed

text \<open>C17. Sitting down and getting up again moves no chips: after a join that is not a retry the player can
  leave at once, the request succeeds and answers the buy-in, and then everybody's balance is what it
  was before the join.\<close>

theorem join_then_leave:
  assumes "rpc_JoinTable (pgStore parse) parse newID now ctxErr (Some pr) req (sessions, s) = Some (Inr st, sessions1, s1)"
    and "pg_idle s" and "pg_good s" and "faults s = []" and "parse (jc_GameId req) = Some g" and "parse g = Some g"
    and "parseOrGenUUID parse newID (jc_CommandId req) = Some c" and "parseOrGenUUID parse newID' command_id = Some d"
    and "c \<noteq> d" and "\<forall>x \<in> {c, d}. x \<noteq> [] \<and> parse x = Some x"
    and "\<forall>r \<in> set (game_events (committed s)). er_command_id r \<notin> {Some c, Some d}"
    and "pg_GetLatestSnapshot g s = Inr (st0, n0)" and "n0 + 3 < max_seq" and "latest_seq (pg_log s g) + 3 < max_seq"
    and "\<forall>b. pg_balance s (pr_UserID pr) = Some b \<longrightarrow> in64 b"
  shows "\<exists>s2. rpc_LeaveTable (pgStore parse) parse newID' now' ctxErr' (Some pr) (jc_GameId req) command_id (sessions1, s1)
      = Some (Inr (jc_BuyIn req), Invalidate g sessions1, s2) \<and> pg_balance s2 = pg_balance s"
proof -
  obtain k cmdID u r where j: "JoinTable (pgStore parse) (now k) (request_input req cmdID g u) s = Some (Inr r, s1)"
    and "actorFromContext (Some pr) = Inr u" "parseOrGenUUID parse newID (jc_CommandId req) = Some cmdID"
    by (rule rpc_join [OF assms(1,2,4,5)])
  then have in_c: "request_input req cmdID g u = request_input req c g (pr_UserID pr)" and u: "u = pr_UserID pr"
    using assms(7) by (simp_all add: actorFromContext_def)
  let ?i = "request_input req c g (pr_UserID pr)"
  let ?l = "\<lparr>li_CommandID = d, li_GameID = g, li_UserID = pr_UserID pr\<rparr>"
  have f: "ji_GameID ?i = g" "ji_UserID ?i = pr_UserID pr" "ji_CommandID ?i = c" "ji_BuyIn ?i = jc_BuyIn req"
    by (simp_all add: request_input_def)
  have pos: "0 \<le> jc_BuyIn req"
    using assms(1,5) by (auto simp: rpc_JoinTable_def actorFromContext_def split: if_split_asm)
  obtain p b where p: "Stack p = jc_BuyIn req" "pg_balance s (pr_UserID pr) = Some b" "faults s1 = []"
    "pg_balance s1 = (pg_balance s)(pr_UserID pr \<mapsto> b - jc_BuyIn req)"
    and can: "can_leave parse ?l (jr_GameState r) p s1"
    using joined_can_leave [OF j [unfolded in_c] assms(2-4), unfolded f, OF assms(6) pos assms(12-14), of d] assms(9-11,15)
    by auto
  obtain r2 s2 where l: "LeaveTable (pgStore parse) (now' 2) ?l s1 = Some (Inr r2, s2)" "lr_CashOutAmount r2 = Stack p"
    "pg_balance s2 = (pg_balance s1)(li_UserID ?l \<mapsto> the (pg_balance s1 (li_UserID ?l)) + Stack p)"
    by (rule leave_succeeds [OF can p(3), of "now' 2"])
  have "pg_balance s2 = pg_balance s" using l(3) p by (simp add: fun_upd_idem)
  then show ?thesis
    using rpc_leave [where now = now' and ctxErr = ctxErr' and sessions = sessions1, OF assms(5,8) l(1)] l(2) p(1)
    by (simp add: concurrent_write_def)
qed

section \<open>Witnesses\<close>

lemma small_numbers: "3 < max_seq" "4 < max_seq"
  by (simp_all add: max_seq_def)

text \<open>\<open>ann\<close> sits down at the river game and gets up again.\<close>

lemma join_then_leave_witness:
  "\<exists>st s1 s2. rpc_JoinTable (pgStore Some) Some ''c'' (\<lambda>_. 5) (\<lambda>_. False) (Some ann_principal) ann_request
     ([(''g'', (river_state, NewFixedDealer [0..<52]))], river_db) = Some (Inr st, [], s1)
     \<and> rpc_LeaveTable (pgStore Some) Some ''d'' (\<lambda>_. 6) (\<lambda>_. False) (Some ann_principal) ''g'' [] ([] :: (uuid \<times> GameState \<times> FixedState) list, s1)
       = Some (Inr 300, [], s2)
     \<and> pg_balance s2 = pg_balance river_db"
proof -
  obtain st s1 where j: "rpc_JoinTable (pgStore Some) Some ''c'' (\<lambda>_. 5) (\<lambda>_. False) (Some ann_principal) ann_request
     ([(''g'', (river_state, NewFixedDealer [0..<52]))], river_db) = Some (Inr st, [], s1)"
    using ann_sits_down by blast
  have f: "jc_GameId ann_request = ''g''" "jc_BuyIn ann_request = 300" "jc_CommandId ann_request = []"
    "pr_UserID ann_principal = ''ann''" by (simp_all add: ann_request_def ann_principal_def)
  have none: "game_events (committed river_db) = []" by (simp add: river_db_def empty_tables_def)
  have "pg_balance river_db ''ann'' = Some 1000" by code_simp
  then have "\<exists>s2. rpc_LeaveTable (pgStore Some) Some ''d'' (\<lambda>_. 6) (\<lambda>_. False) (Some ann_principal) (jc_GameId ann_request) []
        ([] :: (uuid \<times> GameState \<times> FixedState) list, s1) = Some (Inr (jc_BuyIn ann_request), Invalidate ''g'' [], s2)
      \<and> pg_balance s2 = pg_balance river_db"
    by - (rule join_then_leave [where parse = Some and c = "''c''" and d = "''d''" and g = "''g''", OF j river_db_facts(1,3,2)
        _ _ _ _ _ _ _ river_db_facts(4)], simp_all add: f none small_numbers river_db_facts(5) latest_seq_def parseOrGenUUID_def in64_def)
  then show ?thesis using j by (auto simp: f Invalidate_def)
qed

text \<open>The same game, with \<open>cat\<close> playing as \<open>c\<close>: the first answer of a leave is 40, the second 0.\<close>

definition cat_db :: Db where
  "cat_db = river_db\<lparr>committed := empty_tables\<lparr>
       game_snapshots := [\<lparr>sr_game_id = ''g'', sr_sequence = 1, sr_hand_number = 0,
         sr_state = river_state\<lparr>PlayerUserIds := [(''c'', ''cat'')]\<rparr>\<rparr>],
       user_snapshots := [user_balance ''cat'' 60]\<rparr>\<rparr>"

definition cat_principal :: Principal where
  "cat_principal = ann_principal\<lparr>pr_UserID := ''cat''\<rparr>"

lemma cat_can_leave:
  "can_leave Some \<lparr>li_CommandID = ''d'', li_GameID = ''g'', li_UserID = ''cat''\<rparr>
     (river_state\<lparr>PlayerUserIds := [(''c'', ''cat'')]\<rparr>) (the (player river_state ''c'')) cat_db"
proof -
  have "pg_idle cat_db" "pg_good cat_db" "pg_log cat_db ''g'' = []" "game_events (committed cat_db) = []"
    "pg_GetLatestSnapshot ''g'' cat_db = Inr (river_state\<lparr>PlayerUserIds := [(''c'', ''cat'')]\<rparr>, 1)"
    by (simp_all add: cat_db_def river_db_def pg_idle_def pg_good_def tables_def empty_tables_def pg_GetLatestSnapshot_def
        down_def to_uint64_def pg_log_def rows_of_game_def)
  moreover have "pg_balance cat_db ''cat'' = Some 60" "Stack (the (player river_state ''c'')) = 40"
    "player river_state ''c'' \<noteq> None" by code_simp+
  ultimately show ?thesis
    by (simp add: can_leave_def findPlayerByUserID_def after_def applyAll_def latest_seq_def max_seq_def in64_def player_def)
qed

lemma retried_leave_pays_once_witness:
  "\<exists>s1. rpc_LeaveTable (pgStore Some) Some [] (\<lambda>_. 5) (\<lambda>_. False) (Some cat_principal) ''g'' ''d'' ([] :: (uuid \<times> nat) list, cat_db)
      = Some (Inr 40, [], s1)
    \<and> pg_balance s1 ''cat'' = Some 100
    \<and> rpc_LeaveTable (pgStore Some) Some [] (\<lambda>_. 9) (\<lambda>_. False) (Some cat_principal) ''g'' ''d'' ([] :: (uuid \<times> nat) list, s1)
      = Some (Inr 0, [], s1)"
proof -
  have f: "faults cat_db = []" "pg_balance cat_db ''cat'' = Some 60" "Stack (the (player river_state ''c'')) = 40"
    "CurrentHand river_state \<noteq> None" "\<not> IsFolded (the (player river_state ''c''))" "''d'' \<noteq> uuid_Nil"
    "pr_UserID cat_principal = ''cat''" by code_simp+
  show ?thesis
    using retried_leave_pays_once [of Some "''g''" "''g''" "''d''" "''d''" cat_principal _ _ cat_db
        "[]" "\<lambda>_. 5" "\<lambda>_. False" "[] :: (uuid \<times> nat) list" "[]" "\<lambda>_. 9" "\<lambda>_. False" "[] :: (uuid \<times> nat) list",
        OF refl _ refl f(6) cat_can_leave [folded f(7)] f(1)] f
    by (auto simp: Invalidate_def)
qed

lemma bob_can_leave:
  "can_leave Some \<lparr>li_CommandID = ''d'', li_GameID = ''g'', li_UserID = ''bob''\<rparr> lobby_state
     (sample_player ''bob'' 1 500 0 False) (lobby_db\<lparr>faults := [''CreditUserBalance'']\<rparr>)"
proof -
  let ?db = "lobby_db\<lparr>faults := [''CreditUserBalance'']\<rparr>"
  have "pg_idle ?db" "pg_good ?db" "pg_log ?db ''g'' = []" "game_events (committed ?db) = []"
    "pg_GetLatestSnapshot ''g'' ?db = Inr (lobby_state, 1)"
    by (simp_all add: lobby_db_def pg_idle_def pg_good_def tables_def pg_GetLatestSnapshot_def
        down_def to_uint64_def pg_log_def rows_of_game_def)
  moreover have "pg_balance ?db ''bob'' = Some 70" "Stack (sample_player ''bob'' 1 500 0 False) = 500" by code_simp+
  ultimately show ?thesis
    using lobby_facts(5,6)
    by (simp add: can_leave_def after_def applyAll_def latest_seq_def max_seq_def in64_def)
qed

lemma retried_leave_hides_loss_witness:
  "\<exists>s1. rpc_LeaveTable (pgStore Some) Some [] (\<lambda>_. 5) (\<lambda>_. False) (Some (cat_principal\<lparr>pr_UserID := ''bob''\<rparr>)) ''g'' ''d''
        ([] :: (uuid \<times> nat) list, lobby_db\<lparr>faults := [''CreditUserBalance'']\<rparr>) = Some (Inl Internal, [], s1)
    \<and> rpc_LeaveTable (pgStore Some) Some [] (\<lambda>_. 9) (\<lambda>_. False) (Some (cat_principal\<lparr>pr_UserID := ''bob''\<rparr>)) ''g'' ''d''
        ([] :: (uuid \<times> nat) list, s1\<lparr>faults := []\<rparr>) = Some (Inr 500, [], s1\<lparr>faults := []\<rparr>)
    \<and> pg_balance s1 ''bob'' = Some 70"
proof -
  let ?db = "lobby_db\<lparr>faults := [''CreditUserBalance'']\<rparr>"
  have f: "faults ?db = [''CreditUserBalance'']" "0 < Stack (sample_player ''bob'' 1 500 0 False)" "CurrentHand lobby_state = None"
    "Stack (sample_player ''bob'' 1 500 0 False) = 500" "pg_balance ?db ''bob'' = Some 70" "''d'' \<noteq> uuid_Nil" by code_simp+
  show ?thesis
    using retried_leave_hides_loss [of Some "''g''" "''g''" "''d''" "''d''" "cat_principal\<lparr>pr_UserID := ''bob''\<rparr>" lobby_state _ ?db
        "[]" "\<lambda>_. 5" "\<lambda>_. False" "[] :: (uuid \<times> nat) list" "[]" "\<lambda>_. 9" "\<lambda>_. False" "[] :: (uuid \<times> nat) list",
        OF refl _ refl f(6) _ f(1,2,3)] bob_can_leave f(4,5)
    by (auto simp: Invalidate_def)
qed

end
