(* ===== verification/Outbox.thy ===== *)
theory Outbox
  imports Store
begin

text \<open>
  The two statements of \<open>src/internal/store/pgstore/game_events.sql.go\<close> that are there to relay the events
  to a message bus. They need two columns that the rest of the program does not: \<open>id\<close>, which the
  database counts up with every row it inserts, and \<open>published_at\<close>.
\<close>

record outbox_row = event_row +
  row_id :: int
  published_at :: "timestamp option"

text \<open>\<open>WHERE published_at IS NULL ORDER BY id ASC LIMIT $1\<close>\<close>

definition q_GetUnpublishedEvents :: "nat \<Rightarrow> outbox_row list \<Rightarrow> outbox_row list" where
  "q_GetUnpublishedEvents lim rows = take lim (sort_key row_id (filter (\<lambda>r. published_at r = None) rows))"

text \<open>\<open>SET published_at = NOW() WHERE id = ANY($1::BIGINT[])\<close>\<close>

definition q_MarkEventsPublished :: "timestamp \<Rightarrow> int list \<Rightarrow> outbox_row list \<Rightarrow> outbox_row list" where
  "q_MarkEventsPublished now ids rows =
     map (\<lambda>r. if row_id r \<in> set ids then r\<lparr>published_at := Some now\<rparr> else r) rows"

text \<open>A relay that publishes what it has read and then marks it, over and over.\<close>

primrec relay :: "(nat \<Rightarrow> timestamp) \<Rightarrow> nat \<Rightarrow> nat \<Rightarrow> outbox_row list \<Rightarrow> outbox_row list \<times> outbox_row list" where
  "relay now lim 0 rows = ([], rows)"
| "relay now lim (Suc k) rows =
     (let batch = q_GetUnpublishedEvents lim rows;
          (sent, rows') = relay now lim k (q_MarkEventsPublished (now k) (map row_id batch) rows)
      in (batch @ sent, rows'))"

lemma unpublished_after_mark:
  assumes "distinct (map row_id rows)"
  shows "sort_key row_id (filter (\<lambda>r. published_at r = None)
      (q_MarkEventsPublished now (map row_id (q_GetUnpublishedEvents lim rows)) rows))
    = drop lim (sort_key row_id (filter (\<lambda>r. published_at r = None) rows))"
proof -
  let ?P = "\<lambda>r. published_at r = None"
  let ?u = "sort_key row_id (filter ?P rows)"
  let ?ids = "set (map row_id (take lim ?u))"
  have "distinct (map row_id (filter ?P rows))" using assms by (rule distinct_map_filter)
  then have d: "distinct (map row_id ?u)" by (simp add: distinct_map)
  have mark: "filter ?P (map (\<lambda>r. if row_id r \<in> ?ids then r\<lparr>published_at := Some now\<rparr> else r) xs)
      = filter (\<lambda>r. row_id r \<notin> ?ids) (filter ?P xs)" for xs
    by (induction xs) auto
  have "filter (\<lambda>r. row_id r \<notin> ?ids) (take lim ?u @ drop lim ?u) = drop lim ?u"
  proof -
    have "distinct (map row_id (take lim ?u) @ map row_id (drop lim ?u))"
      using d unfolding map_append [symmetric] append_take_drop_id .
    then have "\<forall>r \<in> set (drop lim ?u). row_id r \<notin> ?ids" by auto
    then have "filter (\<lambda>r. row_id r \<notin> ?ids) (drop lim ?u) = drop lim ?u"
      and "filter (\<lambda>r. row_id r \<notin> ?ids) (take lim ?u) = []"
      by (auto simp: filter_id_conv filter_empty_conv)
    then show ?thesis unfolding filter_append by simp
  qed
  then have "filter (\<lambda>r. row_id r \<notin> ?ids) ?u = drop lim ?u" unfolding append_take_drop_id .
  moreover have "sort_key row_id (filter ?P (q_MarkEventsPublished now (map row_id (q_GetUnpublishedEvents lim rows)) rows))
      = sort_key row_id (filter (\<lambda>r. row_id r \<notin> ?ids) (filter ?P rows))"
    by (simp only: q_MarkEventsPublished_def q_GetUnpublishedEvents_def mark)
  moreover have "\<dots> = filter (\<lambda>r. row_id r \<notin> ?ids) ?u" by (rule filter_sort [symmetric])
  ultimately show ?thesis by (simp only:)
qed

lemma marked_ids: "map row_id (q_MarkEventsPublished now ids rows) = map row_id rows"
  by (simp add: q_MarkEventsPublished_def)

text \<open>The relay sends every event once, in the order of the table: \<open>k\<close> rounds send the first \<open>k * lim\<close> of
  what waited, and what they leave is what comes after.\<close>

lemma relay_in_order:
  assumes "distinct (map row_id rows)" and "relay now lim k rows = (sent, rows')"
  shows "sent @ sort_key row_id (filter (\<lambda>r. published_at r = None) rows')
      = sort_key row_id (filter (\<lambda>r. published_at r = None) rows)
    \<and> sent = take (k * lim) (sort_key row_id (filter (\<lambda>r. published_at r = None) rows))"
  using assms
proof (induction k arbitrary: rows sent)
  case (Suc k)
  let ?u = "sort_key row_id (filter (\<lambda>r. published_at r = None) rows)"
  let ?rows = "q_MarkEventsPublished (now k) (map row_id (q_GetUnpublishedEvents lim rows)) rows"
  obtain rest where r: "relay now lim k ?rows = (rest, rows')" "sent = take lim ?u @ rest"
    using Suc.prems(2) by (auto simp: q_GetUnpublishedEvents_def Let_def split: prod.splits)
  have d: "distinct (map row_id ?rows)" using Suc.prems(1) by (simp add: marked_ids)
  note ih = Suc.IH [OF d r(1), unfolded unpublished_after_mark [OF Suc.prems(1)]]
  have "sent = take (lim + k * lim) ?u" unfolding r(2) conjunct2 [OF ih] by (simp add: take_add)
  moreover have "sent @ sort_key row_id (filter (\<lambda>r. published_at r = None) rows') = take lim ?u @ drop lim ?u"
    unfolding r(2) append_assoc conjunct1 [OF ih] ..
  ultimately show ?case by (simp add: add.commute)
qed simp

end
