(* ===== verification/Dealing.thy ===== *)
theory Dealing
  imports Table
begin

text \<open>
  What a session deals with the dealer it gets when it is loaded (\<open>engine/router.go\<close>, \<open>engine/session.go\<close>),
  over any number of steps: no card twice as long as the session lives, and a board that is known in
  advance when the game was loaded in the middle of a hand.
\<close>

section \<open>Steps and the dealer\<close>

text \<open>Any number of rounds of the loop, with what they did. A step that fails may have drawn cards all the
  same; such steps are left out, since the dealer then no longer fits the state.\<close>

inductive session_steps ::
  "'s Store \<Rightarrow> (string \<Rightarrow> uuid option) \<Rightarrow> (int \<Rightarrow> string) \<Rightarrow> 'd Dealer \<Rightarrow> uuid
     \<Rightarrow> ('s, 'd) World \<Rightarrow> label list \<Rightarrow> ('s, 'd) World \<Rightarrow> bool"
  for S parse uuid_New dlr g where
  start: "session_steps S parse uuid_New dlr g w [] w"
| more: "session_steps S parse uuid_New dlr g w ls w1 \<Longrightarrow> session_step S parse uuid_New dlr g w1 l w2
    \<Longrightarrow> (l = Failed \<Longrightarrow> w_dealer w2 = w_dealer w1) \<Longrightarrow> session_steps S parse uuid_New dlr g w (ls @ [l]) w2"

definition stored :: "label list \<Rightarrow> GameEvent list" where
  "stored ls = concat (map (\<lambda>l. case l of Stored evs \<Rightarrow> evs | _ \<Rightarrow> []) ls)"

lemma stored_simps [simp]:
  "stored [] = []" "stored (ls @ [Stored evs]) = stored ls @ evs"
  "stored (ls @ [Replayed evs]) = stored ls" "stored (ls @ [Failed]) = stored ls"
  by (simp_all add: stored_def)

text \<open>What a step stores is what the command asks for, which deals nothing, and the server's own moves.\<close>

definition plain_event :: "EventPayload \<Rightarrow> bool" where
  "plain_event p \<longleftrightarrow> action_event p \<or> p = EvTableResumed"

lemma plain_actions: "all_events action_event evs \<Longrightarrow> all_events plain_event evs"
  by (erule all_events_mono) (simp add: plain_event_def)

definition moves ::
  "(int \<Rightarrow> string) \<Rightarrow> 'd Dealer \<Rightarrow> GameState \<Rightarrow> 'd \<Rightarrow> GameEvent list \<Rightarrow> 'd \<Rightarrow> bool" where
  "moves uuid dlr st d evs d' \<longleftrightarrow> (\<exists>pre adv. map evt_Event evs = map evt_Event (pre @ adv) \<and> all_events plain_event pre
     \<and> ((\<exists>now. runAdvance uuid dlr now (applyAll st pre) d = (Inr adv, d')) \<or> adv = [] \<and> d' = d))"

lemma movesI:
  "map evt_Event evs = map evt_Event (pre @ adv) \<Longrightarrow> all_events plain_event pre
    \<Longrightarrow> runAdvance uuid dlr now (applyAll st pre) d = (Inr adv, d') \<Longrightarrow> moves uuid dlr st d evs d'"
  "map evt_Event evs = map evt_Event pre \<Longrightarrow> all_events plain_event pre \<Longrightarrow> moves uuid dlr st d evs d"
  unfolding moves_def by blast (metis append_Nil2)

lemma resume_moves:
  assumes "handleResume S uuid dlr g now st cmd s d = (Inr evs, s', d')"
  shows "moves uuid dlr st d evs d'"
proof (cases "GameState.Status st = GAME_STATUS_PAUSED")
  case True
  then obtain adv what where a: "runAdvance uuid dlr now (Apply st (mk_event EvTableResumed)) d = (Inr adv, d')"
    "persist S g now what (tag (cmd_CommandId cmd) (mk_event EvTableResumed # adv)) s = (Inr evs, s')"
    using assms by (auto simp: handleResume_def Let_def split: prod.splits sum.splits)
  have "map evt_Event evs = map evt_Event ([mk_event EvTableResumed] @ adv)"
    using persist_payloads [OF a(2)] tag_payloads by simp
  then show ?thesis by (rule movesI(1)) (use a(1) in \<open>simp_all add: plain_event_def applyAll_def\<close>)
next
  case False
  then obtain r what where a: "persist S g now what (tag (cmd_CommandId cmd)
      [toCommandRejectedEvent r (GameId st) (cmd_CommandId cmd)]) s = (Inr evs, s')" "d' = d"
    using assms by (auto simp: handleResume_def Let_def split: prod.splits)
  have "map evt_Event evs = map evt_Event [toCommandRejectedEvent r (GameId st) (cmd_CommandId cmd)]"
    using persist_payloads [OF a(1)] tag_payloads by simp
  then show ?thesis unfolding a(2) by (rule movesI(2)) (use rejected_payload in \<open>auto simp: plain_event_def\<close>)
qed

lemma step_moves:
  assumes "session_step S parse uuid dlr g w (Stored evs) w'"
  shows "moves uuid dlr (w_state w) (w_dealer w) evs (w_dealer w')"
  using assms
proof cases
  case (command out now actor cmd)
  have l: "fst out = Inr evs" "already_seen S parse g cmd (w_store w) = None"
    using command(3) by (auto simp: label_of_def split: sum.splits if_splits)
  obtain s1 where o: "out = (Inr evs, s1, w_dealer w')"
    using l(1) command(1) by (cases out) (simp add: finish_def Let_def)
  show ?thesis
  proof (cases "is_resume cmd")
    case True
    then show ?thesis using command(2) l(2) o resume_moves by (fastforce simp: process_def)
  next
    case False
    then obtain es where es: "HandleCommand uuid now (w_state w) cmd actor dlr (w_dealer w) = (Inr es, w_dealer w')"
      "persist S g now ''events: '' (tag (cmd_CommandId cmd) es) (w_store w) = (Inr evs, s1)"
      using command(2) l(2) o by (auto simp: process_def split: prod.splits sum.splits)
    let ?c = "commandEvents (w_state w) cmd actor"
    obtain adv where adv: "runAdvance uuid dlr now (applyAll (w_state w) ?c) (w_dealer w) = (Inr adv, w_dealer w')" "es = ?c @ adv"
      using es(1) by (auto simp: HandleCommand_def Let_def split: prod.splits sum.splits)
    have "map evt_Event evs = map evt_Event (?c @ adv)"
      using persist_payloads [OF es(2)] tag_payloads adv(2) by simp
    then show ?thesis using plain_actions [OF commandEvents_actions] adv(1) by (rule movesI(1))
  qed
next
  case (deadline t now out)
  have l: "fst out = Inr evs" using deadline(1) by (auto simp: label_of_def split: sum.splits if_splits)
  then obtain s1 where o: "out = (Inr evs, s1, w_dealer w')"
    using deadline(2) by (cases out) (simp add: finish_def Let_def)
  then obtain es where es: "runAdvance uuid dlr now (w_state w) (w_dealer w) = (Inr es, w_dealer w')"
    "map evt_Event evs = map evt_Event es"
    using deadline(5) persist_payloads by (fastforce simp: runProactiveAdvance_def split: prod.splits sum.splits if_splits)
  then show ?thesis by (intro movesI(1) [where pre = "[]"]) (simp_all add: applyAll_def)
qed

lemma step_failed_state:
  assumes "session_step S parse uuid dlr g w Failed w'"
  shows "w_state w' = w_state w"
  using assms
proof cases
  case (command out now actor cmd)
  then have "isl (fst out)" by (auto simp: label_of_def split: sum.splits if_splits)
  then obtain e s1 d1 where "out = (Inl e, s1, d1)" by (metis isl_def prod.collapse)
  then show ?thesis using command(1) by (simp add: finish_def after_result_def Let_def)
next
  case (deadline t now out)
  then have "isl (fst out)" by (auto simp: label_of_def split: sum.splits if_splits)
  then obtain e s1 d1 where "out = (Inl e, s1, d1)" by (metis isl_def prod.collapse)
  then show ?thesis using deadline(2) by (simp add: finish_def after_result_def Let_def)
qed

section \<open>No card twice\<close>

lemma dealing_payloads:
  "map evt_Event evs = map evt_Event evs' \<Longrightarrow> hand_cards cs evs = hand_cards cs evs'"
proof (induction evs arbitrary: cs evs')
  case (Cons e evs)
  then obtain e' es' where "evs' = e' # es'" "evt_Event e = evt_Event e'" "map evt_Event evs = map evt_Event es'"
    by (cases evs') auto
  then show ?case using Cons.IH by (simp add: starts_hand_def dealt_by_def)
qed simp

lemma plain_deals_nothing: "all_events plain_event evs \<Longrightarrow> \<forall>e \<in> set evs. deals_nothing e"
proof
  fix e assume "all_events plain_event evs" "e \<in> set evs"
  then obtain p where "evt_Event e = Some p" "plain_event p" by (auto simp: all_events_def)
  then show "deals_nothing e" using deals_nothing_action [of e p]
    by (auto simp: plain_event_def deals_nothing_def starts_hand_def dealt_by_def)
qed

context fair_source
begin

lemma moves_no_repeats:
  assumes "no_repeats ok rest cs d" and "moves uuid dlr st d evs d'"
  shows "no_repeats ok rest (hand_cards cs evs) d'"
proof -
  obtain pre adv where p: "map evt_Event evs = map evt_Event (pre @ adv)" "all_events plain_event pre"
    "(\<exists>now. runAdvance uuid dlr now (applyAll st pre) d = (Inr adv, d')) \<or> adv = [] \<and> d' = d"
    using assms(2) by (auto simp: moves_def)
  have "hand_cards cs evs = hand_cards cs adv"
    using dealing_payloads [OF p(1)] hand_cards_same [OF plain_deals_nothing [OF p(2)]] by simp
  then show ?thesis using p(3) assms(1) run_steps_no_repeats [OF assms(1)] by (auto simp: runAdvance_def)
qed

lemma steps_no_repeats:
  assumes "session_steps S parse uuid dlr g w ls w'" and "no_repeats ok rest cs (w_dealer w)"
  shows "no_repeats ok rest (hand_cards cs (stored ls)) (w_dealer w')"
  using assms
proof (induction rule: session_steps.induct)
  case (more w ls w1 l w2)
  then have n: "no_repeats ok rest (hand_cards cs (stored ls)) (w_dealer w1)" by blast
  show ?case
  proof (cases l)
    case (Stored evs)
    then show ?thesis using moves_no_repeats [OF n step_moves] more.hyps(2) by simp
  next
    case (Replayed evs)
    then show ?thesis using step_replayed more.hyps(2) n by fastforce
  next
    case Failed
    then show ?thesis using more.hyps(3) n by simp
  qed
qed simp

end

section \<open>How far the board is\<close>

definition stage_after :: "EventPayload \<Rightarrow> HandPhase option \<Rightarrow> HandPhase option" where
  "stage_after e sg = (case e of
      EvHandStarted hid n dl sb bb s b \<Rightarrow> Some HAND_PHASE_PREFLOP
    | EvFlopDealt a b c \<Rightarrow> map_option (\<lambda>_. HAND_PHASE_FLOP) sg
    | EvTurnDealt c \<Rightarrow> map_option (\<lambda>_. HAND_PHASE_TURN) sg
    | EvRiverDealt c \<Rightarrow> map_option (\<lambda>_. HAND_PHASE_RIVER) sg
    | EvShowdown ps \<Rightarrow> map_option (\<lambda>_. HAND_PHASE_SHOWDOWN) sg
    | EvHandEnded n \<Rightarrow> None
    | _ \<Rightarrow> sg)"

lemma stage_simps [simp]:
  "stage (upd_player pid f st) = stage st" "stage (upd_all_players f' st) = stage st"
  "(\<And>h. Phase (k h) = Phase h) \<Longrightarrow> stage (upd_hand k st) = stage st"
  "stage (st\<lparr>Version := v\<rparr>) = stage st"
  by (simp_all add: stage_def upd_player_def upd_all_players_def upd_hand_def option.map_comp comp_def)

lemma stage_with: "(\<And>p h. Phase (snd (f p h)) = Phase h) \<Longrightarrow> stage (with_player_and_hand pid f st) = stage st"
  by (simp add: stage_def with_player_and_hand_def upd_player_def split: option.splits prod.splits) (metis snd_conv)

lemma stage_award: "stage (award_winners a b ws st) = stage st"
  by (induction ws arbitrary: a st) simp_all

lemma stage_reset [simp]: "stage (resetStreetState st) = stage st"
  by (simp add: resetStreetState_def Let_def)

lemma stage_phase: "(\<And>h. Phase (k h) = ph) \<Longrightarrow> stage (upd_hand k st) = map_option (\<lambda>_. ph) (stage st)"
  by (simp add: stage_def upd_hand_def option.map_comp comp_def)

lemma stage_None: "CurrentHand st = None \<Longrightarrow> stage st = None"
  by (simp add: stage_def)

lemma stage_fields: "CurrentHand s = CurrentHand st \<Longrightarrow> stage s = stage st"
  by (simp add: stage_def)

lemma stage_payload: "stage (apply_payload e t st) = stage_after e (stage st)"
proof (cases e)
  case (EvHandStarted x1 x2 x3 x4 x5 x6 x7)
  then show ?thesis by (simp add: stage_after_def apply_HandStarted_def Let_def stage_def split: option.split)
next
  case (EvHandEnded n)
  then show ?thesis by (simp add: stage_after_def apply_HandEnded_def Let_def stage_def)
next
  case (EvFlopDealt a b c)
  then show ?thesis by (auto simp: stage_after_def apply_FlopDealt_def stage_phase [where ph = HAND_PHASE_FLOP] stage_None)
next
  case (EvTurnDealt c)
  then show ?thesis by (auto simp: stage_after_def apply_TurnDealt_def stage_phase [where ph = HAND_PHASE_TURN] stage_None)
next
  case (EvRiverDealt c)
  then show ?thesis by (auto simp: stage_after_def apply_RiverDealt_def stage_phase [where ph = HAND_PHASE_RIVER] stage_None)
next
  case (EvShowdown ps)
  then show ?thesis by (simp add: stage_after_def apply_Showdown_def stage_phase [where ph = HAND_PHASE_SHOWDOWN])
next
  case (EvPlayerAllIn x1 x2)
  then show ?thesis
    by (simp add: stage_after_def apply_PlayerAllIn_def all_in_raise_def done_acting_def Let_def stage_with split: option.split)
next
  case (EvPotAwarded x1 x2 x3 x4)
  then show ?thesis by (simp add: stage_after_def apply_PotAwarded_def Let_def stage_award)
qed (auto simp: stage_after_def handler_defs apply_PlayerJoined_def apply_PlayerLeft_def apply_BlindPosted_def apply_AntePosted_def
      apply_StraddlePosted_def apply_PlayerCalled_def apply_PlayerBet_def apply_PlayerRaised_def
      apply_SidePotCreated_def reopen_action_def done_acting_def Let_def stage_with intro: stage_fields)

definition stages :: "GameEvent list \<Rightarrow> HandPhase option \<Rightarrow> HandPhase option" where
  "stages evs sg = foldl (\<lambda>sg e. case evt_Event e of None \<Rightarrow> sg | Some p \<Rightarrow> stage_after p sg) sg evs"

lemma stages_simps [simp]:
  "stages [] sg = sg"
  "stages (e # evs) sg = stages evs (case evt_Event e of None \<Rightarrow> sg | Some p \<Rightarrow> stage_after p sg)"
  "stages (evs @ evs') sg = stages evs' (stages evs sg)"
  by (simp_all add: stages_def)

lemma stage_applyAll: "stage (applyAll st evs) = stages evs (stage st)"
proof (induction evs arbitrary: st)
  case (Cons e evs)
  have "stage (Apply st e) = (case evt_Event e of None \<Rightarrow> stage st | Some p \<Rightarrow> stage_after p (stage st))"
    by (simp add: Apply_def Let_def stage_payload split: option.split)
  then show ?case using Cons.IH by (simp add: applyAll_def)
qed (simp add: applyAll_def)

lemma stages_payloads: "map evt_Event evs = map evt_Event evs' \<Longrightarrow> stages evs sg = stages evs' sg"
proof (induction evs arbitrary: sg evs')
  case (Cons e evs)
  then obtain e' es' where "evs' = e' # es'" "evt_Event e = evt_Event e'" "map evt_Event evs = map evt_Event es'"
    by (cases evs') auto
  then show ?case using Cons.IH by simp
qed simp

text \<open>The cards of the board that are still to come, from the cards the dealer holds: each street burns one.\<close>

definition upcoming :: "HandPhase option \<Rightarrow> card list \<Rightarrow> card list" where
  "upcoming sg r = (case sg of
      Some HAND_PHASE_PREFLOP \<Rightarrow> take 3 (drop 1 r) @ take 1 (drop 5 r) @ take 1 (drop 7 r)
    | Some HAND_PHASE_FLOP \<Rightarrow> take 1 (drop 1 r) @ take 1 (drop 3 r)
    | Some HAND_PHASE_TURN \<Rightarrow> take 1 (drop 1 r)
    | _ \<Rightarrow> [])"

definition betting_over :: "HandPhase option \<Rightarrow> bool" where
  "betting_over sg \<longleftrightarrow> sg = None \<or> sg = Some HAND_PHASE_SHOWDOWN"

text \<open>What is dealt comes off the front of what was upcoming; the rest stays upcoming until the hand is over.\<close>

definition board_kept :: "HandPhase option \<Rightarrow> card list \<Rightarrow> GameEvent list \<Rightarrow> card list \<Rightarrow> bool" where
  "board_kept sg r evs r' \<longleftrightarrow>
     (let dealt = concat (map dealt_by evs); sg' = stages evs sg
      in prefix (dealt @ upcoming sg' r') (upcoming sg r) \<and> (betting_over sg \<longrightarrow> betting_over sg')
        \<and> (betting_over sg' \<or> dealt @ upcoming sg' r' = upcoming sg r))"

lemma board_kept_append:
  assumes "board_kept sg r evs r1" and "board_kept (stages evs sg) r1 evs' r2"
  shows "board_kept sg r (evs @ evs') r2"
  using assms unfolding board_kept_def Let_def
  by (auto simp: same_prefix_prefix intro: prefix_order.trans) (metis append.assoc prefix_order.trans same_prefix_prefix)+

lemma board_kept_payloads:
  "map evt_Event evs = map evt_Event evs' \<Longrightarrow> board_kept sg r evs r' = board_kept sg r evs' r'"
proof -
  assume eq: "map evt_Event evs = map evt_Event evs'"
  have "map dealt_by es = map (\<lambda>p. dealt_by ((undefined::GameEvent)\<lparr>evt_Event := p\<rparr>)) (map evt_Event es)" for es
    by (simp add: dealt_by_def)
  then have "map dealt_by evs = map dealt_by evs'" unfolding eq by (metis eq)
  then show ?thesis by (simp add: board_kept_def stages_payloads [OF eq])
qed

lemma plain_stage: "plain_event p \<Longrightarrow> stage_after p sg = sg \<or> betting_over (stage_after p sg)"
  by (cases p) (auto simp: plain_event_def action_event_def stage_after_def betting_over_def split: option.split)

lemma over_upcoming [simp]: "betting_over sg \<Longrightarrow> upcoming sg r = []"
  by (auto simp: betting_over_def upcoming_def)

lemma plain_over: "plain_event p \<Longrightarrow> betting_over sg \<Longrightarrow> betting_over (stage_after p sg)"
  using plain_stage [of p sg] by auto

lemma board_kept_plain: "all_events plain_event evs \<Longrightarrow> board_kept sg r evs r"
proof (induction evs arbitrary: sg)
  case Nil
  then show ?case by (simp add: board_kept_def)
next
  case (Cons e evs)
  then obtain p where p: "evt_Event e = Some p" "plain_event p" by auto
  have "dealt_by e = []" using plain_deals_nothing [of "[e]"] p by (simp add: deals_nothing_def)
  then have "board_kept sg r [e] r"
    using plain_stage [OF p(2), of sg] p(1) by (auto simp: board_kept_def)
  then show ?case using board_kept_append [of sg r "[e]" r evs r] Cons by simp
qed

context card_source
begin

lemma street_board:
  assumes "ok d" and "(case burn_and_deal dlr street n d of
      (Inl e, d1) \<Rightarrow> (Inl e, d1) | (Inr new, d1) \<Rightarrow> (Inr [bre, f new], d1)) = (Inr evs, d')"
  obtains c new where "rest d = c # new @ rest d'" "length new = n" "ok d'" "evs = [bre, f new]"
proof -
  obtain new where new: "burn_and_deal dlr street n d = (Inr new, d')" "evs = [bre, f new]"
    using assms(2) by (auto split: prod.splits sum.splits)
  then show ?thesis using burn_and_deal_Inr [OF assms(1) new(1)] that by auto
qed

lemma advanceStreet_board:
  assumes "ok d" and "CurrentHand st = Some h" and "advanceStreet dlr st d = (Inr evs, d')"
  shows "ok d' \<and> board_kept (stage st) (rest d) evs (rest d')"
proof (cases "Phase h")
  case HAND_PHASE_PREFLOP
  have eq: "(case burn_and_deal dlr ''flop'' 3 d of (Inl e, d1) \<Rightarrow> (Inl e, d1)
      | (Inr new, d1) \<Rightarrow> (Inr [mk_event (EvBettingRoundEnded HAND_PHASE_PREFLOP (Pot h)), mk_event (EvFlopDealt (new ! 0) (new ! 1) (new ! 2))], d1)) = (Inr evs, d')"
    using assms(2,3) HAND_PHASE_PREFLOP by (simp add: advanceStreet_def)
  obtain c new where r: "rest d = c # new @ rest d'" "length new = 3" "ok d'"
    "evs = [mk_event (EvBettingRoundEnded HAND_PHASE_PREFLOP (Pot h)), mk_event (EvFlopDealt (new ! 0) (new ! 1) (new ! 2))]"
    by (rule street_board [OF assms(1) eq])
  then obtain x y z where "new = [x, y, z]" by (auto simp: length_Suc_conv numeral_3_eq_3)
  then show ?thesis using r HAND_PHASE_PREFLOP assms(2)
    by (simp add: board_kept_def betting_over_def stage_def stage_after_def upcoming_def dealt_by_def numeral_eq_Suc)
next
  case HAND_PHASE_FLOP
  have eq: "(case burn_and_deal dlr ''turn'' 1 d of (Inl e, d1) \<Rightarrow> (Inl e, d1)
      | (Inr new, d1) \<Rightarrow> (Inr [mk_event (EvBettingRoundEnded HAND_PHASE_FLOP (Pot h)), mk_event (EvTurnDealt (new ! 0))], d1)) = (Inr evs, d')"
    using assms(2,3) HAND_PHASE_FLOP by (simp add: advanceStreet_def)
  obtain c new where r: "rest d = c # new @ rest d'" "length new = 1" "ok d'"
    "evs = [mk_event (EvBettingRoundEnded HAND_PHASE_FLOP (Pot h)), mk_event (EvTurnDealt (new ! 0))]"
    by (rule street_board [OF assms(1) eq])
  then obtain x where "new = [x]" by (auto simp: length_Suc_conv)
  then show ?thesis using r HAND_PHASE_FLOP assms(2)
    by (simp add: board_kept_def betting_over_def stage_def stage_after_def upcoming_def dealt_by_def numeral_eq_Suc)
next
  case HAND_PHASE_TURN
  have eq: "(case burn_and_deal dlr ''river'' 1 d of (Inl e, d1) \<Rightarrow> (Inl e, d1)
      | (Inr new, d1) \<Rightarrow> (Inr [mk_event (EvBettingRoundEnded HAND_PHASE_TURN (Pot h)), mk_event (EvRiverDealt (new ! 0))], d1)) = (Inr evs, d')"
    using assms(2,3) HAND_PHASE_TURN by (simp add: advanceStreet_def)
  obtain c new where r: "rest d = c # new @ rest d'" "length new = 1" "ok d'"
    "evs = [mk_event (EvBettingRoundEnded HAND_PHASE_TURN (Pot h)), mk_event (EvRiverDealt (new ! 0))]"
    by (rule street_board [OF assms(1) eq])
  then obtain x where "new = [x]" by (auto simp: length_Suc_conv)
  then show ?thesis using r HAND_PHASE_TURN assms(2)
    by (simp add: board_kept_def betting_over_def stage_def stage_after_def upcoming_def dealt_by_def numeral_eq_Suc)
next
  case HAND_PHASE_RIVER
  then have "evs = mk_event (EvBettingRoundEnded (Phase h) (Pot h)) # endHandShowdown st" "d' = d"
    using assms(2,3) by (simp_all add: advanceStreet_def)
  then show ?thesis using assms(1) plain_actions [OF move_actions(4), of st]
    by (simp add: board_kept_plain plain_event_def action_event_def)
qed (use assms board_kept_plain [of "[]"] in \<open>simp_all add: advanceStreet_def\<close>)

lemma advance_board:
  assumes "ok d" and "advance uuid dlr now st d = (Inr evs, d')" and "\<forall>e \<in> set evs. \<not> starts_hand e"
  shows "ok d' \<and> board_kept (stage st) (rest d) evs (rest d')"
proof -
  have plain: "all_events action_event evs \<Longrightarrow> d' = d \<Longrightarrow> ?thesis"
    using assms(1) board_kept_plain [OF plain_actions] by simp
  show ?thesis
  proof (cases "CurrentHand st")
    case None
    have "startNewHand uuid dlr st active d = (Inr evs, d') \<Longrightarrow> \<exists>e \<in> set evs. starts_hand e" for active
      by (auto simp: startNewHand_def hand_opening_def starts_hand_def Let_def split: prod.splits option.splits sum.splits)
    moreover have "all_events action_event (map (\<lambda>p. mk_event (EvPlayerSatOut (PlayerId p))) ps)" for ps :: "PlayerState list"
      by (simp add: all_events_def action_event_def)
    ultimately show ?thesis using None assms(2,3) plain
      by (fastforce simp: advance_def advanceIdle_def Let_def split: if_splits)
  next
    case (Some h)
    then show ?thesis using assms(2) plain move_actions advanceStreet_board [OF assms(1) Some]
      by (auto simp: advance_def advanceHand_def Let_def split: if_splits)
  qed
qed

lemma run_steps_board:
  "ok d \<Longrightarrow> run_steps k uuid dlr now st d = (Inr evs, d') \<Longrightarrow> \<forall>e \<in> set evs. \<not> starts_hand e \<Longrightarrow>
   ok d' \<and> board_kept (stage st) (rest d) evs (rest d')"
proof (induction k arbitrary: st d evs)
  case (Suc k)
  obtain batch d1 where b: "advance uuid dlr now st d = (Inr batch, d1)"
    using Suc.prems(2) by (auto split: prod.splits sum.splits)
  show ?case
  proof (cases "batch = []")
    case False
    then obtain later where m: "run_steps k uuid dlr now (applyAll st batch) d1 = (Inr later, d')" "evs = batch @ later"
      using Suc.prems(2) b by (auto split: prod.splits sum.splits)
    have one: "ok d1" "board_kept (stage st) (rest d) batch (rest d1)"
      using advance_board [OF Suc.prems(1) b] Suc.prems(3) m(2) by auto
    then show ?thesis using Suc.IH [OF one(1) m(1)] Suc.prems(3) m(2) board_kept_append [OF one(2)]
      by (simp add: stage_applyAll)
  next
    case True
    then show ?thesis using Suc.prems(2) b advance_board [OF Suc.prems(1) b] by simp
  qed
qed (simp add: board_kept_plain)

lemma moves_board:
  assumes "ok d" and "moves uuid dlr st d evs d'" and "\<forall>e \<in> set evs. \<not> starts_hand e"
  shows "ok d' \<and> board_kept (stage st) (rest d) evs (rest d')"
proof -
  obtain pre adv where p: "map evt_Event evs = map evt_Event (pre @ adv)" "all_events plain_event pre"
    "(\<exists>now. runAdvance uuid dlr now (applyAll st pre) d = (Inr adv, d')) \<or> adv = [] \<and> d' = d"
    using assms(2) by (auto simp: moves_def)
  have s: "(\<forall>e \<in> set es. \<not> starts_hand e) \<longleftrightarrow> (\<forall>x \<in> set (map evt_Event es). \<not> starts_hand ((undefined::GameEvent)\<lparr>evt_Event := x\<rparr>))" for es
    by (simp add: starts_hand_def)
  have "\<forall>e \<in> set adv. \<not> starts_hand e" using assms(3) s [of evs] s [of "pre @ adv"] p(1) by auto
  then have "ok d' \<and> board_kept (stages pre (stage st)) (rest d) adv (rest d')"
    using p(3) run_steps_board [OF assms(1), where st = "applyAll st pre" and evs = adv and d' = d'] assms(1)
      board_kept_plain [of "[]"]
    unfolding runAdvance_def stage_applyAll by auto
  then show ?thesis
    using board_kept_append [OF board_kept_plain [OF p(2)]] board_kept_payloads [OF p(1)] by blast
qed

lemma steps_board:
  assumes "session_steps S parse uuid dlr g w ls w'" and "ok (w_dealer w)"
    and "\<forall>l \<in> set ls. \<forall>es. l \<noteq> Replayed es" and "\<forall>e \<in> set (stored ls). \<not> starts_hand e"
  shows "ok (w_dealer w') \<and> stage (w_state w') = stages (stored ls) (stage (w_state w))
    \<and> board_kept (stage (w_state w)) (rest (w_dealer w)) (stored ls) (rest (w_dealer w'))"
  using assms
proof (induction rule: session_steps.induct)
  case (start w)
  then show ?case using board_kept_plain [of "[]"] by simp
next
  case (more w ls w1 l w2)
  show ?case
  proof (cases l)
    case (Stored evs)
    have IH: "ok (w_dealer w1)" "stage (w_state w1) = stages (stored ls) (stage (w_state w))"
      "board_kept (stage (w_state w)) (rest (w_dealer w)) (stored ls) (rest (w_dealer w1))"
      using more.IH more.prems Stored by auto
    have m: "moves uuid dlr (w_state w1) (w_dealer w1) evs (w_dealer w2)" "w_state w2 = applyAll (w_state w1) evs"
      using more.hyps(2) step_moves step_stored unfolding Stored by blast+
    have "\<forall>e \<in> set evs. \<not> starts_hand e" using more.prems(3) Stored by simp
    from moves_board [OF IH(1) m(1) this] show ?thesis
      using IH(2) board_kept_append [OF IH(3)] by (simp add: Stored m(2) stage_applyAll)
  next
    case (Replayed evs)
    then show ?thesis using more.prems(2) by simp
  next
    case Failed
    then have "w_state w2 = w_state w1" using step_failed_state more.hyps(2) by simp
    then show ?thesis using more.IH more.prems more.hyps(3) Failed by simp
  qed
qed

end


section \<open>Properties\<close>



section \<open>The theorems at work\<close>








end
