(* ===== verification/Spec2Isabelle.thy ===== *)
theory Spec2Isabelle
  imports UserService Actor Race Search NewHand Setup CopyFrom Leaving Outbox Dealing
begin

text \<open>
  A verification of pace-poker, a poker server written in Go whose chips are earned by walking. This
  theory imports all the others; it says which theory models which part of \<open>src/\<close>, how state and
  operations correspond, and what is proved.

  \<^bold>\<open>The program.\<close> A game is a sequence of events. \<open>engine.Apply\<close> computes the state from them. A
  player's command is validated against the state, becomes events, and the server then makes its own
  moves (deal, next street, showdown, next hand) until nothing is left to do. One session per game runs
  this loop in memory and writes the events to Postgres; a router keeps the sessions and loads a game
  from its latest snapshot and the later events. The lobby moves chips between the balances of the users
  and the tables, beside the session, and tells the router to load the game again. Users earn their
  chips with step reports, are known by the subject of a token, and reach all this by requests.

  \<^bold>\<open>Theories, in the order of their imports.\<close>
  \<^item> \<^theory_text>\<open>PokerPrelude\<close>: 64-bit arithmetic on \<^typ>\<open>int\<close> with the wrap-around written out
    (\<open>add64\<close>, \<open>sub64\<close>, \<open>mul64\<close>), association lists for Go maps, lemmas shared by the rest.
  \<^item> \<^theory_text>\<open>Proto\<close>: the messages of \<open>src/proto/poker/v1\<close> as records and datatypes.
  \<^item> \<^theory_text>\<open>Rejection\<close>, \<^theory_text>\<open>Deck\<close>, \<^theory_text>\<open>Dealer\<close>: \<open>engine/rejection.go\<close>, \<open>deck/deck.go\<close>,
    \<open>engine/dealer.go\<close>. The shuffle consumes random bytes, which are an argument; the answers it can
    get within the bounds it asks for and the orders of the deck correspond one to one, every byte gives
    every answer equally often, and the cards dealt after a shuffle are distinct.
  \<^item> \<^theory_text>\<open>HandEval\<close>, \<^theory_text>\<open>HandEval_Correct\<close>: \<open>engine/eval.go\<close>. The rank of five cards is compared with
    the rules of poker; the search over the combinations ends and finds a best hand.
  \<^item> \<^theory_text>\<open>Pots\<close>: \<open>engine/pot.go\<close>. Side pots add up to the commitments and follow the side-pot rule,
    whatever the order in which Go iterates a map as long as the action order names all players in the
    hand; bounds of the rake.
  \<^item> \<^theory_text>\<open>Apply\<close>: \<open>engine/apply.go\<close>, one definition per event.
  \<^item> \<^theory_text>\<open>Utf8\<close>, \<^theory_text>\<open>Validate\<close>: \<open>engine/validate*.go\<close>, one definition per command, with the
    counting of runes.
  \<^item> \<^theory_text>\<open>Advance\<close>, \<^theory_text>\<open>Handler\<close>: \<open>engine/advance.go\<close>, \<open>engine/handler.go\<close>, over an interface
    of dealers.
  \<^item> \<^theory_text>\<open>Ledger\<close>, \<^theory_text>\<open>Betting\<close>, \<^theory_text>\<open>Showdown\<close>, \<^theory_text>\<open>Lifecycle\<close>: properties of the engine.
    Every event changes the chips by its ledger entry; the rules of no-limit betting, what remains of the other
    structures, and the effect of the commands on the books; who wins and what is paid; the server
    always comes to rest.
  \<^item> \<^theory_text>\<open>EngineEvents\<close>, \<^theory_text>\<open>Cards\<close>: which events the engine emits; the cards a hand takes from
    the deck (the locale \<open>full_source\<close>, interpreted on \<open>CryptoDealer\<close>) and that they suffice.
  \<^item> \<^theory_text>\<open>NewHand\<close>: the start of a hand against the rules of the game, stated over seats: button, blinds,
    order of action, and what everybody pays.
  \<^item> \<^theory_text>\<open>Store\<close>: \<open>store/store.go\<close> as the record of the methods of the interface, and \<open>pgStore\<close>, its
    implementation on tables that are lists of rows, with committed tables and an open transaction. The
    statements of \<open>store/pgstore\<close> on games are definitions of their own. \<^theory_text>\<open>CopyFrom\<close>: the iterator of \<open>pgstore/copyfrom.go\<close>;
    \<^theory_text>\<open>Outbox\<close>: the two statements that would publish events, with the columns only they need.
  \<^item> \<^theory_text>\<open>EventLog\<close>: \<open>engine/lobby.go\<close> (\<open>LoadState\<close>) and the loading in \<open>engine/router.go\<close>. The locale
    \<open>event_log\<close> states what the engine needs of a store; it is interpreted on \<open>pgStore\<close>.
  \<^item> \<^theory_text>\<open>Session\<close>: \<open>engine/session.go\<close> and the map of sessions of \<open>engine/router.go\<close>, as a step
    relation: idempotency, numbering, storing, deadlines. The session refines the log.
  \<^item> \<^theory_text>\<open>Actor\<close>: \<open>Submit\<close> with the buffered inbox and the waiting callers of a session, as a relation
    of interleaved steps, and the reaper of the router. Commands are processed in order and at most once,
    and what a caller is told is in the log.
  \<^item> \<^theory_text>\<open>Lobby\<close>: \<open>lobby/join_leave.go\<close>. The locale \<open>cash_store\<close> extends \<open>event_log\<close> by balances and
    is interpreted on \<open>pgStore\<close>.
  \<^item> \<^theory_text>\<open>Users\<close>: \<open>store/users.go\<close> and the statements of \<open>store/pgstore\<close> it runs. What a report of
    steps credits, what a list of them does to the balance and the audit table, and what a race of two does.
  \<^item> \<^theory_text>\<open>Auth\<close>: \<open>internal/auth\<close>, from the header of a request to its user. That a subject keeps
    its user is in \<^theory_text>\<open>UserService\<close>, over everything that commits in the database.
  \<^item> \<^theory_text>\<open>Setup\<close>: \<open>internal/config\<close> and the configuration of the authenticator: without the development
    mode only tokens let a request in.
  \<^item> \<^theory_text>\<open>UserService\<close>, \<^theory_text>\<open>Server\<close>: the requests of \<open>user/service.go\<close> and \<open>internal/server\<close>, and
    what follows from the parts together.
  \<^item> \<^theory_text>\<open>Leaving\<close>: leaving through the service. A leave succeeds; a join and a leave after it move no
    chips; what a leave that is sent again is answered, also after a credit that failed.
  \<^item> \<^theory_text>\<open>Search\<close>: listing and searching tables, from the request down to \<open>ILIKE\<close>. The case folding
    of the collation and the order in which a statement reads the rows are arguments.
  \<^item> \<^theory_text>\<open>Table\<close>: every state a table can get into, from its creation by the service through session
    steps, commands answered from the log, joins and leaves: seats stay disjoint, the deck suffices, the rake
    of a hand won without a showdown; and what a command with the id of a join does.
  \<^item> \<^theory_text>\<open>Dealing\<close>: the cards over the life of a session: none is dealt twice, and what the dealer of
    a session loaded in the middle of a hand deals.
  \<^item> \<^theory_text>\<open>Race\<close>: the session and the lobby writing to the same log at once.

  \<^bold>\<open>Correspondence.\<close> Functions keep their Go names where Isabelle allows it; a method of \<open>pgStore\<close> is
  \<open>pg_\<dots>\<close>, a statement of \<open>pgstore\<close> is \<open>q_\<dots>\<close>, a request is \<open>svc_\<dots>\<close> or \<open>rpc_\<dots>\<close>. A part of a long function that is
  a definition of its own is named after what it does. An error is the left side of a sum or the value
  of an option; \<open>errors.Is\<close> looks through wrapped errors. Go maps are association lists, so that the order
  of an iteration, which Go leaves open, is a value the theorems quantify over. A method with side
  effects takes the state and returns it. \<^const>\<open>None\<close> as the result of loading or of \<open>WithTx\<close> means that
  the code does not return; for \<open>pgStore\<close> this is excluded.

  \<^bold>\<open>Bounds.\<close> The loop of server moves runs at most 64 steps as in the code; a game settles after at most
  six batches, so the cap is never the reason to stop. Amounts below \<open>2^61\<close> keep every sum of chips below
  the overflow of \<open>int64\<close>; the books of a table assume them. Sequence numbers stay below \<open>2^63 - 1\<close>, where
  the \<open>BIGINT\<close> column ends. Events are read in pages of 500; the reading ends because every page moves past
  the last number it has seen.

  \<^bold>\<open>What the code does and should not.\<close> Some theorems state behaviour that looks unintended: all-in
  players lose the pot when only one player has chips left, and a showdown on a later street to whoever
  still acts; pot-limit and fixed-limit tables play no-limit; a second short all-in opens the raise that
  the first had closed; a pot won before the flop is raked in spite of \<open>no_flop_no_drop\<close>; a command with
  the id of a join puts the buy-in on the table again; a retried command is applied twice in
  memory, a game loaded in the middle of a hand deals from an unshuffled deck, a failed credit loses the
  stack of a player who leaves and a retry reports it as paid, antes and blinds together can exceed a
  stack, two first reports of a day or a change of the time zone earn steps twice,
  a join shows the hole cards of the others, a session that has stopped is handed out until it is reaped,
  and a command between a join and \<open>Invalidate\<close> is computed without the player who joined.

  \<^bold>\<open>Not modelled.\<close> Goroutines, channels and locks of the runtime appear as atomic steps that interleave
  (\<open>actor_step\<close>, \<open>session_step\<close>); when a timer fires or a context is cancelled is open. gRPC, the JWT validator, the LRU
  cache, \<open>uuid\<close>, time zones and random bytes are third-party or the system's and appear as arguments.
  Of \<open>main\<close> only the environment and the interceptors are modelled: the rest wires libraries together
  (flags, the connection pool, the listener, signals). A statement on the database changes the rows its text names or
  fails; isolation is modelled where a theorem needs it (\<open>racing_reports\<close>, \<open>pg_AppendEvents\<close>).
\<close>

end
